(* ===== verification/Prelude.thy ===== *)
theory Prelude
  imports Main "HOL-Library.Word"
begin

text \<open>
  Shared vocabulary of the development: Go's error values, results that are an error or a
  value, strings and 64-bit integers as Go has them, and the list lemmas that several
  components use.

  A Go \<open>string\<close> is a sequence of bytes; it is a \<^typ>\<open>string\<close> here, one \<^typ>\<open>char\<close> per
  byte. A Go \<open>[]byte\<close> that the code treats as bytes (keys, digests, ciphertexts) is a list
  of \<^typ>\<open>8 word\<close>. A Go \<open>time.Time\<close> is an \<^typ>\<open>int\<close>, the number of microseconds since
  the Unix epoch in UTC (the resolution of a PostgreSQL \<open>timestamptz\<close>).
\<close>

section \<open>Rewriting collections\<close>

named_theorems go_defs \<open>definitions of the small Go helpers, unfolded on demand\<close>
named_theorems table_simps \<open>lookups and keys after a table statement\<close>

section \<open>Names of the types the model uses\<close>

type_synonym byte = "8 word"
type_synonym bytes = "byte list"
type_synonym micros = int

section \<open>Errors\<close>

text \<open>
  \<open>ErrSentinel\<close> is a package-level \<open>errors.New\<close> value, recognised by identity
  (\<open>pgx.ErrNoRows\<close>, \<open>karyawan.ErrNotFound\<close>); \<open>ErrNew\<close> is an error built where it is
  returned, or one that a library hands back; \<open>ErrWrap p e\<close> is
  \<open>fmt.Errorf("p: %w", e)\<close>.
\<close>

datatype goerr =
    ErrSentinel string
  | ErrNew string
  | ErrWrap string goerr

text \<open>\<open>err.Error()\<close>.\<close>

fun err_text :: "goerr \<Rightarrow> string" where
  "err_text (ErrSentinel s) = s"
| "err_text (ErrNew s) = s"
| "err_text (ErrWrap p e) = p @ '': '' @ err_text e"

text \<open>\<open>errors.Is(err, target)\<close> for a sentinel target, given by its text.\<close>

fun errors_is :: "goerr \<Rightarrow> string \<Rightarrow> bool" where
  "errors_is (ErrSentinel s) t = (s = t)"
| "errors_is (ErrNew s) t = False"
| "errors_is (ErrWrap p e) t = errors_is e t"

abbreviation err_no_rows :: goerr where
  "err_no_rows \<equiv> ErrSentinel ''no rows in result set''"

definition wrap_err :: "string \<Rightarrow> goerr + 'a \<Rightarrow> goerr + 'a" where
  "wrap_err p r = (case r of Inl e \<Rightarrow> Inl (ErrWrap p e) | Inr x \<Rightarrow> Inr x)"

lemma wrap_err_simps [simp]:
  "wrap_err p (Inl e) = Inl (ErrWrap p e)"
  "wrap_err p (Inr x) = Inr x"
  by (simp_all add: wrap_err_def)

lemma wrap_err_Inr_iff [simp]: "wrap_err p r = Inr x \<longleftrightarrow> r = Inr x"
  by (cases r) auto

section \<open>64-bit integers\<close>

text \<open>The value a Go \<open>int\<close> holds after an operation whose exact result is \<open>x\<close>.\<close>

definition wrap64 :: "int \<Rightarrow> int" where
  "wrap64 x = (x + 2 ^ 63) mod 2 ^ 64 - 2 ^ 63"

definition int64_range :: "int \<Rightarrow> bool" where
  "int64_range x \<longleftrightarrow> - (2 ^ 63) \<le> x \<and> x < 2 ^ 63"

lemma int64_range_wrap64 [simp]: "int64_range (wrap64 x)"
  by (simp add: int64_range_def wrap64_def)

lemma wrap64_id [simp]: "int64_range x \<Longrightarrow> wrap64 x = x"
  by (simp add: int64_range_def wrap64_def)

lemma wrap64_min: "wrap64 (- (- (2 ^ 63))) = - (2 ^ 63)"
  by (simp add: wrap64_def)

section \<open>Strings and bytes\<close>

abbreviation nl :: string where
  "nl \<equiv> [CHR 0x0A]"

definition byte_of_char :: "char \<Rightarrow> byte" where
  "byte_of_char c = word_of_nat (of_char c)"

definition char_of_byte :: "byte \<Rightarrow> char" where
  "char_of_byte b = char_of (unat b)"

lemma char_of_byte_of_char [simp]: "char_of_byte (byte_of_char c) = c"
proof -
  have "of_char c < (256 :: nat)" by simp
  then have "unat (byte_of_char c) = of_char c"
    by (simp add: byte_of_char_def unat_of_nat)
  then show ?thesis by (simp add: char_of_byte_def)
qed

lemma byte_of_char_of_byte [simp]: "byte_of_char (char_of_byte b) = b"
proof -
  have "unat b < 256" by (rule order_less_le_trans [OF unsigned_less]) simp
  then show ?thesis by (simp add: byte_of_char_def char_of_byte_def)
qed

text \<open>The conversions \<open>[]byte(s)\<close> and \<open>string(b)\<close>.\<close>

definition bytes_of_string :: "string \<Rightarrow> bytes" where
  "bytes_of_string s = map byte_of_char s"

definition string_of_bytes :: "bytes \<Rightarrow> string" where
  "string_of_bytes b = map char_of_byte b"

lemma string_of_bytes_of_string [simp]: "string_of_bytes (bytes_of_string s) = s"
  by (simp add: string_of_bytes_def bytes_of_string_def o_def)

lemma bytes_of_string_of_bytes [simp]: "bytes_of_string (string_of_bytes b) = b"
  by (simp add: string_of_bytes_def bytes_of_string_def o_def)

lemma length_bytes_of_string [simp]: "length (bytes_of_string s) = length s"
  by (simp add: bytes_of_string_def)

lemma length_string_of_bytes [simp]: "length (string_of_bytes s) = length s"
  by (simp add: string_of_bytes_def)

text \<open>\<open>strings.Join(parts, sep)\<close>.\<close>

fun str_join :: "string \<Rightarrow> string list \<Rightarrow> string" where
  "str_join sep [] = []"
| "str_join sep [x] = x"
| "str_join sep (x # y # xs) = x @ sep @ str_join sep (y # xs)"

section \<open>Codecs\<close>

text \<open>
  The interface of an encoding: what is decoded after it was encoded is the input. The
  base64 and hex codecs, the key encoding of the crypto component and the AEAD framing
  provide it.
\<close>

locale codec =
  fixes enc :: "'a \<Rightarrow> 'b"
    and dec :: "'b \<Rightarrow> 'e + 'a"
    and ok :: "'a \<Rightarrow> bool"
  assumes dec_enc: "ok x \<Longrightarrow> dec (enc x) = Inr x"
begin

lemma enc_inject: "ok x \<Longrightarrow> ok y \<Longrightarrow> enc x = enc y \<longleftrightarrow> x = y"
  using dec_enc by (metis sum.inject(2))

lemma enc_list_inject:
  "\<forall>x \<in> set xs. ok x \<Longrightarrow> \<forall>y \<in> set ys. ok y \<Longrightarrow> map enc xs = map enc ys \<longleftrightarrow> xs = ys"
proof (induction xs arbitrary: ys)
  case Nil
  show ?case by auto
next
  case (Cons x xs)
  then show ?case by (cases ys) (auto simp: enc_inject)
qed

end

section \<open>Lists\<close>

lemma find_map: "find P (map f xs) = map_option f (find (P \<circ> f) xs)"
  by (induction xs) auto

lemma find_filter: "find P (filter Q xs) = find (\<lambda>x. Q x \<and> P x) xs"
  by (induction xs) auto

lemma find_cong_set: "(\<And>x. x \<in> set xs \<Longrightarrow> P x = Q x) \<Longrightarrow> find P xs = find Q xs"
  by (induction xs) auto

lemma find_SomeD: "find P xs = Some x \<Longrightarrow> x \<in> set xs \<and> P x"
  by (induction xs) (auto split: if_splits)

lemma concat_chunks:
  "concat (map (\<lambda>i. take k (drop (i * k) xs)) [0..<n]) = take (n * k) xs"
proof (induction n)
  case 0
  then show ?case by simp
next
  case (Suc n)
  have "take (n * k) xs @ take k (drop (n * k) xs) = take (n * k + k) xs"
    by (simp add: take_add)
  with Suc show ?case by (simp add: add.commute)
qed

section \<open>Case\<close>

text \<open>\<open>strings.ToLower\<close> on ASCII text.\<close>

definition ascii_lower :: "char \<Rightarrow> char" where
  "ascii_lower c = (let n = of_char c :: nat in if 65 \<le> n \<and> n \<le> 90 then char_of (n + 32) else c)"

abbreviation to_lower :: "string \<Rightarrow> string" where
  "to_lower \<equiv> map ascii_lower"

end
