(* ===== verification/Machine.thy ===== *)
theory Machine
  imports Prelude
begin

text \<open>
  Machines given by a step relation over states and events: what is reached by events that satisfy
  an assumption, and the two rules by which the components prove what their steps keep.
\<close>

inductive reaches :: "('s \<Rightarrow> 'e \<Rightarrow> 's \<Rightarrow> bool) \<Rightarrow> ('e \<Rightarrow> bool) \<Rightarrow> 's \<Rightarrow> 's \<Rightarrow> bool"
  for step :: "'s \<Rightarrow> 'e \<Rightarrow> 's \<Rightarrow> bool" and I :: "'e \<Rightarrow> bool" and s0 :: 's where
  here: "reaches step I s0 s0"
| further: "reaches step I s0 s \<Longrightarrow> I e \<Longrightarrow> step s e s' \<Longrightarrow> reaches step I s0 s'"

lemma reaches_trans:
  assumes "reaches step I s s'" and "reaches step I s' s''"
  shows "reaches step I s s''"
  using assms(2,1) by (induction rule: reaches.induct) (auto intro: further)

lemma reaches_step: "I e \<Longrightarrow> step s e s' \<Longrightarrow> reaches step I s s'"
  by (rule further [OF here])

lemma reaches_cons: "I e \<Longrightarrow> step s e s' \<Longrightarrow> reaches step I s' s'' \<Longrightarrow> reaches step I s s''"
  by (rule reaches_trans [OF reaches_step])

lemma reaches_mono: "reaches step I s s' \<Longrightarrow> (\<And>e. I e \<Longrightarrow> J e) \<Longrightarrow> reaches step J s s'"
  by (induction rule: reaches.induct) (auto intro: here further)

text \<open>An invariant under an assumption about the events.\<close>

locale machine_invariant =
  fixes step :: "'s \<Rightarrow> 'e \<Rightarrow> 's \<Rightarrow> bool" and I :: "'e \<Rightarrow> bool" and inv :: "'s \<Rightarrow> bool"
  assumes keeps: "step s e s' \<Longrightarrow> I e \<Longrightarrow> inv s \<Longrightarrow> inv s'"
begin

lemma reached: "reaches step I s s' \<Longrightarrow> inv s \<Longrightarrow> inv s'"
  by (induction rule: reaches.induct) (auto intro: keeps)

end

text \<open>
  A relation between an earlier and a later state that every step from a state with the invariant
  respects, such as "nothing is lost" or "only entries with P are appended".
\<close>

locale machine_progress = machine_invariant +
  fixes rel :: "'s \<Rightarrow> 's \<Rightarrow> bool"
  assumes rel_refl: "rel s s"
    and rel_trans: "rel s s' \<Longrightarrow> rel s' s'' \<Longrightarrow> rel s s''"
    and rel_step: "step s e s' \<Longrightarrow> I e \<Longrightarrow> inv s \<Longrightarrow> rel s s'"
begin

lemma progress: "reaches step I s s' \<Longrightarrow> inv s \<Longrightarrow> inv s' \<and> rel s s'"
proof (induction rule: reaches.induct)
  case here
  then show ?case by (simp add: rel_refl)
next
  case (further s' e s'')
  then show ?case using keeps rel_step rel_trans by blast
qed

end

end
