(* ===== verification/SqlTable.thy ===== *)
theory SqlTable
  imports Prelude
begin

text \<open>
  A PostgreSQL table is a list of rows; the primary key is a function of the row, and
  \<^emph>\<open>keyed\<close> says that no two rows share it. Here are the three statement shapes the
  program's SQL uses: a lookup by key, \<open>INSERT ... ON CONFLICT (key) DO UPDATE\<close>, and an
  \<open>UPDATE ... WHERE\<close>, with the laws that the repositories rely on. The locales state the
  contract of a keyed table; every component that owns a table interprets one of them on
  its own row type.
\<close>

section \<open>Statements\<close>

definition keyed :: "('r \<Rightarrow> 'k) \<Rightarrow> 'r list \<Rightarrow> bool" where
  "keyed key t \<longleftrightarrow> distinct (map key t)"

definition sql_find :: "('r \<Rightarrow> 'k) \<Rightarrow> 'k \<Rightarrow> 'r list \<Rightarrow> 'r option" where
  "sql_find key k t = find (\<lambda>r. key r = k) t"

text \<open>
  \<open>mrg old new\<close> is the row after \<open>DO UPDATE SET\<close>: the stored row \<open>old\<close> with the assigned
  columns taken from the row \<open>new\<close> that was proposed for insertion (\<open>EXCLUDED\<close>).
\<close>

fun sql_upsert :: "('r \<Rightarrow> 'k) \<Rightarrow> ('r \<Rightarrow> 'r \<Rightarrow> 'r) \<Rightarrow> 'r \<Rightarrow> 'r list \<Rightarrow> 'r list" where
  "sql_upsert key mrg r [] = [r]"
| "sql_upsert key mrg r (x # t) =
     (if key x = key r then mrg x r # t else x # sql_upsert key mrg r t)"

definition sql_update :: "('r \<Rightarrow> bool) \<Rightarrow> ('r \<Rightarrow> 'r) \<Rightarrow> 'r list \<Rightarrow> 'r list" where
  "sql_update p f t = map (\<lambda>r. if p r then f r else r) t"

section \<open>Lookups\<close>

lemma sql_find_Nil [simp]: "sql_find key k [] = None"
  by (simp add: sql_find_def)

lemma sql_find_Cons [simp]:
  "sql_find key k (r # t) = (if key r = k then Some r else sql_find key k t)"
  by (simp add: sql_find_def)

lemma sql_find_None_iff: "sql_find key k t = None \<longleftrightarrow> k \<notin> key ` set t"
  by (auto simp: sql_find_def find_None_iff)

lemma sql_find_SomeD: "sql_find key k t = Some r \<Longrightarrow> r \<in> set t \<and> key r = k"
  by (auto simp: sql_find_def dest: find_SomeD)

lemma sql_find_keyed: "keyed key t \<Longrightarrow> r \<in> set t \<Longrightarrow> sql_find key (key r) t = Some r"
  by (induction t) (auto simp: keyed_def)

lemma sql_find_append:
  "sql_find key k (t @ u) = (case sql_find key k t of None \<Rightarrow> sql_find key k u | Some r \<Rightarrow> Some r)"
  by (induction t) auto

lemma keyed_append_new:
  "keyed key t \<Longrightarrow> key r \<notin> key ` set t \<Longrightarrow> keyed key (t @ [r])"
  by (auto simp: keyed_def)

section \<open>Updates\<close>

lemma length_sql_update [simp]: "length (sql_update p f t) = length t"
  by (simp add: sql_update_def)

lemma keys_sql_update:
  "(\<And>r. key (f r) = key r) \<Longrightarrow> map key (sql_update p f t) = map key t"
  by (induction t) (auto simp: sql_update_def)

lemma keyed_sql_update:
  "(\<And>r. key (f r) = key r) \<Longrightarrow> keyed key (sql_update p f t) = keyed key t"
  by (simp add: keyed_def keys_sql_update)

lemma sql_find_update:
  assumes "\<And>r. key (f r) = key r"
  shows "sql_find key k (sql_update p f t) =
    map_option (\<lambda>r. if p r then f r else r) (sql_find key k t)"
  using assms by (induction t) (auto simp: sql_update_def)

lemma sql_update_none: "(\<And>r. r \<in> set t \<Longrightarrow> \<not> p r) \<Longrightarrow> sql_update p f t = t"
  by (induction t) (auto simp: sql_update_def)

lemma set_sql_update: "set (sql_update p f t) = (\<lambda>r. if p r then f r else r) ` set t"
  by (simp add: sql_update_def)

section \<open>The contract of a keyed table\<close>

locale keyed_table =
  fixes key :: "'r \<Rightarrow> 'k"
    and mrg :: "'r \<Rightarrow> 'r \<Rightarrow> 'r"
  assumes mrg_key: "key old = key new \<Longrightarrow> key (mrg old new) = key new"
begin

lemma find_upsert [table_simps]:
  "sql_find key k (sql_upsert key mrg r t) =
     (if k = key r
      then Some (case sql_find key k t of None \<Rightarrow> r | Some old \<Rightarrow> mrg old r)
      else sql_find key k t)"
  by (induction t) (auto simp: mrg_key)

lemma keys_upsert [table_simps]:
  "key ` set (sql_upsert key mrg r t) = insert (key r) (key ` set t)"
  by (induction t) (auto simp: mrg_key)

lemma keys_upsert_list:
  "map key (sql_upsert key mrg r t) =
     (if key r \<in> key ` set t then map key t else map key t @ [key r])"
  by (induction t) (auto simp: mrg_key)

lemma keyed_upsert [table_simps]: "keyed key t \<Longrightarrow> keyed key (sql_upsert key mrg r t)"
  by (auto simp: keyed_def keys_upsert_list)

lemma set_upsert_subset:
  "x \<in> set (sql_upsert key mrg r t) \<Longrightarrow> x \<in> set t \<or> x = r \<or> (\<exists>old \<in> set t. key old = key r \<and> x = mrg old r)"
  by (induction t) (auto split: if_splits)

lemma upsert_comm_find:
  "key r \<noteq> key r' \<Longrightarrow>
   sql_find key k (sql_upsert key mrg r (sql_upsert key mrg r' t)) =
   sql_find key k (sql_upsert key mrg r' (sql_upsert key mrg r t))"
  by (simp add: find_upsert)

end

text \<open>
  A mirror table: the conflict clause overwrites every column, so that the stored row is
  the proposed one whether the key was present or not.
\<close>

locale mirror_table = keyed_table +
  assumes mrg_new: "key old = key new \<Longrightarrow> mrg old new = new"
begin

lemma find_upsert_new:
  "sql_find key k (sql_upsert key mrg r t) = (if k = key r then Some r else sql_find key k t)"
  by (auto simp: find_upsert mrg_new dest: sql_find_SomeD split: option.splits)

lemma upsert_idem: "sql_upsert key mrg r (sql_upsert key mrg r t) = sql_upsert key mrg r t"
  by (induction t) (auto simp: mrg_new)

text \<open>After a run of upserts a key holds the last row written under it.\<close>

lemma find_upserts:
  "sql_find key k (fold (sql_upsert key mrg) rs t) =
     (case sql_find key k (rev rs) of None \<Rightarrow> sql_find key k t | Some r \<Rightarrow> Some r)"
proof (induction rs arbitrary: t)
  case Nil
  then show ?case by simp
next
  case (Cons r rs)
  then show ?case
    by (auto simp: find_upsert_new sql_find_append split: option.splits)
qed

lemma find_upserts_distinct:
  assumes "distinct (map key rs)" and "r \<in> set rs"
  shows "sql_find key (key r) (fold (sql_upsert key mrg) rs t) = Some r"
proof -
  have "keyed key (rev rs)" and "r \<in> set (rev rs)"
    using assms by (simp_all add: keyed_def rev_map [symmetric])
  then have "sql_find key (key r) (rev rs) = Some r"
    by (rule sql_find_keyed)
  then show ?thesis by (simp add: find_upserts)
qed

lemma find_upserts_other:
  "k \<notin> key ` set rs \<Longrightarrow> sql_find key k (fold (sql_upsert key mrg) rs t) = sql_find key k t"
proof -
  assume "k \<notin> key ` set rs"
  then have "sql_find key k (rev rs) = None" by (simp add: sql_find_None_iff)
  then show ?thesis by (simp add: find_upserts)
qed

lemma keyed_upserts: "keyed key t \<Longrightarrow> keyed key (fold (sql_upsert key mrg) rs t)"
  by (induction rs arbitrary: t) (auto simp: keyed_upsert)

end

end
