(* ===== verification/GoStrconv.thy ===== *)
theory GoStrconv
  imports Prelude
begin

text \<open>
  Decimal integers and lines: the repository's own \<open>itoa\<close> (\<open>internal/karyawan/repo.go\<close>),
  Go's \<open>strconv.Atoi\<close> as the handlers and the setup flow use it (the value and the error
  are both results: the list handler ignores the error and keeps the value), and
  \<open>splitLines\<close> of \<open>internal/setup/setup.go\<close>. A Go \<open>int\<close> is an \<^typ>\<open>int\<close> here and the one
  operation that can leave the 64-bit range, the negation in \<open>itoa\<close>, wraps explicitly.
\<close>

section \<open>Digits\<close>

definition digit_char :: "int \<Rightarrow> char" where
  "digit_char d = char_of (48 + nat d)"

definition digit_val :: "char \<Rightarrow> int" where
  "digit_val c = int (of_char c) - 48"

definition is_digit :: "char \<Rightarrow> bool" where
  "is_digit c \<longleftrightarrow> 0 \<le> digit_val c \<and> digit_val c \<le> 9"

lemma digit_val_char [simp]: "0 \<le> d \<Longrightarrow> d \<le> 9 \<Longrightarrow> digit_val (digit_char d) = d"
  by (simp add: digit_val_def digit_char_def)

lemma is_digit_char [simp]: "0 \<le> d \<Longrightarrow> d \<le> 9 \<Longrightarrow> is_digit (digit_char d)"
  by (simp add: is_digit_def)

lemma not_is_digit_sign [simp]: "\<not> is_digit (CHR ''-'')" "\<not> is_digit (CHR ''+'')"
  by (simp_all add: is_digit_def digit_val_def)

section \<open>itoa\<close>

text \<open>
  The loop \<open>for i > 0\<close>: the digits are written from the end of the buffer, so each
  iteration puts one in front of those already there.
\<close>

function itoa_loop :: "int \<Rightarrow> string \<Rightarrow> string" where
  "itoa_loop i buf = (if i > 0 then itoa_loop (i div 10) (digit_char (i mod 10) # buf) else buf)"
  by pat_completeness auto
termination
  by (relation "measure (\<lambda>(i, buf). nat i)") auto

declare itoa_loop.simps [simp del]

definition itoa :: "int \<Rightarrow> string" where
  "itoa i =
     (if i = 0 then ''0''
      else
        let neg = i < 0;
            i' = (if neg then wrap64 (- i) else i);
            buf = itoa_loop i' []
        in if neg then CHR ''-'' # buf else buf)"

lemma itoa_loop_append: "itoa_loop i (xs @ buf) = itoa_loop i xs @ buf"
proof (induction i xs rule: itoa_loop.induct)
  case (1 i xs)
  show ?case
  proof (cases "i > 0")
    case True
    with 1 show ?thesis by (simp add: itoa_loop.simps [of i])
  next
    case False
    then show ?thesis by (simp add: itoa_loop.simps [of i])
  qed
qed

lemma itoa_loop_step:
  "i > 0 \<Longrightarrow> itoa_loop i [] = itoa_loop (i div 10) [] @ [digit_char (i mod 10)]"
  using itoa_loop_append [of "i div 10" "[]" "[digit_char (i mod 10)]"]
  by (simp add: itoa_loop.simps [of i])

lemma itoa_loop_nonpos: "i \<le> 0 \<Longrightarrow> itoa_loop i [] = []"
  by (simp add: itoa_loop.simps)

lemma itoa_loop_digits: "list_all is_digit (itoa_loop i [])"
proof (induction "nat i" arbitrary: i rule: less_induct)
  case less
  show ?case
  proof (cases "i > 0")
    case True
    then have "list_all is_digit (itoa_loop (i div 10) [])"
      by (intro less) simp
    with True show ?thesis by (simp add: itoa_loop_step)
  next
    case False
    then show ?thesis by (simp add: itoa_loop_nonpos)
  qed
qed

text \<open>Ten digits per power of ten: the loop writes at most \<open>k\<close> bytes for \<open>i < 10 ^ k\<close>.\<close>

lemma itoa_loop_length: "i < 10 ^ k \<Longrightarrow> length (itoa_loop i []) \<le> k"
proof (induction k arbitrary: i)
  case 0
  then show ?case by (simp add: itoa_loop_nonpos)
next
  case (Suc k)
  show ?case
  proof (cases "i > 0")
    case True
    have "i div 10 < 10 ^ k" using Suc.prems by simp
    from Suc.IH [OF this] True show ?thesis by (simp add: itoa_loop_step)
  next
    case False
    then show ?thesis by (simp add: itoa_loop_nonpos)
  qed
qed

lemma itoa_loop_pos: "i > 0 \<Longrightarrow> itoa_loop i [] \<noteq> []"
  by (simp add: itoa_loop_step)

section \<open>strconv.Atoi\<close>

datatype num_error = NumSyntax | NumRange

text \<open>
  \<open>strconv.ParseUint(s, 10, 64)\<close>: a byte that is no digit is a syntax error with value 0;
  a value that leaves 64 bits is a range error with the largest value, found before the
  remaining bytes are looked at.
\<close>

fun parse_uint_loop :: "int \<Rightarrow> string \<Rightarrow> int \<times> num_error option" where
  "parse_uint_loop n [] = (n, None)"
| "parse_uint_loop n (c # s) =
     (if \<not> is_digit c then (0, Some NumSyntax)
      else if n \<ge> (2 ^ 64 - 1) div 10 + 1 then (2 ^ 64 - 1, Some NumRange)
      else if n * 10 + digit_val c > 2 ^ 64 - 1 then (2 ^ 64 - 1, Some NumRange)
      else parse_uint_loop (n * 10 + digit_val c) s)"

definition parse_uint :: "string \<Rightarrow> int \<times> num_error option" where
  "parse_uint s = (if s = [] then (0, Some NumSyntax) else parse_uint_loop 0 s)"

text \<open>\<open>strconv.Atoi\<close>: an optional sign, then \<open>ParseUint\<close>, clamped to 64 bits signed.\<close>

definition atoi :: "string \<Rightarrow> int \<times> num_error option" where
  "atoi s0 =
     (if s0 = [] then (0, Some NumSyntax)
      else
        let neg = hd s0 = CHR ''-'';
            s = (if neg \<or> hd s0 = CHR ''+'' then tl s0 else s0)
        in case parse_uint s of
             (un, Some NumSyntax) \<Rightarrow> (0, Some NumSyntax)
           | (un, e) \<Rightarrow>
               if \<not> neg \<and> un \<ge> 2 ^ 63 then (2 ^ 63 - 1, Some NumRange)
               else if neg \<and> un > 2 ^ 63 then (- (2 ^ 63), Some NumRange)
               else (if neg then - un else un, e))"

lemma parse_uint_loop_nonneg: "0 \<le> n \<Longrightarrow> 0 \<le> fst (parse_uint_loop n s)"
proof (induction s arbitrary: n)
  case Nil
  then show ?case by simp
next
  case (Cons c s)
  then show ?case by (auto simp: is_digit_def)
qed

lemma parse_uint_nonneg: "0 \<le> fst (parse_uint s)"
  by (simp add: parse_uint_def parse_uint_loop_nonneg)

text \<open>Whatever the input, the value is a 64-bit integer.\<close>

lemma atoi_clamp:
  "0 \<le> un \<Longrightarrow> int64_range (fst
     (if \<not> neg \<and> un \<ge> 2 ^ 63 then (2 ^ 63 - 1, Some NumRange)
      else if neg \<and> un > 2 ^ 63 then (- (2 ^ 63), Some NumRange)
      else (if neg then - un else un, e)))"
  by (auto simp: int64_range_def)

lemma atoi_range: "int64_range (fst (atoi s))"
proof -
  have zero: "int64_range (0 :: int)" by (simp add: int64_range_def)
  let ?neg = "hd s = CHR ''-''"
  let ?s = "if ?neg \<or> hd s = CHR ''+'' then tl s else s"
  obtain un e where p: "parse_uint ?s = (un, e)" by (cases "parse_uint ?s") auto
  with parse_uint_nonneg [of ?s] have "0 \<le> un" by simp
  show ?thesis
  proof (cases "s = [] \<or> e = Some NumSyntax")
    case True
    with p zero show ?thesis by (auto simp: atoi_def Let_def)
  next
    case False
    with p have "atoi s =
        (if \<not> ?neg \<and> un \<ge> 2 ^ 63 then (2 ^ 63 - 1, Some NumRange)
         else if ?neg \<and> un > 2 ^ 63 then (- (2 ^ 63), Some NumRange)
         else (if ?neg then - un else un, e))"
      by (auto simp: atoi_def Let_def split: option.splits num_error.splits)
    with atoi_clamp [OF \<open>0 \<le> un\<close>] show ?thesis by simp
  qed
qed

lemma parse_uint_loop_append:
  "parse_uint_loop n (s @ t) =
     (case parse_uint_loop n s of (m, None) \<Rightarrow> parse_uint_loop m t | r \<Rightarrow> r)"
  by (induction s arbitrary: n) auto

lemma parse_uint_loop_itoa:
  assumes "0 \<le> i" and "i < 2 ^ 64"
  shows "parse_uint_loop 0 (itoa_loop i []) = (i, None)"
  using assms
proof (induction "nat i" arbitrary: i rule: less_induct)
  case less
  show ?case
  proof (cases "i = 0")
    case True
    then show ?thesis by (simp add: itoa_loop_nonpos)
  next
    case False
    with less.prems have "i > 0" by simp
    then have "parse_uint_loop 0 (itoa_loop (i div 10) []) = (i div 10, None)"
      using less by simp
    moreover have "i div 10 < (2 ^ 64 - 1) div 10 + 1" and "i div 10 * 10 + i mod 10 = i"
      using less.prems by simp_all
    ultimately show ?thesis
      using \<open>i > 0\<close> less.prems by (simp add: itoa_loop_step parse_uint_loop_append)
  qed
qed

lemma parse_uint_itoa:
  "0 < i \<Longrightarrow> i < 2 ^ 64 \<Longrightarrow> parse_uint (itoa_loop i []) = (i, None)"
  by (simp add: parse_uint_def itoa_loop_pos parse_uint_loop_itoa)

lemma hd_itoa_loop: "i > 0 \<Longrightarrow> is_digit (hd (itoa_loop i []))"
  using itoa_loop_digits [of i] itoa_loop_pos [of i] by (cases "itoa_loop i []") auto

lemma itoa_pos: "i > 0 \<Longrightarrow> itoa i = itoa_loop i []"
  by (simp add: itoa_def Let_def)

lemma itoa_neg:
  "i < 0 \<Longrightarrow> int64_range i \<Longrightarrow> i \<noteq> - (2 ^ 63) \<Longrightarrow> itoa i = CHR ''-'' # itoa_loop (- i) []"
  by (simp add: itoa_def Let_def int64_range_def)

lemma atoi_unsigned:
  assumes "s \<noteq> []" and "is_digit (hd s)" and "parse_uint s = (n, None)" and "n < 2 ^ 63"
  shows "atoi s = (n, None)"
proof -
  from assms(2) have "hd s \<noteq> CHR ''-''" and "hd s \<noteq> CHR ''+''" by auto
  with assms show ?thesis by (simp add: atoi_def)
qed

lemma atoi_minus: "parse_uint s = (n, None) \<Longrightarrow> n \<le> 2 ^ 63 \<Longrightarrow> atoi (CHR ''-'' # s) = (- n, None)"
  by (simp add: atoi_def)

text \<open>\<open>Atoi\<close> reads back what \<open>itoa\<close> wrote, except for the smallest integer.\<close>

lemma atoi_itoa:
  assumes "int64_range i" and "i \<noteq> - (2 ^ 63)"
  shows "atoi (itoa i) = (i, None)"
proof -
  consider "i > 0" | "i = 0" | "i < 0" by linarith
  then show ?thesis
  proof cases
    case 1
    with assms have "i < 2 ^ 63" and "i < 2 ^ 64" by (auto simp: int64_range_def)
    with 1 show ?thesis
      by (auto simp: itoa_pos intro!: atoi_unsigned itoa_loop_pos hd_itoa_loop parse_uint_itoa)
  next
    case 2
    have "atoi (itoa 0) = (0, None)" by code_simp
    with 2 show ?thesis by simp
  next
    case 3
    with assms have "- i \<le> 2 ^ 63" and "- i < 2 ^ 64" by (auto simp: int64_range_def)
    with 3 have "atoi (CHR ''-'' # itoa_loop (- i) []) = (- (- i), None)"
      by (intro atoi_minus parse_uint_itoa) auto
    with 3 assms show ?thesis by (simp add: itoa_neg)
  qed
qed

text \<open>The buffer of 20 bytes is always large enough.\<close>

lemma itoa_length: "int64_range i \<Longrightarrow> length (itoa i) \<le> 20"
proof -
  assume r: "int64_range i"
  have "length (itoa_loop j []) \<le> 19" if "j < 2 ^ 63" for j
    by (rule itoa_loop_length) (use that in simp)
  moreover have "(if i < 0 then wrap64 (- i) else i) < 2 ^ 63"
    using r int64_range_wrap64 [of "- i"] by (auto simp: int64_range_def)
  ultimately show ?thesis
    by (fastforce simp: itoa_def Let_def split: if_splits)
qed

section \<open>splitLines\<close>

text \<open>
  The loop over the bytes: \<open>cur\<close> is \<open>b[start:i]\<close>, reversed; a last line without a newline
  is kept, an empty one after the last newline is not.
\<close>

fun split_lines_loop :: "string \<Rightarrow> string \<Rightarrow> string list" where
  "split_lines_loop cur [] = (if cur = [] then [] else [rev cur])"
| "split_lines_loop cur (c # b) =
     (if c = CHR 0x0A then rev cur # split_lines_loop [] b else split_lines_loop (c # cur) b)"

definition split_lines :: "string \<Rightarrow> string list" where
  "split_lines b = split_lines_loop [] b"

lemma split_lines_loop_no_nl:
  "CHR 0x0A \<notin> set cur \<Longrightarrow> l \<in> set (split_lines_loop cur b) \<Longrightarrow> CHR 0x0A \<notin> set l"
proof (induction b arbitrary: cur)
  case Nil
  then show ?case by (auto split: if_splits)
next
  case (Cons c b)
  from Cons.IH [of "[]"] Cons.IH [of "c # cur"] Cons.prems show ?case
    by (auto split: if_splits)
qed

lemma split_lines_loop_concat:
  "CHR 0x0A \<notin> set cur \<Longrightarrow>
   \<exists>pad. (pad = [] \<or> pad = nl) \<and>
     concat (map (\<lambda>l. l @ nl) (split_lines_loop cur b)) = rev cur @ b @ pad"
proof (induction b arbitrary: cur)
  case Nil
  then show ?case by auto
next
  case (Cons c b)
  show ?case
  proof (cases "c = CHR 0x0A")
    case True
    with Cons.IH [of "[]"] show ?thesis by auto
  next
    case False
    with Cons.prems Cons.IH [of "c # cur"] show ?thesis by auto
  qed
qed

text \<open>A text of newline-terminated lines splits into exactly these lines.\<close>

lemma split_lines_loop_terminated:
  assumes "CHR 0x0A \<notin> set l"
  shows "split_lines_loop cur (l @ nl @ b) = (rev cur @ l) # split_lines_loop [] b"
  using assms by (induction l arbitrary: cur) auto

lemma split_lines_terminated [simp]:
  "CHR 0x0A \<notin> set l \<Longrightarrow> split_lines (l @ nl @ b) = l # split_lines b"
  by (simp add: split_lines_def split_lines_loop_terminated [simplified])

lemma split_lines_Nil [simp]: "split_lines [] = []"
  by (simp add: split_lines_def)

section \<open>Decimal formatting\<close>

text \<open>The verb \<open>%d\<close> of \<open>fmt\<close>: like \<open>itoa\<close>, but exact on every integer.\<close>

definition fmt_d :: "int \<Rightarrow> string" where
  "fmt_d i =
     (if i = 0 then ''0''
      else if i < 0 then CHR ''-'' # itoa_loop (- i) [] else itoa_loop i [])"

lemma fmt_d_itoa: "int64_range i \<Longrightarrow> i \<noteq> - (2 ^ 63) \<Longrightarrow> fmt_d i = itoa i"
proof -
  assume i: "int64_range i" "i \<noteq> - (2 ^ 63)"
  consider "i > 0" | "i = 0" | "i < 0" by linarith
  then show ?thesis
  proof cases
    case 3
    from itoa_neg [OF this i] 3 show ?thesis by (simp add: fmt_d_def)
  qed (simp_all add: fmt_d_def itoa_pos itoa_def)
qed

end
