(* ===== verification/GoTime.thy ===== *)
theory GoTime
  imports GoStrconv
begin

text \<open>
  The part of Go's \<open>time\<close> package the program relies on: the calendar date of a time
  (the algorithm of \<open>time.Time.Date\<close>, by 400-, 100-, 4- and 1-year cycles), the layouts
  \<open>"2006-01-02"\<close> (\<open>toView\<close> in \<open>internal/api/handlers.go\<close>) and RFC 3339 with fraction (the
  JSON form of a time, in the raw payload of a mirrored row), and the day a \<open>date\<close> column
  keeps of a time. Times are microseconds since the epoch, in UTC; days count from
  1970-01-01. The main result is that the calendar conversion loses nothing.
\<close>

section \<open>Days and dates\<close>

definition micros_per_day :: int where
  "micros_per_day = 86400000000"

text \<open>What a PostgreSQL \<open>date\<close> column keeps of a time, and the time it is read back as.\<close>

definition day_of :: "micros \<Rightarrow> int" where
  "day_of t = t div micros_per_day"

definition time_of_day :: "int \<Rightarrow> micros" where
  "time_of_day d = d * micros_per_day"

lemma day_of_time_of_day [simp]: "day_of (time_of_day d) = d"
  by (simp add: day_of_def time_of_day_def micros_per_day_def)

definition is_leap :: "int \<Rightarrow> bool" where
  "is_leap y \<longleftrightarrow> y mod 4 = 0 \<and> (y mod 100 \<noteq> 0 \<or> y mod 400 = 0)"

definition days_before :: "int list" where
  "days_before = [0, 31, 59, 90, 120, 151, 181, 212, 243, 273, 304, 334, 365]"

text \<open>Month (from 1) and day of a day of the year, counted from 0.\<close>

definition month_day_common :: "int \<Rightarrow> int \<times> int" where
  "month_day_common day =
     (let m = nat (day div 31); e = days_before ! (m + 1)
      in if day \<ge> e then (int m + 2, day - e + 1) else (int m + 1, day - days_before ! m + 1))"

definition month_day :: "bool \<Rightarrow> int \<Rightarrow> int \<times> int" where
  "month_day leap day =
     (if leap \<and> day > 31 + 29 - 1 then month_day_common (day - 1)
      else if leap \<and> day = 31 + 29 - 1 then (2, 29)
      else month_day_common day)"

text \<open>Year and day of the year, for a day counted from 0001-01-01.\<close>

definition year_yday :: "int \<Rightarrow> int \<times> int" where
  "year_yday d0 =
     (let n400 = d0 div 146097; d1 = d0 mod 146097;
          n100 = d1 div 36524 - d1 div 36524 div 4; d2 = d1 - 36524 * n100;
          n4 = d2 div 1461; d3 = d2 - 1461 * n4;
          n1 = d3 div 365 - d3 div 365 div 4; d4 = d3 - 365 * n1
      in (400 * n400 + 100 * n100 + 4 * n4 + n1 + 1, d4))"

definition civil :: "int \<Rightarrow> int \<times> int \<times> int" where
  "civil d =
     (let (y, yday) = year_yday (d + 719162); (m, md) = month_day (is_leap y) yday
      in (y, m, md))"

text \<open>The inverse, \<open>time.Date(y, m, d)\<close> as a day number.\<close>

definition days_of_civil :: "int \<Rightarrow> int \<Rightarrow> int \<Rightarrow> int" where
  "days_of_civil y m d =
     (let k = y - 1
      in 365 * k + k div 4 - k div 100 + k div 400
         + days_before ! nat (m - 1) + (if is_leap y \<and> m > 2 then 1 else 0) + (d - 1) - 719162)"

lemma month_day_common_ok:
  assumes "0 \<le> n" and "n < 365" and "month_day_common n = (m, d)"
  shows "1 \<le> m \<and> m \<le> 12 \<and> 1 \<le> d \<and> d \<le> 31 \<and> days_before ! nat (m - 1) + d - 1 = n
       \<and> (m > 2 \<longleftrightarrow> n \<ge> 59)"
proof -
  define q where "q = n div 31"
  have q: "31 * q \<le> n" "n < 31 * q + 31" by (simp_all add: q_def)
  with assms have "0 \<le> q" and "q \<le> 11" by simp_all
  then have "q \<in> {0, 1, 2, 3, 4, 5, 6, 7, 8, 9, 10, 11}" by (simp, presburger)
  moreover have "month_day_common n =
      (let k = nat q; e = days_before ! (k + 1)
       in if n \<ge> e then (int k + 2, n - e + 1) else (int k + 1, n - days_before ! k + 1))"
    by (simp add: month_day_common_def q_def)
  ultimately show ?thesis
    using q assms by (auto simp: days_before_def Let_def split: if_splits)
qed

lemma month_day_ok:
  assumes "0 \<le> n" and "n < 365 + (if leap then 1 else 0)" and "month_day leap n = (m, d)"
  shows "1 \<le> m \<and> m \<le> 12 \<and> 1 \<le> d \<and> d \<le> 31
    \<and> days_before ! nat (m - 1) + (if leap \<and> m > 2 then 1 else 0) + (d - 1) = n"
proof -
  consider "leap" "n > 59" | "leap" "n = 59" | "n < 59 \<or> \<not> leap" by linarith
  then show ?thesis
  proof cases
    case 1
    with assms have "month_day_common (n - 1) = (m, d)" by (simp add: month_day_def)
    from month_day_common_ok [OF _ _ this] 1 assms show ?thesis by auto
  next
    case 2
    with assms have "m = 2" and "d = 29" by (simp_all add: month_day_def)
    with 2 show ?thesis by (simp add: days_before_def)
  next
    case 3
    with assms have "month_day_common n = (m, d)" by (auto simp: month_day_def)
    from month_day_common_ok [OF _ _ this] 3 assms show ?thesis by (auto split: if_splits)
  qed
qed

text \<open>
  A quotient by a cycle length that is capped at 3 (the code's \<open>n -= n >> 2\<close>): the last day
  of the fourth cycle stays in the third.
\<close>

lemma capped_quotient:
  fixes x k :: int
  assumes "0 \<le> x" and "x \<le> 4 * k" and "0 < k" and q: "q = x div k - x div k div 4"
  shows "0 \<le> q" "q \<le> 3" "0 \<le> x - k * q" "x - k * q \<le> k"
    "q < 3 \<Longrightarrow> x - k * q < k" "x - k * q = k \<Longrightarrow> q = 3 \<and> x = 4 * k"
proof -
  define q0 r where "q0 = x div k" and "r = x mod k"
  have x: "x = k * q0 + r" and r: "0 \<le> r" "r < k"
    using assms by (simp_all add: q0_def r_def)
  have "0 \<le> q0" using assms by (simp add: q0_def pos_imp_zdiv_nonneg_iff)
  moreover have "q0 \<le> 4"
    using zdiv_mono1 [of x "4 * k" k] assms by (simp add: q0_def)
  ultimately have "q0 = 0 \<or> q0 = 1 \<or> q0 = 2 \<or> q0 = 3 \<or> q0 = 4" by presburger
  moreover have "q = q0 - q0 div 4" using q by (simp add: q0_def)
  moreover have "q0 = 4 \<Longrightarrow> r = 0" using x r assms(2) by simp
  ultimately have "(q0 < 4 \<and> q = q0 \<or> q0 = 4 \<and> q = 3 \<and> r = 0) \<and> 0 \<le> q \<and> q \<le> 3" by auto
  then show "0 \<le> q" "q \<le> 3" "0 \<le> x - k * q" "x - k * q \<le> k"
    "q < 3 \<Longrightarrow> x - k * q < k" "x - k * q = k \<Longrightarrow> q = 3 \<and> x = 4 * k"
    using x r assms(3) by auto
qed

text \<open>
  The cycle decomposition: each quotient is in its range, so that the year's own quotients
  are the cycle counts, and the day of the year fits the year's length.
\<close>

lemma year_yday_ok:
  assumes "year_yday d = (y, yd)"
  shows "365 * (y - 1) + (y - 1) div 4 - (y - 1) div 100 + (y - 1) div 400 + yd = d"
    and "0 \<le> yd" and "yd < 365 + (if is_leap y then 1 else 0)"
proof -
  define n400 where "n400 = d div 146097"
  define d1 where "d1 = d mod 146097"
  define n100 where "n100 = d1 div 36524 - d1 div 36524 div 4"
  define d2 where "d2 = d1 - 36524 * n100"
  define n4 where "n4 = d2 div 1461"
  define d3 where "d3 = d2 - 1461 * n4"
  define n1 where "n1 = d3 div 365 - d3 div 365 div 4"
  have d: "d = 146097 * n400 + d1" and d1: "0 \<le> d1" "d1 \<le> 146096"
    by (simp_all add: n400_def d1_def)
  have n100: "0 \<le> n100" "n100 \<le> 3" and d2: "0 \<le> d2" "d2 \<le> 36524" "n100 < 3 \<Longrightarrow> d2 < 36524"
    using capped_quotient [OF d1(1) _ _ n100_def] d1(2) unfolding d2_def by simp_all
  have n4: "0 \<le> n4" "n4 \<le> 24"
    using d2(1) zdiv_mono1 [OF d2(2), of 1461] by (simp_all add: n4_def pos_imp_zdiv_nonneg_iff)
  have d3_mod: "d3 = d2 mod 1461"
    by (simp add: d3_def n4_def minus_mult_div_eq_mod)
  then have d3: "0 \<le> d3" "d3 \<le> 1460" by simp_all
  have d3': "d3 < 1460" if "n4 = 24" "n100 < 3"
    using d2(3) that unfolding d3_def by simp
  have n1: "0 \<le> n1" "n1 \<le> 3" and yd: "0 \<le> d3 - 365 * n1" "d3 - 365 * n1 \<le> 365"
    "d3 - 365 * n1 = 365 \<Longrightarrow> n1 = 3 \<and> d3 = 1460"
    using capped_quotient [OF d3(1) _ _ n1_def] d3(2) by simp_all
  from assms have y: "y = 400 * n400 + 100 * n100 + 4 * n4 + n1 + 1" and yd_eq: "yd = d3 - 365 * n1"
    unfolding year_yday_def Let_def n400_def [symmetric] d1_def [symmetric] n100_def [symmetric]
      d2_def [symmetric] n4_def [symmetric] d3_def [symmetric] n1_def [symmetric]
    by simp_all
  have q4: "(y - 1) div 4 = 100 * n400 + 25 * n100 + n4"
    using y n1 by (intro int_div_pos_eq [where r = n1]) auto
  have q100: "(y - 1) div 100 = 4 * n400 + n100"
    using y n4 n1 by (intro int_div_pos_eq [where r = "4 * n4 + n1"]) auto
  have q400: "(y - 1) div 400 = n400"
    using y n100 n4 n1 by (intro int_div_pos_eq [where r = "100 * n100 + 4 * n4 + n1"]) auto
  note q = q4 q100 q400
  show "365 * (y - 1) + (y - 1) div 4 - (y - 1) div 100 + (y - 1) div 400 + yd = d"
    unfolding q yd_eq using y d d2_def d3_def by simp
  show "0 \<le> yd" using yd yd_eq by simp
  show "yd < 365 + (if is_leap y then 1 else 0)"
  proof (cases "yd = 365")
    case True
    then have n1: "n1 = 3" and "d3 = 1460" using yd yd_eq by auto
    then have "n4 < 24 \<or> n100 = 3" using d3' n4 n100 by force
    moreover have "y mod 4 = 0"
      using y n1 by (intro int_mod_pos_eq [where q = "100 * n400 + 25 * n100 + n4 + 1"]) auto
    moreover have "y mod 100 = 4 * n4 + 4" if "n4 < 24"
      using y n1 n4 that by (intro int_mod_pos_eq [where q = "4 * n400 + n100"]) auto
    moreover have "y mod 400 = 0" if "n4 = 24" "n100 = 3"
      using y n1 that by (intro int_mod_pos_eq [where q = "n400 + 1"]) auto
    ultimately have "is_leap y"
      unfolding is_leap_def using n4 by (cases "n4 = 24") auto
    with True show ?thesis by simp
  next
    case False
    with yd yd_eq show ?thesis by auto
  qed
qed

text \<open>No day is lost or moved: the date of a day names that day.\<close>

lemma days_of_civil_civil:
  assumes "civil d = (y, m, md)"
  shows "days_of_civil y m md = d" and "1 \<le> m" "m \<le> 12" "1 \<le> md" "md \<le> 31"
proof -
  obtain yd where yd: "year_yday (d + 719162) = (y, yd)" and mm: "month_day (is_leap y) yd = (m, md)"
    using assms by (auto simp: civil_def Let_def split: prod.splits)
  note y = year_yday_ok [OF yd] and mo = month_day_ok [OF year_yday_ok(2,3) [OF yd] mm]
  show "days_of_civil y m md = d"
    unfolding days_of_civil_def Let_def using y(1) mo by linarith
  show "1 \<le> m" "m \<le> 12" "1 \<le> md" "md \<le> 31" using mo by auto
qed

lemma civil_inject: "civil d = civil d' \<longleftrightarrow> d = d'"
  by (metis days_of_civil_civil(1) prod_cases3)

section \<open>Layouts\<close>

text \<open>\<open>appendInt(b, x, width)\<close> of Go's \<open>time\<close> package.\<close>

definition pad_zeros :: "nat \<Rightarrow> string \<Rightarrow> string" where
  "pad_zeros w s = replicate (w - length s) (CHR ''0'') @ s"

definition append_int :: "int \<Rightarrow> nat \<Rightarrow> string" where
  "append_int x w = (if x < 0 then CHR ''-'' # pad_zeros w (itoa (- x)) else pad_zeros w (itoa x))"

text \<open>\<open>t.Format("2006-01-02")\<close>.\<close>

definition format_date :: "micros \<Rightarrow> string" where
  "format_date t =
     (let (y, m, d) = civil (day_of t)
      in append_int y 4 @ ''-'' @ append_int m 2 @ ''-'' @ append_int d 2)"

text \<open>The clock part of RFC 3339 with the trailing zeros of the fraction removed.\<close>

definition format_clock :: "int \<Rightarrow> string" where
  "format_clock r =
     (let sec = r div 1000000; us = r mod 1000000
      in append_int (sec div 3600) 2 @ '':'' @ append_int (sec div 60 mod 60) 2 @ '':'' @
         append_int (sec mod 60) 2 @
         (if us = 0 then []
          else ''.'' @ rev (dropWhile (\<lambda>c. c = CHR ''0'') (rev (append_int us 6)))))"

definition year_of :: "micros \<Rightarrow> int" where
  "year_of t = fst (civil (day_of t))"

text \<open>\<open>Time.MarshalJSON\<close> without its quotes: an error outside the years 0 to 9999.\<close>

definition rfc3339 :: "micros \<Rightarrow> goerr + string" where
  "rfc3339 t =
     (if 0 \<le> year_of t \<and> year_of t \<le> 9999
      then Inr (format_date t @ ''T'' @ format_clock (t mod micros_per_day) @ ''Z'')
      else Inl (ErrNew ''Time.MarshalJSON: year outside of range [0,9999]''))"

text \<open>Reading a formatted date back: the specification side of the layout.\<close>

definition parse_date :: "string \<Rightarrow> int" where
  "parse_date s =
     days_of_civil (fst (atoi (take 4 s))) (fst (atoi (take 2 (drop 5 s)))) (fst (atoi (drop 8 s)))"

lemma parse_uint_loop_zeros:
  "parse_uint_loop 0 (replicate k (CHR ''0'') @ s) = parse_uint_loop 0 s"
  by (induction k) (simp_all add: is_digit_def digit_val_def)

lemma length_pad_zeros: "length s \<le> w \<Longrightarrow> length (pad_zeros w s) = w"
  by (simp add: pad_zeros_def)

lemma itoa_length_pow:
  assumes "0 \<le> i" and "i < 10 ^ k" and "0 < k"
  shows "length (itoa i) \<le> k"
  using assms itoa_loop_length [of i k] by (cases "i = 0") (auto simp: itoa_pos itoa_def)

lemma length_append_int:
  "0 \<le> i \<Longrightarrow> i < 10 ^ w \<Longrightarrow> 0 < w \<Longrightarrow> length (append_int i w) = w"
  by (simp add: append_int_def length_pad_zeros itoa_length_pow)

text \<open>Zeros in front of a number change neither its value nor that it starts with a digit.\<close>

lemma atoi_zeros:
  assumes "s \<noteq> []" and "is_digit (hd s)" and "parse_uint s = (n, None)" and "n < 2 ^ 63"
  shows "atoi (replicate k (CHR ''0'') @ s) = (n, None)"
proof (rule atoi_unsigned)
  show "replicate k (CHR ''0'') @ s \<noteq> []" using assms by simp
  show "is_digit (hd (replicate k (CHR ''0'') @ s))"
    using assms by (cases k) (simp_all add: is_digit_def digit_val_def)
  show "parse_uint (replicate k (CHR ''0'') @ s) = (n, None)"
    using assms by (simp add: parse_uint_def parse_uint_loop_zeros)
qed (rule assms(4))

lemma atoi_append_int:
  assumes "0 \<le> i" and "i < 2 ^ 63"
  shows "atoi (append_int i w) = (i, None)"
proof (cases "i = 0")
  case True
  have "is_digit (CHR ''0'')" and "parse_uint ''0'' = (0, None)" by code_simp+
  with True show ?thesis
    by (simp add: append_int_def pad_zeros_def itoa_def atoi_zeros)
next
  case False
  with assms have "0 < i" by simp
  with assms show ?thesis
    by (auto simp: append_int_def pad_zeros_def itoa_pos
        intro!: atoi_zeros itoa_loop_pos hd_itoa_loop parse_uint_itoa)
qed

text \<open>The date string names the day, for the four-digit years.\<close>

lemma parse_date_format_date:
  assumes "0 \<le> year_of t" and "year_of t \<le> 9999"
  shows "parse_date (format_date t) = day_of t"
proof -
  obtain y m d where c: "civil (day_of t) = (y, m, d)" by (metis prod_cases3)
  with assms have y: "0 \<le> y" "y \<le> 9999" by (simp_all add: year_of_def)
  note md = days_of_civil_civil [OF c]
  let ?y = "append_int y 4" and ?m = "append_int m 2" and ?d = "append_int d 2"
  have len: "length ?y = 4" "length ?m = 2"
    using y md by (auto intro!: length_append_int)
  have f: "format_date t = ?y @ ''-'' @ ?m @ ''-'' @ ?d"
    by (simp add: format_date_def c)
  have "take 4 (format_date t) = ?y" "take 2 (drop 5 (format_date t)) = ?m" "drop 8 (format_date t) = ?d"
    using len by (simp_all add: f)
  moreover have "atoi ?y = (y, None)" "atoi ?m = (m, None)" "atoi ?d = (d, None)"
    using y md by (auto intro!: atoi_append_int)
  ultimately show ?thesis
    by (simp add: parse_date_def md(1))
qed

lemma length_format_date:
  assumes "0 \<le> year_of t" and "year_of t \<le> 9999"
  shows "length (format_date t) = 10"
proof -
  obtain y m d where c: "civil (day_of t) = (y, m, d)" by (metis prod_cases3)
  with assms days_of_civil_civil [OF c] show ?thesis
    by (simp add: format_date_def c year_of_def length_append_int)
qed

end
