(* ===== verification/GoEncoding.thy ===== *)
theory GoEncoding
  imports Prelude
begin

text \<open>
  Go's \<open>encoding/base64\<close> and \<open>encoding/hex\<close> as the program uses them: \<open>StdEncoding\<close> for keys
  and ciphertexts (\<open>internal/crypto/aes.go\<close>), \<open>RawURLEncoding\<close> for generated API keys and hex
  for key hashes (\<open>internal/setup/setup.go\<close>). The decoder is the library's: it skips carriage
  returns and newlines, insists on padding at the end of the input, and does not check the
  unused bits of the last group. Each codec interprets the locale \<open>codec\<close>.
\<close>

section \<open>Alphabets\<close>

definition b64_common :: string where
  "b64_common = ''ABCDEFGHIJKLMNOPQRSTUVWXYZabcdefghijklmnopqrstuvwxyz0123456789''"

definition b64_std :: string where
  "b64_std = b64_common @ ''+/''"

definition b64_url :: string where
  "b64_url = b64_common @ ''-_''"

definition hex_digits :: string where
  "hex_digits = ''0123456789abcdef''"

fun index_of :: "'a \<Rightarrow> 'a list \<Rightarrow> nat option" where
  "index_of x [] = None"
| "index_of x (y # ys) = (if x = y then Some 0 else map_option Suc (index_of x ys))"

lemma index_of_nth: "distinct xs \<Longrightarrow> i < length xs \<Longrightarrow> index_of (xs ! i) xs = Some i"
proof (induction xs arbitrary: i)
  case Nil
  then show ?case by simp
next
  case (Cons x xs)
  then show ?case by (cases i) auto
qed

lemma index_of_less: "index_of x xs = Some i \<Longrightarrow> i < length xs"
  by (induction xs arbitrary: i) (auto split: if_splits)

lemma index_of_None: "x \<notin> set xs \<Longrightarrow> index_of x xs = None"
  by (induction xs) auto

lemma b64_std_ok: "distinct b64_std" "length b64_std = 64" "CHR ''='' \<notin> set b64_std"
  "CHR 0x0A \<notin> set b64_std" "CHR 0x0D \<notin> set b64_std"
  by (simp_all add: b64_std_def b64_common_def)

lemma b64_url_ok: "distinct b64_url" "length b64_url = 64"
  by (simp_all add: b64_url_def b64_common_def)

lemma hex_digits_ok: "distinct hex_digits" "length hex_digits = 16"
  by (simp_all add: hex_digits_def)

section \<open>Groups of six bits\<close>

text \<open>Three bytes as four sextets, and back.\<close>

definition sext0 :: "byte \<Rightarrow> nat" where
  "sext0 a = unat a div 4"

definition sext1 :: "byte \<Rightarrow> byte \<Rightarrow> nat" where
  "sext1 a b = unat a mod 4 * 16 + unat b div 16"

definition sext2 :: "byte \<Rightarrow> byte \<Rightarrow> nat" where
  "sext2 b c = unat b mod 16 * 4 + unat c div 64"

definition sext3 :: "byte \<Rightarrow> nat" where
  "sext3 c = unat c mod 64"

definition oct0 :: "nat \<Rightarrow> nat \<Rightarrow> byte" where
  "oct0 s t = word_of_nat (s * 4 + t div 16)"

definition oct1 :: "nat \<Rightarrow> nat \<Rightarrow> byte" where
  "oct1 t u = word_of_nat (t mod 16 * 16 + u div 4)"

definition oct2 :: "nat \<Rightarrow> nat \<Rightarrow> byte" where
  "oct2 u v = word_of_nat (u mod 4 * 64 + v)"

lemma unat_byte_less [simp]: "unat (b :: byte) < 256"
  by (rule order_less_le_trans [OF unsigned_less]) simp

lemma unat_byte_div [simp]: "unat (b :: byte) div 4 < 64" "unat b div 16 < 16" "unat b div 64 < 4"
  using unat_byte_less [of b] by linarith+

lemma sext_less [simp]: "sext0 a < 64" "sext1 a b < 64" "sext2 b c < 64" "sext3 c < 64"
proof -
  show "sext0 a < 64" by (simp add: sext0_def)
  have "unat a mod 4 \<le> 3" "unat b div 16 \<le> 15" using unat_byte_div(2) [of b] by linarith+
  then show "sext1 a b < 64" unfolding sext1_def by linarith
  have "unat b mod 16 \<le> 15" "unat c div 64 \<le> 3" using unat_byte_div(3) [of c] by linarith+
  then show "sext2 b c < 64" unfolding sext2_def by linarith
  show "sext3 c < 64" by (simp add: sext3_def)
qed

lemma pack_split: "r < k \<Longrightarrow> (q * k + r) div k = (q :: nat)" "r < k \<Longrightarrow> (q * k + r) mod k = (r :: nat)"
  by (auto simp: div_eq_0_iff)

lemma oct_sext [simp]:
  "oct0 (sext0 a) (sext1 a b) = a"
  "oct1 (sext1 a b) (sext2 b c) = b"
  "oct2 (sext2 b c) (sext3 c) = c"
proof -
  have "sext1 a b div 16 = unat a mod 4" "sext1 a b mod 16 = unat b div 16"
    "sext2 b c div 4 = unat b mod 16" "sext2 b c mod 4 = unat c div 64"
    unfolding sext1_def sext2_def by (simp_all add: pack_split)
  moreover have "unat a div 4 * 4 + unat a mod 4 = unat a" "unat b div 16 * 16 + unat b mod 16 = unat b"
    "unat c div 64 * 64 + unat c mod 64 = unat c"
    by (simp_all only: div_mult_mod_eq)
  ultimately show "oct0 (sext0 a) (sext1 a b) = a" "oct1 (sext1 a b) (sext2 b c) = b"
    "oct2 (sext2 b c) (sext3 c) = c"
    unfolding oct0_def oct1_def oct2_def sext0_def sext3_def by simp_all
qed

section \<open>base64\<close>

fun b64_enc :: "string \<Rightarrow> bool \<Rightarrow> bytes \<Rightarrow> string" where
  "b64_enc al pad [] = []"
| "b64_enc al pad [a] =
     [al ! sext0 a, al ! sext1 a 0] @ (if pad then ''=='' else [])"
| "b64_enc al pad [a, b] =
     [al ! sext0 a, al ! sext1 a b, al ! sext2 b 0] @ (if pad then ''='' else [])"
| "b64_enc al pad (a # b # c # r) =
     [al ! sext0 a, al ! sext1 a b, al ! sext2 b c, al ! sext3 c] @ b64_enc al pad r"

definition base64_std_encode :: "bytes \<Rightarrow> string" where
  "base64_std_encode b = b64_enc b64_std True b"

definition base64_rawurl_encode :: "bytes \<Rightarrow> string" where
  "base64_rawurl_encode b = b64_enc b64_url False b"

abbreviation corrupt_input :: goerr where
  "corrupt_input \<equiv> ErrNew ''illegal base64 data''"

text \<open>The padded decoder, on an input whose line breaks are gone.\<close>

fun b64_dec :: "string \<Rightarrow> string \<Rightarrow> goerr + bytes" where
  "b64_dec al [] = Inr []"
| "b64_dec al (p # q # r # s # rest) =
     (case (index_of p al, index_of q al) of
        (Some i, Some j) \<Rightarrow>
          if r = CHR ''='' then
            (if s = CHR ''='' \<and> rest = [] then Inr [oct0 i j] else Inl corrupt_input)
          else (case index_of r al of
              None \<Rightarrow> Inl corrupt_input
            | Some k \<Rightarrow>
                if s = CHR ''='' then
                  (if rest = [] then Inr [oct0 i j, oct1 j k] else Inl corrupt_input)
                else (case index_of s al of
                    None \<Rightarrow> Inl corrupt_input
                  | Some l \<Rightarrow> map_sum id ((@) [oct0 i j, oct1 j k, oct2 k l]) (b64_dec al rest)))
      | _ \<Rightarrow> Inl corrupt_input)"
| "b64_dec al _ = Inl corrupt_input"

definition base64_std_decode :: "string \<Rightarrow> goerr + bytes" where
  "base64_std_decode s = b64_dec b64_std (filter (\<lambda>c. c \<noteq> CHR 0x0D \<and> c \<noteq> CHR 0x0A) s)"

lemma std_index [simp]: "i < 64 \<Longrightarrow> index_of (b64_std ! i) b64_std = Some i"
  using b64_std_ok by (simp add: index_of_nth)

lemma std_nth_set: "i < 64 \<Longrightarrow> b64_std ! i \<in> set b64_std"
  using b64_std_ok(2) by (metis nth_mem)

lemma std_not_pad [simp]: "i < 64 \<Longrightarrow> b64_std ! i \<noteq> CHR ''=''"
  using std_nth_set b64_std_ok(3) by metis

lemma std_clean: "i < 64 \<Longrightarrow> b64_std ! i \<noteq> CHR 0x0D \<and> b64_std ! i \<noteq> CHR 0x0A"
  using std_nth_set b64_std_ok(4,5) by metis

lemma b64_dec_enc: "b64_dec b64_std (b64_enc b64_std True b) = Inr b"
  by (induction b64_std True b rule: b64_enc.induct) simp_all

lemma b64_enc_clean:
  "al = b64_std \<Longrightarrow> c \<in> set (b64_enc al pad b) \<Longrightarrow> c \<noteq> CHR 0x0D \<and> c \<noteq> CHR 0x0A"
  by (induction al pad b rule: b64_enc.induct) (auto simp: std_clean split: if_splits)

lemma base64_std_encode_clean: "c \<in> set (base64_std_encode b) \<Longrightarrow> c \<noteq> CHR 0x0D \<and> c \<noteq> CHR 0x0A"
  by (simp add: base64_std_encode_def b64_enc_clean)

lemma base64_std_decode_encode: "base64_std_decode (base64_std_encode b) = Inr b"
proof -
  have "filter (\<lambda>c. c \<noteq> CHR 0x0D \<and> c \<noteq> CHR 0x0A) (base64_std_encode b) = base64_std_encode b"
    by (rule filter_True) (simp add: base64_std_encode_clean)
  then show ?thesis
    by (simp add: base64_std_decode_def) (simp add: base64_std_encode_def b64_dec_enc)
qed

interpretation base64_std: codec base64_std_encode base64_std_decode "\<lambda>_. True"
  by unfold_locales (rule base64_std_decode_encode)

text \<open>Lengths: four characters for every three bytes begun, and no padding in the raw form.\<close>

lemma div3_step: "(n + 3) div 3 = n div 3 + (1 :: nat)"
  by simp

lemma length_b64_enc_pad: "length (b64_enc al True b) = (length b + 2) div 3 * 4"
proof (induction al True b rule: b64_enc.induct)
  case (4 al a b c r)
  have "length (a # b # c # r) + 2 = (length r + 2) + 3" by simp
  then show ?case
    using 4 by (simp only: b64_enc.simps length_append div3_step) simp
qed simp_all

lemma length_b64_enc_raw: "length (b64_enc al False b) = (length b * 4 + 2) div 3"
proof (induction al False b rule: b64_enc.induct)
  case (4 al a b c r)
  have "length (a # b # c # r) * 4 + 2 = (length r * 4 + 2) + 4 * 3" by simp
  then have "(length (a # b # c # r) * 4 + 2) div 3 = (length r * 4 + 2) div 3 + 4"
    by (simp only: div_mult_self1 [of 3 _ 4])
  with 4 show ?case
    by (simp only: b64_enc.simps length_append) simp
qed simp_all

lemma length_base64_std: "length (base64_std_encode b) = (length b + 2) div 3 * 4"
  by (simp add: base64_std_encode_def length_b64_enc_pad)

lemma length_base64_rawurl: "length (base64_rawurl_encode b) = (length b * 4 + 2) div 3"
  by (simp add: base64_rawurl_encode_def length_b64_enc_raw)

text \<open>The raw URL encoding of distinct byte strings of one length differs.\<close>

lemma url_nth_inject [simp]: "i < 64 \<Longrightarrow> j < 64 \<Longrightarrow> b64_url ! i = b64_url ! j \<longleftrightarrow> i = j"
  using b64_url_ok by (simp add: nth_eq_iff_index_eq)

lemma sext_inject:
  "sext0 a = sext0 a' \<Longrightarrow> sext1 a b = sext1 a' b' \<Longrightarrow> a = a'"
  "sext1 a b = sext1 a' b' \<Longrightarrow> sext2 b c = sext2 b' c' \<Longrightarrow> b = b'"
  "sext2 b c = sext2 b' c' \<Longrightarrow> sext3 c = sext3 c' \<Longrightarrow> c = c'"
  by (metis oct_sext(1), metis oct_sext(2), metis oct_sext(3))

lemma b64_enc_raw_inject:
  "length b = length b' \<Longrightarrow> b64_enc b64_url False b = b64_enc b64_url False b' \<Longrightarrow> b = b'"
proof (induction b64_url False b arbitrary: b' rule: b64_enc.induct)
  case 1
  then show ?case by simp
next
  case (2 a)
  then obtain a' where b': "b' = [a']" by (cases b') auto
  with 2 have "sext0 a = sext0 a'" "sext1 a 0 = sext1 a' 0" by simp_all
  with b' show ?case using sext_inject(1) by blast
next
  case (3 a b)
  then obtain a' c' where b': "b' = [a', c']" by (cases b'; cases "tl b'") auto
  with 3 have "sext0 a = sext0 a'" "sext1 a b = sext1 a' c'" "sext2 b 0 = sext2 c' 0" by simp_all
  with b' show ?case using sext_inject(1,2) by blast
next
  case (4 a b c r)
  then obtain a' c' d' r' where b': "b' = a' # c' # d' # r'"
    by (cases b'; cases "tl b'"; cases "tl (tl b')") auto
  with 4(2,3) have "sext0 a = sext0 a'" "sext1 a b = sext1 a' c'" "sext2 b c = sext2 c' d'" "sext3 c = sext3 d'"
    and "length r = length r'" "b64_enc b64_url False r = b64_enc b64_url False r'" by simp_all
  moreover from this have "r = r'" by (intro 4(1))
  ultimately show ?case using b' sext_inject by blast
qed

lemma base64_rawurl_inject:
  "length b = length b' \<Longrightarrow> base64_rawurl_encode b = base64_rawurl_encode b' \<Longrightarrow> b = b'"
  by (simp add: base64_rawurl_encode_def b64_enc_raw_inject)

section \<open>hex\<close>

definition hex_encode :: "bytes \<Rightarrow> string" where
  "hex_encode b = concat (map (\<lambda>x. [hex_digits ! (unat x div 16), hex_digits ! (unat x mod 16)]) b)"

fun hex_decode :: "string \<Rightarrow> goerr + bytes" where
  "hex_decode [] = Inr []"
| "hex_decode (p # q # r) =
     (case (index_of p hex_digits, index_of q hex_digits) of
        (Some i, Some j) \<Rightarrow> map_sum id ((#) (word_of_nat (i * 16 + j))) (hex_decode r)
      | _ \<Rightarrow> Inl (ErrNew ''encoding/hex: invalid byte''))"
| "hex_decode [_] = Inl (ErrNew ''encoding/hex: odd length hex string'')"

lemma hex_index [simp]: "i < 16 \<Longrightarrow> index_of (hex_digits ! i) hex_digits = Some i"
  using hex_digits_ok by (simp add: index_of_nth)

lemma hex_decode_encode: "hex_decode (hex_encode b) = Inr b"
  by (induction b) (simp_all add: hex_encode_def div_mult_mod_eq)

lemma length_hex_encode [simp]: "length (hex_encode b) = 2 * length b"
  by (induction b) (simp_all add: hex_encode_def)

interpretation hex: codec hex_encode hex_decode "\<lambda>_. True"
  by unfold_locales (rule hex_decode_encode)

end
