(* ===== verification/GoSha256.thy ===== *)
theory GoSha256
  imports Prelude
begin

unbundle bit_operations_syntax

text \<open>
  \<open>sha256.Sum256\<close> of Go's standard library: the hash that \<open>HashAPIKey\<close>
  (\<open>internal/setup/setup.go\<close>) and the middleware \<open>APIKeyAuth\<close> (\<open>internal/api/middleware.go\<close>)
  apply to an API key. The message is padded to blocks of 64 bytes, each block is expanded
  to 64 words and folded into eight 32-bit chaining words. The definitions are executable.

\<close>

type_synonym w32 = "32 word"
type_synonym sha_state = "w32 \<times> w32 \<times> w32 \<times> w32 \<times> w32 \<times> w32 \<times> w32 \<times> w32"

section \<open>Constants\<close>

text \<open>The fractional parts of the cube roots of the first 64 primes.\<close>

definition sha_k :: "w32 list" where
  "sha_k = [
    1116352408, 1899447441, 3049323471, 3921009573, 961987163, 1508970993,
    2453635748, 2870763221, 3624381080, 310598401, 607225278, 1426881987,
    1925078388, 2162078206, 2614888103, 3248222580, 3835390401, 4022224774,
    264347078, 604807628, 770255983, 1249150122, 1555081692, 1996064986,
    2554220882, 2821834349, 2952996808, 3210313671, 3336571891, 3584528711,
    113926993, 338241895, 666307205, 773529912, 1294757372, 1396182291,
    1695183700, 1986661051, 2177026350, 2456956037, 2730485921, 2820302411,
    3259730800, 3345764771, 3516065817, 3600352804, 4094571909, 275423344,
    430227734, 506948616, 659060556, 883997877, 958139571, 1322822218,
    1537002063, 1747873779, 1955562222, 2024104815, 2227730452, 2361852424,
    2428436474, 2756734187, 3204031479, 3329325298]"

text \<open>The fractional parts of the square roots of the first 8 primes.\<close>

definition sha_init :: sha_state where
  "sha_init = (1779033703, 3144134277, 1013904242, 2773480762,
    1359893119, 2600822924, 528734635, 1541459225)"

section \<open>Words and blocks\<close>

definition be_word :: "bytes \<Rightarrow> w32" where
  "be_word bs = foldl (\<lambda>a b. push_bit 8 a OR ucast b) 0 bs"

definition word_bytes :: "w32 \<Rightarrow> bytes" where
  "word_bytes w = map (\<lambda>k. ucast (drop_bit k w)) [24, 16, 8, 0]"

definition length_bytes :: "nat \<Rightarrow> bytes" where
  "length_bytes n = map (\<lambda>k. ucast (drop_bit k (word_of_nat n :: 64 word))) [56, 48, 40, 32, 24, 16, 8, 0]"

fun chunks :: "nat \<Rightarrow> 'a list \<Rightarrow> 'a list list" where
  "chunks k xs = (if k = 0 \<or> xs = [] then [] else take k xs # chunks k (drop k xs))"

declare chunks.simps [simp del]

definition sha_pad :: "bytes \<Rightarrow> bytes" where
  "sha_pad m =
     (let n = length m; z = (64 - (n + 9) mod 64) mod 64
      in m @ [128] @ replicate z 0 @ length_bytes (8 * n))"

section \<open>The compression function\<close>

definition sha_ssig0 :: "w32 \<Rightarrow> w32" where
  "sha_ssig0 x = word_rotr 7 x XOR word_rotr 18 x XOR drop_bit 3 x"

definition sha_ssig1 :: "w32 \<Rightarrow> w32" where
  "sha_ssig1 x = word_rotr 17 x XOR word_rotr 19 x XOR drop_bit 10 x"

text \<open>The schedule grows at the head of the list: the newest word comes first.\<close>

fun sha_expand :: "nat \<Rightarrow> w32 list \<Rightarrow> w32 list" where
  "sha_expand 0 ws = ws"
| "sha_expand (Suc n) ws =
     sha_expand n ((sha_ssig1 (ws ! 1) + ws ! 6 + sha_ssig0 (ws ! 14) + ws ! 15) # ws)"

definition sha_schedule :: "bytes \<Rightarrow> w32 list" where
  "sha_schedule block = rev (sha_expand 48 (rev (map be_word (chunks 4 block))))"

text \<open>The two sums of a round, and the shift of the eight working words.\<close>

definition sha_t1 :: "w32 \<Rightarrow> w32 \<Rightarrow> w32 \<Rightarrow> w32 \<Rightarrow> w32 \<Rightarrow> w32 \<Rightarrow> w32" where
  "sha_t1 k w e f g h =
     h + (word_rotr 6 e XOR word_rotr 11 e XOR word_rotr 25 e) + ((e AND f) XOR (NOT e AND g)) + k + w"

definition sha_t2 :: "w32 \<Rightarrow> w32 \<Rightarrow> w32 \<Rightarrow> w32" where
  "sha_t2 a b c =
     (word_rotr 2 a XOR word_rotr 13 a XOR word_rotr 22 a) + ((a AND b) XOR (a AND c) XOR (b AND c))"

fun sha_shift :: "w32 \<Rightarrow> w32 \<Rightarrow> sha_state \<Rightarrow> sha_state" where
  "sha_shift t1 t2 (a, b, c, d, e, f, g, h) = (t1 + t2, a, b, c, d + t1, e, f, g)"

fun sha_round :: "w32 \<times> w32 \<Rightarrow> sha_state \<Rightarrow> sha_state" where
  "sha_round (k, w) (a, b, c, d, e, f, g, h) =
     sha_shift (sha_t1 k w e f g h) (sha_t2 a b c) (a, b, c, d, e, f, g, h)"

fun sha_add :: "sha_state \<Rightarrow> sha_state \<Rightarrow> sha_state" where
  "sha_add (a, b, c, d, e, f, g, h) (a', b', c', d', e', f', g', h') =
     (a + a', b + b', c + c', d + d', e + e', f + f', g + g', h + h')"

definition sha_block :: "bytes \<Rightarrow> sha_state \<Rightarrow> sha_state" where
  "sha_block block st = sha_add st (fold sha_round (zip sha_k (sha_schedule block)) st)"

fun sha_output :: "sha_state \<Rightarrow> bytes" where
  "sha_output (a, b, c, d, e, f, g, h) = concat (map word_bytes [a, b, c, d, e, f, g, h])"

definition sha256 :: "bytes \<Rightarrow> bytes" where
  "sha256 m = sha_output (fold sha_block (chunks 64 (sha_pad m)) sha_init)"

section \<open>Facts\<close>

lemma length_word_bytes [simp]: "length (word_bytes w) = 4"
  by (simp add: word_bytes_def)

lemma length_sha_output [simp]: "length (sha_output st) = 32"
  by (cases st rule: sha_output.cases) simp

lemma length_sha256 [simp]: "length (sha256 m) = 32"
  by (simp add: sha256_def)

text \<open>The padded message consists of whole blocks, and starts with the message.\<close>

lemma length_sha_pad: "length (sha_pad m) mod 64 = 0"
proof -
  have "(k + (64 - k mod 64) mod 64) mod 64 = 0" for k :: nat
  proof -
    have "(k + (64 - k mod 64) mod 64) mod 64 = (k mod 64 + (64 - k mod 64)) mod 64"
      by (metis mod_add_left_eq mod_add_right_eq)
    also have "k mod 64 + (64 - k mod 64) = 64"
      by (simp add: mod_less_divisor less_imp_le_nat)
    finally show ?thesis by simp
  qed
  from this [of "length m + 9"] show ?thesis
    by (simp add: sha_pad_def Let_def length_bytes_def ac_simps)
qed

lemma sha_pad_prefix: "take (length m) (sha_pad m) = m"
  by (simp add: sha_pad_def Let_def)



end
