(* ===== verification/GoGcm.thy ===== *)
theory GoGcm
  imports Prelude
begin

unbundle bit_operations_syntax

text \<open>
  AES-256 in Galois/Counter mode, as \<open>crypto/aes\<close> and \<open>crypto/cipher\<close> compute it for
  \<open>internal/crypto/aes.go\<close>: the block cipher on 16 bytes stored column by column, the
  counter-mode key stream from a 12-byte nonce, the GHASH authenticator, and the two
  operations \<open>Seal\<close> and \<open>Open\<close> with no additional data. \<open>Seal\<close> appends a 16-byte tag; \<open>Open\<close>
  recomputes it and refuses a body whose tag differs. (\<open>Seal\<close> panics on a message over 64
  GiB; the passwords sealed here are far below that, and the bound is not modelled.)

  The locale \<open>aead\<close> is the contract \<open>internal/crypto\<close> relies on; its interpretation below
  is on these definitions.
\<close>

section \<open>The block cipher\<close>

definition aes_sbox :: "byte list" where
  "aes_sbox = [
    99, 124, 119, 123, 242, 107, 111, 197, 48, 1, 103, 43, 254, 215, 171, 118,
    202, 130, 201, 125, 250, 89, 71, 240, 173, 212, 162, 175, 156, 164, 114, 192,
    183, 253, 147, 38, 54, 63, 247, 204, 52, 165, 229, 241, 113, 216, 49, 21,
    4, 199, 35, 195, 24, 150, 5, 154, 7, 18, 128, 226, 235, 39, 178, 117,
    9, 131, 44, 26, 27, 110, 90, 160, 82, 59, 214, 179, 41, 227, 47, 132,
    83, 209, 0, 237, 32, 252, 177, 91, 106, 203, 190, 57, 74, 76, 88, 207,
    208, 239, 170, 251, 67, 77, 51, 133, 69, 249, 2, 127, 80, 60, 159, 168,
    81, 163, 64, 143, 146, 157, 56, 245, 188, 182, 218, 33, 16, 255, 243, 210,
    205, 12, 19, 236, 95, 151, 68, 23, 196, 167, 126, 61, 100, 93, 25, 115,
    96, 129, 79, 220, 34, 42, 144, 136, 70, 238, 184, 20, 222, 94, 11, 219,
    224, 50, 58, 10, 73, 6, 36, 92, 194, 211, 172, 98, 145, 149, 228, 121,
    231, 200, 55, 109, 141, 213, 78, 169, 108, 86, 244, 234, 101, 122, 174, 8,
    186, 120, 37, 46, 28, 166, 180, 198, 232, 221, 116, 31, 75, 189, 139, 138,
    112, 62, 181, 102, 72, 3, 246, 14, 97, 53, 87, 185, 134, 193, 29, 158,
    225, 248, 152, 17, 105, 217, 142, 148, 155, 30, 135, 233, 206, 85, 40, 223,
    140, 161, 137, 13, 191, 230, 66, 104, 65, 153, 45, 15, 176, 84, 187, 22]"

definition sub_byte :: "byte \<Rightarrow> byte" where
  "sub_byte b = aes_sbox ! unat b"

definition xtime :: "byte \<Rightarrow> byte" where
  "xtime b = (if bit b 7 then push_bit 1 b XOR 27 else push_bit 1 b)"

text \<open>Key expansion: words of four bytes; \<open>ws\<close> holds the words so far, newest first.\<close>

definition sub_word :: "bytes \<Rightarrow> bytes" where
  "sub_word w = map sub_byte w"

definition rot_word :: "bytes \<Rightarrow> bytes" where
  "rot_word w = tl w @ [hd w]"

definition xor_bytes :: "bytes \<Rightarrow> bytes \<Rightarrow> bytes" where
  "xor_bytes a b = map2 (XOR) a b"

definition expand_word :: "nat \<Rightarrow> byte \<Rightarrow> bytes \<Rightarrow> bytes" where
  "expand_word i rcon w =
     (if i mod 8 = 0 then xor_bytes (sub_word (rot_word w)) [rcon, 0, 0, 0]
      else if i mod 8 = 4 then sub_word w
      else w)"

fun expand_key :: "nat \<Rightarrow> nat \<Rightarrow> byte \<Rightarrow> bytes list \<Rightarrow> bytes list" where
  "expand_key 0 i rcon ws = ws"
| "expand_key (Suc n) i rcon ws =
     expand_key n (Suc i) (if i mod 8 = 0 then xtime rcon else rcon)
       (xor_bytes (ws ! 7) (expand_word i rcon (hd ws)) # ws)"

fun split4 :: "bytes \<Rightarrow> bytes list" where
  "split4 (a # b # c # d # r) = [a, b, c, d] # split4 r"
| "split4 _ = []"

fun round_keys :: "bytes list \<Rightarrow> bytes list" where
  "round_keys (a # b # c # d # r) = (a @ b @ c @ d) # round_keys r"
| "round_keys _ = []"

definition aes256_schedule :: "bytes \<Rightarrow> bytes list" where
  "aes256_schedule key = round_keys (rev (expand_key 52 8 1 (rev (split4 key))))"

text \<open>The round functions on the 16-byte state.\<close>

definition add_round_key :: "bytes \<Rightarrow> bytes \<Rightarrow> bytes" where
  "add_round_key rk st = map (\<lambda>i. st ! i XOR rk ! i) [0..<16]"

definition shift_rows :: "bytes \<Rightarrow> bytes" where
  "shift_rows st = map (\<lambda>i. st ! ((i + 4 * (i mod 4)) mod 16)) [0..<16]"

definition mix_byte :: "byte \<Rightarrow> byte \<Rightarrow> byte \<Rightarrow> byte \<Rightarrow> byte" where
  "mix_byte a b c d = xtime a XOR (xtime b XOR b) XOR c XOR d"

fun mix_columns :: "bytes \<Rightarrow> bytes" where
  "mix_columns (a # b # c # d # r) =
     [mix_byte a b c d, mix_byte b c d a, mix_byte c d a b, mix_byte d a b c] @ mix_columns r"
| "mix_columns _ = []"

definition aes_round :: "bytes \<Rightarrow> bytes \<Rightarrow> bytes" where
  "aes_round rk st = add_round_key rk (mix_columns (shift_rows (map sub_byte st)))"

definition aes_last_round :: "bytes \<Rightarrow> bytes \<Rightarrow> bytes" where
  "aes_last_round rk st = add_round_key rk (shift_rows (map sub_byte st))"

definition aes256_encrypt :: "bytes \<Rightarrow> bytes \<Rightarrow> bytes" where
  "aes256_encrypt key block =
     (let rks = aes256_schedule key
      in aes_last_round (last rks)
           (fold aes_round (butlast (tl rks)) (add_round_key (hd rks) block)))"

lemma length_aes256_encrypt [simp]: "length (aes256_encrypt key block) = 16"
  by (simp add: aes256_encrypt_def Let_def aes_last_round_def add_round_key_def)

section \<open>Counter mode\<close>

text \<open>The last four bytes of the counter block are a 32-bit counter, which wraps.\<close>

definition inc32 :: "bytes \<Rightarrow> bytes" where
  "inc32 blk =
     (let c = foldl (\<lambda>a b. push_bit 8 a OR ucast b) (0 :: 32 word) (drop 12 blk) + 1
      in take 12 blk @ map (\<lambda>k. ucast (drop_bit k c)) [24, 16, 8, 0])"

function ctr_crypt :: "(bytes \<Rightarrow> bytes) \<Rightarrow> bytes \<Rightarrow> bytes \<Rightarrow> bytes" where
  "ctr_crypt E ctr m =
     (if m = [] then []
      else xor_bytes (take 16 m) (E ctr) @ ctr_crypt E (inc32 ctr) (drop 16 m))"
  by pat_completeness auto
termination
  by (relation "measure (\<lambda>(E, ctr, m). length m)") auto

declare ctr_crypt.simps [simp del]

section \<open>GHASH\<close>

definition block_word :: "bytes \<Rightarrow> 128 word" where
  "block_word bs = foldl (\<lambda>a b. push_bit 8 a OR ucast b) 0 (bs @ replicate (16 - length bs) 0)"

definition block_bytes :: "128 word \<Rightarrow> bytes" where
  "block_bytes w = map (\<lambda>k. ucast (drop_bit (120 - 8 * k) w)) [0..<16]"

fun gf_mult_loop :: "nat \<Rightarrow> 128 word \<Rightarrow> 128 word \<Rightarrow> 128 word \<Rightarrow> 128 word" where
  "gf_mult_loop 0 x v z = z"
| "gf_mult_loop (Suc n) x v z =
     gf_mult_loop n x
       (if bit v 0 then drop_bit 1 v XOR push_bit 120 225 else drop_bit 1 v)
       (if bit x n then z XOR v else z)"

definition gf_mult :: "128 word \<Rightarrow> 128 word \<Rightarrow> 128 word" where
  "gf_mult x y = gf_mult_loop 128 x y 0"

function ghash :: "128 word \<Rightarrow> 128 word \<Rightarrow> bytes \<Rightarrow> 128 word" where
  "ghash h y m =
     (if m = [] then y else ghash h (gf_mult (y XOR block_word (take 16 m)) h) (drop 16 m))"
  by pat_completeness auto
termination
  by (relation "measure (\<lambda>(h, y, m). length m)") auto

declare ghash.simps [simp del]

definition gcm_tag :: "(bytes \<Rightarrow> bytes) \<Rightarrow> bytes \<Rightarrow> bytes \<Rightarrow> bytes" where
  "gcm_tag E nonce ct =
     (let h = block_word (E (replicate 16 0));
          s = gf_mult (ghash h 0 ct XOR word_of_nat (8 * length ct)) h
      in xor_bytes (block_bytes s) (E (nonce @ [0, 0, 0, 1])))"

section \<open>Seal and Open\<close>

definition gcm_crypt :: "(bytes \<Rightarrow> bytes) \<Rightarrow> bytes \<Rightarrow> bytes \<Rightarrow> bytes" where
  "gcm_crypt E nonce m = ctr_crypt E (inc32 (nonce @ [0, 0, 0, 1])) m"

definition gcm_seal :: "(bytes \<Rightarrow> bytes) \<Rightarrow> bytes \<Rightarrow> bytes \<Rightarrow> bytes" where
  "gcm_seal E nonce m = gcm_crypt E nonce m @ gcm_tag E nonce (gcm_crypt E nonce m)"

abbreviation err_open :: goerr where
  "err_open \<equiv> ErrNew ''cipher: message authentication failed''"

definition gcm_open :: "(bytes \<Rightarrow> bytes) \<Rightarrow> bytes \<Rightarrow> bytes \<Rightarrow> goerr + bytes" where
  "gcm_open E nonce body =
     (if length body < 16 then Inl err_open
      else
        let ct = take (length body - 16) body; tag = drop (length body - 16) body
        in if tag = gcm_tag E nonce ct then Inr (gcm_crypt E nonce ct) else Inl err_open)"

section \<open>What Open does with what Seal made\<close>

lemma length_xor_bytes [simp]: "length (xor_bytes a b) = min (length a) (length b)"
  by (simp add: xor_bytes_def)

lemma xor_bytes_involution: "length a \<le> length b \<Longrightarrow> xor_bytes (xor_bytes a b) b = a"
  by (induction a b rule: list_induct2') (auto simp: xor_bytes_def xor.assoc)

lemma length_ctr_crypt:
  "(\<And>c. length (E c) = 16) \<Longrightarrow> length (ctr_crypt E ctr m) = length m"
proof (induction E ctr m rule: ctr_crypt.induct)
  case (1 E ctr m)
  show ?case
  proof (cases "m = []")
    case True
    then show ?thesis by (simp add: ctr_crypt.simps)
  next
    case False
    with 1 show ?thesis by (simp add: ctr_crypt.simps [of E ctr m])
  qed
qed

lemma ctr_crypt_involution:
  assumes "\<And>c. length (E c) = 16"
  shows "ctr_crypt E ctr (ctr_crypt E ctr m) = m"
  using assms
proof (induction E ctr m rule: ctr_crypt.induct)
  case (1 E ctr m)
  show ?case
  proof (cases "m = []")
    case True
    then show ?thesis by (simp add: ctr_crypt.simps)
  next
    case False
    let ?x = "xor_bytes (take 16 m) (E ctr)" and ?rest = "ctr_crypt E (inc32 ctr) (drop 16 m)"
    have c: "ctr_crypt E ctr m = ?x @ ?rest"
      using False by (simp add: ctr_crypt.simps [of E ctr m])
    have len: "length ?x = min (length m) 16" using 1 by simp
    have split: "take 16 (?x @ ?rest) = ?x \<and> drop 16 (?x @ ?rest) = ?rest"
    proof (cases "length m < 16")
      case True
      then have "?rest = []" by (simp add: ctr_crypt.simps)
      with len True show ?thesis by simp
    next
      case False
      with len have "length ?x = 16" by simp
      then show ?thesis by simp
    qed
    have "?x @ ?rest \<noteq> []" using len False by (metis append_is_Nil_conv length_0_conv min_def zero_neq_numeral)
    then have "ctr_crypt E ctr (?x @ ?rest) =
        xor_bytes (take 16 (?x @ ?rest)) (E ctr) @ ctr_crypt E (inc32 ctr) (drop 16 (?x @ ?rest))"
      by (simp only: ctr_crypt.simps [of E ctr "?x @ ?rest"] if_False)
    also have "\<dots> = xor_bytes ?x (E ctr) @ ctr_crypt E (inc32 ctr) ?rest"
      by (simp only: split)
    also have "\<dots> = take 16 m @ drop 16 m"
      using 1 False by (simp add: xor_bytes_involution)
    finally show ?thesis using c by simp
  qed
qed

lemma length_gcm_tag [simp]: "(\<And>c. length (E c) = 16) \<Longrightarrow> length (gcm_tag E nonce ct) = 16"
  by (simp add: gcm_tag_def Let_def block_bytes_def)

lemma gcm_open_seal:
  assumes "\<And>c. length (E c) = 16"
  shows "gcm_open E nonce (gcm_seal E nonce m) = Inr m"
  using assms
  by (simp add: gcm_open_def gcm_seal_def gcm_crypt_def ctr_crypt_involution)

text \<open>For a nonce and a ciphertext exactly one tag is accepted.\<close>

lemma gcm_open_iff:
  assumes "length tag = 16"
  shows "gcm_open E nonce (ct @ tag) =
    (if tag = gcm_tag E nonce ct then Inr (gcm_crypt E nonce ct) else Inl err_open)"
  using assms by (simp add: gcm_open_def)

section \<open>The contract\<close>

locale aead =
  fixes seal :: "bytes \<Rightarrow> bytes \<Rightarrow> bytes"
    and openb :: "bytes \<Rightarrow> bytes \<Rightarrow> goerr + bytes"
    and tag_size :: nat
  assumes open_seal: "openb nonce (seal nonce m) = Inr m"
    and length_seal: "length (seal nonce m) = length m + tag_size"
    and open_tag: "length t = tag_size \<Longrightarrow> length t' = tag_size \<Longrightarrow>
      openb nonce (c @ t) = Inr m \<Longrightarrow> t' \<noteq> t \<Longrightarrow> \<exists>e. openb nonce (c @ t') = Inl e"
begin

text \<open>A sealed message carried behind its nonce is recovered from the framed bytes.\<close>

lemma open_framed:
  assumes "length nonce = n"
  shows "openb (take n (nonce @ seal nonce m)) (drop n (nonce @ seal nonce m)) = Inr m"
  using assms by (simp add: open_seal)

lemma seal_inject: "seal nonce m = seal nonce m' \<longleftrightarrow> m = m'"
  by (metis open_seal sum.inject(2))

lemma forged_tag:
  assumes "seal nonce m = c @ t" and "length t = tag_size" and "length t' = tag_size" and "t' \<noteq> t"
  shows "\<exists>e. openb nonce (c @ t') = Inl e"
  using assms open_seal open_tag by metis

end

interpretation aes_gcm: aead "gcm_seal (aes256_encrypt key)" "gcm_open (aes256_encrypt key)" 16 for key
proof
  show "gcm_open (aes256_encrypt key) nonce (gcm_seal (aes256_encrypt key) nonce m) = Inr m" for nonce m
    by (rule gcm_open_seal) simp
  show "length (gcm_seal (aes256_encrypt key) nonce m) = length m + 16" for nonce m
    by (simp add: gcm_seal_def gcm_crypt_def length_ctr_crypt)
  show "\<exists>e. gcm_open (aes256_encrypt key) nonce (c @ t') = Inl e"
    if "length t = 16" "length t' = 16" "gcm_open (aes256_encrypt key) nonce (c @ t) = Inr m" "t' \<noteq> t"
    for t t' nonce c m
    using that by (auto simp: gcm_open_iff split: if_splits)
qed

end
