(* ===== verification/Crypto.thy ===== *)
theory Crypto
  imports GoStrconv GoEncoding GoGcm
begin

text \<open>
  \<open>internal/crypto/aes.go\<close>: encryption of the VPS password at rest. The random source is a
  parameter, a function from the number of bytes asked for to an error or the bytes
  (\<open>io.ReadFull(rand.Reader, b)\<close>); \<open>rand_fills\<close> states what \<open>ReadFull\<close> documents, that a
  successful read fills the buffer.
\<close>

section \<open>Definitions\<close>

definition key_size :: nat where
  "key_size = 32"

definition gcm_nonce_size :: nat where
  "gcm_nonce_size = 12"

type_synonym rand_source = "nat \<Rightarrow> goerr + bytes"

definition rand_fills :: "rand_source \<Rightarrow> bool" where
  "rand_fills rnd \<longleftrightarrow> (\<forall>n b. rnd n = Inr b \<longrightarrow> length b = n)"

definition err_key_size :: "nat \<Rightarrow> goerr" where
  "err_key_size n = ErrNew (''key must be '' @ fmt_d (int key_size) @ '' bytes, got '' @ fmt_d (int n))"

definition crypto_encrypt :: "rand_source \<Rightarrow> bytes \<Rightarrow> string \<Rightarrow> goerr + string" where
  "crypto_encrypt rnd key plaintext =
     (if length key \<noteq> key_size then Inl (err_key_size (length key))
      else case rnd gcm_nonce_size of
          Inl e \<Rightarrow> Inl e
        | Inr nonce \<Rightarrow>
            let ct = nonce @ gcm_seal (aes256_encrypt key) nonce (bytes_of_string plaintext)
            in Inr (base64_std_encode ct))"

definition crypto_decrypt :: "bytes \<Rightarrow> string \<Rightarrow> goerr + string" where
  "crypto_decrypt key ciphertext =
     (if length key \<noteq> key_size then Inl (err_key_size (length key))
      else case base64_std_decode ciphertext of
          Inl e \<Rightarrow> Inl e
        | Inr raw \<Rightarrow>
            if length raw < gcm_nonce_size then Inl (ErrNew ''ciphertext too short'')
            else
              let nonce = take gcm_nonce_size raw; body = drop gcm_nonce_size raw
              in case gcm_open (aes256_encrypt key) nonce body of
                   Inl e \<Rightarrow> Inl e
                 | Inr pt \<Rightarrow> Inr (string_of_bytes pt))"

definition key_to_base64 :: "bytes \<Rightarrow> string" where
  "key_to_base64 b = base64_std_encode b"

definition base64_to_key :: "string \<Rightarrow> goerr + bytes" where
  "base64_to_key s =
     (case base64_std_decode s of
        Inl e \<Rightarrow> Inl e
      | Inr b \<Rightarrow> if length b \<noteq> key_size then Inl (err_key_size (length b)) else Inr b)"

definition new_random_key :: "rand_source \<Rightarrow> goerr + bytes" where
  "new_random_key rnd = rnd key_size"

section \<open>Keys\<close>

interpretation master_key: codec key_to_base64 base64_to_key "\<lambda>k. length k = key_size"
  by unfold_locales (simp add: key_to_base64_def base64_to_key_def base64_std.dec_enc)

text \<open>Every key that is read back has the size AES-256 needs.\<close>

lemma base64_to_key_size: "base64_to_key s = Inr k \<Longrightarrow> length k = key_size"
  by (auto simp: base64_to_key_def split: sum.splits if_splits)

lemma base64_to_key_ok: "length k = key_size \<Longrightarrow> base64_to_key (key_to_base64 k) = Inr k"
  by (rule master_key.dec_enc)

text \<open>The text form of a key is one line, and never empty.\<close>

lemma key_to_base64_line:
  "length k = key_size \<Longrightarrow> CHR 0x0A \<notin> set (key_to_base64 k) \<and> key_to_base64 k \<noteq> []"
  using base64_std_encode_clean [of _ k] length_base64_std [of k]
  by (auto simp: key_to_base64_def key_size_def)

section \<open>Encryption\<close>

lemma crypto_encrypt_ok_iff:
  "(\<exists>ct. crypto_encrypt rnd key pt = Inr ct) \<longleftrightarrow>
     length key = key_size \<and> (\<exists>nonce. rnd gcm_nonce_size = Inr nonce)"
  by (auto simp: crypto_encrypt_def Let_def split: sum.splits)

lemma crypto_encryptD:
  assumes "crypto_encrypt rnd key pt = Inr ct"
  obtains nonce where "length key = key_size" and "rnd gcm_nonce_size = Inr nonce"
    and "ct = base64_std_encode (nonce @ gcm_seal (aes256_encrypt key) nonce (bytes_of_string pt))"
  using assms by (auto simp: crypto_encrypt_def Let_def split: sum.splits if_splits)

lemma crypto_decrypt_encoded:
  assumes "length key = key_size" and "length nonce = gcm_nonce_size"
  shows "crypto_decrypt key (base64_std_encode (nonce @ body)) =
    map_sum id string_of_bytes (gcm_open (aes256_encrypt key) nonce body)"
  using assms by (simp add: crypto_decrypt_def base64_std.dec_enc split: sum.splits)

lemma crypto_decrypt_encrypt:
  assumes "rand_fills rnd" and "crypto_encrypt rnd key plaintext = Inr ciphertext"
  shows "crypto_decrypt key ciphertext = Inr plaintext"
proof -
  from assms(2) obtain nonce where n: "length key = key_size" "rnd gcm_nonce_size = Inr nonce"
    "ciphertext = base64_std_encode (nonce @ gcm_seal (aes256_encrypt key) nonce (bytes_of_string plaintext))"
    by (rule crypto_encryptD)
  with assms(1) have "length nonce = gcm_nonce_size" by (simp add: rand_fills_def)
  with n show ?thesis
    by (simp add: crypto_decrypt_encoded aes_gcm.open_seal)
qed

text \<open>
  Property C24. What \<open>Encrypt\<close> returned, \<open>Decrypt\<close> turns back into the plaintext, for every key of
  32 bytes, every nonce the random source gave, and every plaintext.
\<close>

theorem decrypt_encrypt:
  assumes "rand_fills rnd" and "crypto_encrypt rnd key plaintext = Inr ciphertext"
  shows "crypto_decrypt key ciphertext = Inr plaintext"
  using assms by (rule crypto_decrypt_encrypt)

theorem decrypt_encrypt_witness:
  "\<exists>ct. crypto_encrypt (\<lambda>n. Inr (replicate n 7)) (replicate 32 1) ''s3cret'' = Inr ct
     \<and> crypto_decrypt (replicate 32 1) ct = Inr ''s3cret''"
proof -
  let ?rnd = "\<lambda>n. Inr (replicate n (7 :: byte)) :: goerr + bytes" and ?key = "replicate 32 (1 :: byte)"
  have "\<exists>ct. crypto_encrypt ?rnd ?key ''s3cret'' = Inr ct"
    by (simp add: crypto_encrypt_ok_iff key_size_def)
  moreover have "rand_fills ?rnd" by (simp add: rand_fills_def)
  ultimately show ?thesis
    using decrypt_encrypt by blast
qed

text \<open>
  A ciphertext whose tag was altered is refused: with the last 16 bytes of the
  decoded ciphertext replaced by any other 16 bytes, \<open>Decrypt\<close> under the same key returns an
  error and no plaintext.
\<close>

theorem decrypt_rejects_forged_tag:
  assumes "rand_fills rnd" and "crypto_encrypt rnd key plaintext = Inr ciphertext"
    and "base64_std_decode ciphertext = Inr raw"
    and "length tag = 16" and "tag \<noteq> drop (length raw - 16) raw"
  shows "\<exists>e. crypto_decrypt key (base64_std_encode (take (length raw - 16) raw @ tag)) = Inl e"
proof -
  from assms(2) obtain nonce where n: "length key = key_size" "rnd gcm_nonce_size = Inr nonce"
    and ct: "ciphertext = base64_std_encode (nonce @ gcm_seal (aes256_encrypt key) nonce (bytes_of_string plaintext))"
    by (rule crypto_encryptD)
  define body where "body = gcm_seal (aes256_encrypt key) nonce (bytes_of_string plaintext)"
  define c where "c = take (length body - 16) body"
  have raw: "raw = nonce @ body" using assms(3) by (simp add: ct body_def base64_std.dec_enc)
  have len: "16 \<le> length body" by (simp add: body_def aes_gcm.length_seal)
  then have "take (length raw - 16) raw = nonce @ c" and tag: "drop (length raw - 16) raw = drop (length body - 16) body"
    by (simp_all add: raw c_def)
  moreover have "gcm_seal (aes256_encrypt key) nonce (bytes_of_string plaintext) = c @ drop (length body - 16) body"
    by (simp add: c_def body_def [symmetric])
  then have "\<exists>e. gcm_open (aes256_encrypt key) nonce (c @ tag) = Inl e"
    by (rule aes_gcm.forged_tag) (use assms len tag in auto)
  moreover have "length nonce = gcm_nonce_size" using assms(1) n by (simp add: rand_fills_def)
  ultimately show ?thesis
    using n crypto_decrypt_encoded [of key nonce "c @ tag"] by auto
qed

theorem decrypt_rejects_forged_tag_witness:
  "\<exists>ct raw t e. crypto_encrypt (\<lambda>n. Inr (replicate n 7)) (replicate 32 1) ''pw'' = Inr ct
     \<and> base64_std_decode ct = Inr raw \<and> t \<noteq> drop (length raw - 16) raw
     \<and> crypto_decrypt (replicate 32 1) (base64_std_encode (take (length raw - 16) raw @ t)) = Inl e"
proof -
  let ?rnd = "\<lambda>n. Inr (replicate n (7 :: byte)) :: goerr + bytes" and ?key = "replicate 32 (1 :: byte)"
  have "\<exists>ct. crypto_encrypt ?rnd ?key ''pw'' = Inr ct"
    by (simp add: crypto_encrypt_ok_iff key_size_def)
  then obtain ct where ct: "crypto_encrypt ?rnd ?key ''pw'' = Inr ct" by blast
  then obtain raw where raw: "base64_std_decode ct = Inr raw"
    by (auto elim!: crypto_encryptD simp: base64_std.dec_enc)
  define t where "t = (if drop (length raw - 16) raw = replicate 16 (0 :: byte) then replicate 16 (1 :: byte) else replicate 16 0)"
  have t: "length t = 16" "t \<noteq> drop (length raw - 16) raw" by (auto simp: t_def)
  have "rand_fills ?rnd" by (simp add: rand_fills_def)
  from decrypt_rejects_forged_tag [OF this ct raw t] ct raw t show ?thesis by blast
qed

text \<open>
  The nonce is what separates ciphertexts: two encryptions of one plaintext under
  one key are equal exactly when their nonces are.
\<close>

theorem encrypt_eq_iff_nonce_eq:
  assumes "crypto_encrypt r1 key plaintext = Inr c1" and "crypto_encrypt r2 key plaintext = Inr c2"
    and "r1 gcm_nonce_size = Inr n1" and "r2 gcm_nonce_size = Inr n2"
    and "rand_fills r1" and "rand_fills r2"
  shows "c1 = c2 \<longleftrightarrow> n1 = n2"
proof
  assume "n1 = n2"
  with assms show "c1 = c2" by (auto elim!: crypto_encryptD)
next
  assume "c1 = c2"
  moreover have "length n1 = length n2" using assms by (simp add: rand_fills_def)
  ultimately show "n1 = n2"
    using assms by (auto elim!: crypto_encryptD simp: base64_std.enc_inject)
qed

theorem encrypt_eq_iff_nonce_eq_witness:
  "\<exists>c1 c2. crypto_encrypt (\<lambda>n. Inr (replicate n 7)) (replicate 32 1) ''pw'' = Inr c1
     \<and> crypto_encrypt (\<lambda>n. Inr (replicate n 8)) (replicate 32 1) ''pw'' = Inr c2 \<and> c1 \<noteq> c2"
proof -
  let ?r = "\<lambda>b n. Inr (replicate n (b :: byte)) :: goerr + bytes" and ?key = "replicate 32 (1 :: byte)"
  have "\<exists>c. crypto_encrypt (?r b) ?key ''pw'' = Inr c" for b
    by (simp add: crypto_encrypt_ok_iff key_size_def)
  then obtain c1 c2 where c: "crypto_encrypt (?r 7) ?key ''pw'' = Inr c1"
    "crypto_encrypt (?r 8) ?key ''pw'' = Inr c2" by blast
  have "rand_fills (?r b)" for b by (simp add: rand_fills_def)
  with encrypt_eq_iff_nonce_eq [OF c] have "c1 = c2 \<longleftrightarrow> replicate 12 (7 :: byte) = replicate 12 8"
    by (simp add: gcm_nonce_size_def)
  with c show ?thesis by auto
qed

text \<open>
  The text form of a master key is faithful: a key of 32 bytes is read back, and
  any other byte string is refused with the size error.
\<close>

theorem base64_key_roundtrip:
  "base64_to_key (key_to_base64 k) =
     (if length k = key_size then Inr k else Inl (err_key_size (length k)))"
  by (simp add: base64_to_key_def key_to_base64_def base64_std.dec_enc)

end
