(* ===== verification/GoOs.thy ===== *)
theory GoOs
  imports Prelude
begin

text \<open>
  The file operations of Go's \<open>os\<close> package that the setup tool uses to persist the
  configuration. A file system is a map from paths to contents; an \<open>osenv\<close> says which
  operation fails, and for a failed write what it left in the file, so that a torn write is a
  behaviour of the model. Both \<open>store.Save\<close> and \<open>writeDotenv\<close> write a temporary file and
  rename it; the locale \<open>atomic_file\<close> is the contract this gives.
\<close>

type_synonym fs = "string \<rightharpoonup> string"

record osenv =
  os_mkdir :: "string \<Rightarrow> goerr option"
  os_write :: "string \<Rightarrow> (goerr \<times> string option) option"
  os_rename :: "string \<Rightarrow> goerr option"
  os_read :: "string \<Rightarrow> goerr option"

definition os_healthy :: osenv where
  "os_healthy = \<lparr>os_mkdir = (\<lambda>_. None), os_write = (\<lambda>_. None), os_rename = (\<lambda>_. None), os_read = (\<lambda>_. None)\<rparr>"

abbreviation err_not_exist :: goerr where
  "err_not_exist \<equiv> ErrSentinel ''file does not exist''"

definition os_write_file :: "osenv \<Rightarrow> string \<Rightarrow> string \<Rightarrow> fs \<Rightarrow> goerr option \<times> fs" where
  "os_write_file env path data fs =
     (case os_write env path of
        None \<Rightarrow> (None, fs(path \<mapsto> data))
      | Some (e, left) \<Rightarrow> (Some e, fs(path := left)))"

definition os_rename_file :: "osenv \<Rightarrow> string \<Rightarrow> string \<Rightarrow> fs \<Rightarrow> goerr option \<times> fs" where
  "os_rename_file env old new fs =
     (case os_rename env new of
        Some e \<Rightarrow> (Some e, fs)
      | None \<Rightarrow>
          (case fs old of
             None \<Rightarrow> (Some err_not_exist, fs)
           | Some d \<Rightarrow> (None, fs(old := None, new \<mapsto> d))))"

definition os_read_file :: "osenv \<Rightarrow> string \<Rightarrow> fs \<Rightarrow> goerr + string" where
  "os_read_file env path fs =
     (case os_read env path of
        Some e \<Rightarrow> Inl e
      | None \<Rightarrow> (case fs path of None \<Rightarrow> Inl err_not_exist | Some d \<Rightarrow> Inr d))"

abbreviation tmp_path :: "string \<Rightarrow> string" where
  "tmp_path path \<equiv> path @ ''.tmp''"

text \<open>Write the temporary file, then rename it over the target.\<close>

definition write_and_rename :: "osenv \<Rightarrow> string \<Rightarrow> string \<Rightarrow> fs \<Rightarrow> goerr option \<times> fs" where
  "write_and_rename env path data fs =
     (case os_write_file env (tmp_path path) data fs of
        (Some e, fs') \<Rightarrow> (Some e, fs')
      | (None, fs') \<Rightarrow> os_rename_file env (tmp_path path) path fs')"

lemma write_and_rename_ok:
  "write_and_rename env path data fs = (None, fs') \<Longrightarrow> fs' path = Some data \<and> fs' (tmp_path path) = None"
  by (auto simp: write_and_rename_def os_write_file_def os_rename_file_def split: option.splits)

lemma write_and_rename_err:
  "write_and_rename env path data fs = (Some e, fs') \<Longrightarrow> fs' path = fs path"
  by (auto simp: write_and_rename_def os_write_file_def os_rename_file_def split: option.splits)

lemma write_and_rename_frame:
  "p \<noteq> path \<Longrightarrow> p \<noteq> tmp_path path \<Longrightarrow> snd (write_and_rename env path data fs) p = fs p"
  by (auto simp: write_and_rename_def os_write_file_def os_rename_file_def split: option.splits)

lemma write_and_rename_healthy:
  "write_and_rename os_healthy path data fs = (None, fs(tmp_path path := None, path \<mapsto> data))"
  by (simp add: write_and_rename_def os_write_file_def os_rename_file_def os_healthy_def)

section \<open>Atomic replacement\<close>

locale atomic_file =
  fixes save :: "'c \<Rightarrow> fs \<Rightarrow> goerr option \<times> fs"
    and path :: string
    and content :: "'c \<Rightarrow> string option"
  assumes save_ok: "save c fs = (None, fs') \<Longrightarrow> content c \<noteq> None \<and> fs' path = content c"
    and save_err: "save c fs = (Some e, fs') \<Longrightarrow> fs' path = fs path"
    and save_frame: "p \<noteq> path \<Longrightarrow> p \<noteq> tmp_path path \<Longrightarrow> snd (save c fs) p = fs p"
begin

text \<open>Never a torn file: the target holds its old contents or all of the new ones.\<close>

lemma old_or_new: "snd (save c fs) path = fs path \<or> snd (save c fs) path = content c"
proof (cases "save c fs")
  case (Pair r fs')
  then show ?thesis
    using save_ok [of c fs fs'] save_err [of c fs _ fs'] by (cases r) auto
qed

text \<open>A run of saves leaves what the last successful one wrote.\<close>

fun save_all :: "'c list \<Rightarrow> fs \<Rightarrow> fs" where
  "save_all [] fs = fs"
| "save_all (c # cs) fs = save_all cs (snd (save c fs))"

lemma save_all_content: "save_all cs fs path = fs path \<or> (\<exists>c \<in> set cs. save_all cs fs path = content c)"
proof (induction cs arbitrary: fs)
  case Nil
  then show ?case by simp
next
  case (Cons c cs)
  from Cons.IH [of "snd (save c fs)"] old_or_new [of c fs] show ?case by auto
qed

end

end
