(* ===== verification/Store.thy ===== *)
theory Store
  imports Crypto GoOs
begin

text \<open>
  \<open>internal/store/config.go\<close>: the operator's configuration file, its load and save, and the
  encrypted VPS password in it. The YAML library is a pair of parameters, \<open>marshal\<close> and
  \<open>unmarshal\<close>; what the theorems need of it is that the file that was written for a
  configuration reads back as this configuration, and each theorem says so for the one
  configuration it is about.
\<close>

section \<open>The configuration\<close>

record vps_config =
  vps_host :: string
  vps_port :: int
  vps_database :: string
  vps_username :: string
  vps_password_encrypted :: string

record api_key_entry =
  ke_id :: string
  ke_key_hash :: string
  ke_description :: string

record api_config =
  ac_keys :: "api_key_entry list"

record sync_config =
  sc_interval :: string
  sc_batch_size :: int
  sc_watermark_column :: string

record store_config =
  cfg_vps :: vps_config
  cfg_api :: api_config
  cfg_sync :: sync_config

text \<open>\<open>&store.Config{}\<close>.\<close>

definition zero_vps :: vps_config where
  "zero_vps = \<lparr>vps_host = [], vps_port = 0, vps_database = [], vps_username = [], vps_password_encrypted = []\<rparr>"

definition zero_config :: store_config where
  "zero_config =
     \<lparr>cfg_vps = zero_vps, cfg_api = \<lparr>ac_keys = []\<rparr>,
      cfg_sync = \<lparr>sc_interval = [], sc_batch_size = 0, sc_watermark_column = []\<rparr>\<rparr>"

section \<open>The VPS password\<close>

definition set_encrypted_password ::
  "rand_source \<Rightarrow> string \<Rightarrow> bytes \<Rightarrow> vps_config \<Rightarrow> goerr + vps_config" where
  "set_encrypted_password rnd plaintext key v =
     (case crypto_encrypt rnd key plaintext of
        Inl e \<Rightarrow> Inl e
      | Inr ct \<Rightarrow> Inr (v\<lparr>vps_password_encrypted := ct\<rparr>))"

definition get_decrypted_password :: "bytes \<Rightarrow> vps_config \<Rightarrow> goerr + string" where
  "get_decrypted_password key v =
     (if vps_password_encrypted v = [] then Inl (ErrNew ''no encrypted password set'')
      else crypto_decrypt key (vps_password_encrypted v))"

section \<open>Load and save\<close>

type_synonym yaml_marshal = "store_config \<Rightarrow> goerr + string"
type_synonym yaml_unmarshal = "string \<Rightarrow> goerr + store_config"

definition store_load :: "osenv \<Rightarrow> yaml_unmarshal \<Rightarrow> string \<Rightarrow> fs \<Rightarrow> goerr + store_config" where
  "store_load env unmarshal path fs =
     (case os_read_file env path fs of
        Inl e \<Rightarrow> Inl (ErrWrap ''read config'' e)
      | Inr b \<Rightarrow> wrap_err ''parse yaml'' (unmarshal b))"

definition store_save ::
  "osenv \<Rightarrow> yaml_marshal \<Rightarrow> string \<Rightarrow> store_config \<Rightarrow> fs \<Rightarrow> goerr option \<times> fs" where
  "store_save env marshal path c fs =
     (case os_mkdir env path of
        Some e \<Rightarrow> (Some e, fs)
      | None \<Rightarrow>
          (case marshal c of
             Inl e \<Rightarrow> (Some e, fs)
           | Inr b \<Rightarrow> write_and_rename env path b fs))"

section \<open>Facts\<close>

interpretation config_file: atomic_file "store_save env marshal path" path
  "\<lambda>c. case marshal c of Inl e \<Rightarrow> None | Inr b \<Rightarrow> Some b" for env marshal path
proof
  fix c :: store_config and fs fs' :: fs
  assume "store_save env marshal path c fs = (None, fs')"
  then show "(case marshal c of Inl e \<Rightarrow> None | Inr b \<Rightarrow> Some b) \<noteq> None \<and>
      fs' path = (case marshal c of Inl e \<Rightarrow> None | Inr b \<Rightarrow> Some b)"
    by (auto simp: store_save_def dest: write_and_rename_ok split: option.splits sum.splits)
next
  fix c :: store_config and fs fs' :: fs and e :: goerr
  assume "store_save env marshal path c fs = (Some e, fs')"
  then show "fs' path = fs path"
    by (auto simp: store_save_def dest: write_and_rename_err split: option.splits sum.splits)
next
  fix c :: store_config and fs :: fs and p :: string
  assume "p \<noteq> path" and "p \<noteq> tmp_path path"
  then show "snd (store_save env marshal path c fs) p = fs p"
    by (auto simp: store_save_def write_and_rename_frame split: option.splits sum.splits)
qed

lemma store_load_saved:
  assumes "store_save env marshal path c fs = (None, fs')"
    and "os_read env' path = None" and "\<And>b. marshal c = Inr b \<Longrightarrow> unmarshal b = Inr c"
  shows "store_load env' unmarshal path fs' = Inr c"
  using assms config_file.save_ok [OF assms(1)]
  by (auto simp: store_load_def os_read_file_def split: sum.splits option.splits)

lemma get_set_password:
  assumes "rand_fills rnd" and "set_encrypted_password rnd pw key v = Inr v'"
  shows "get_decrypted_password key v' = Inr pw"
proof -
  from assms(2) obtain ct where ct: "crypto_encrypt rnd key pw = Inr ct"
    and v': "v' = v\<lparr>vps_password_encrypted := ct\<rparr>"
    by (auto simp: set_encrypted_password_def split: sum.splits)
  from ct have "length ct \<ge> 4"
    by (auto elim!: crypto_encryptD simp: length_base64_std aes_gcm.length_seal)
  then have "ct \<noteq> []" by auto
  with crypto_decrypt_encrypt [OF assms(1) ct] v' show ?thesis
    by (simp add: get_decrypted_password_def)
qed

lemma set_encrypted_password_frame:
  "set_encrypted_password rnd pw key v = Inr v' \<Longrightarrow>
   vps_host v' = vps_host v \<and> vps_port v' = vps_port v \<and> vps_database v' = vps_database v
   \<and> vps_username v' = vps_username v"
  by (auto simp: set_encrypted_password_def split: sum.splits)

text \<open>
  Property C37. \<open>Save\<close> replaces the configuration file as a whole: when it returns nil the file
  at \<open>path\<close> holds all of the marshalled configuration, and when any step fails, a torn write of
  the temporary file included, the file still holds its old contents; every other file but the
  temporary one is untouched.
\<close>

theorem store_save_atomic:
  "(case store_save env marshal path c fs of
      (None, fs') \<Rightarrow> (\<exists>b. marshal c = Inr b \<and> fs' path = Some b)
    | (Some e, fs') \<Rightarrow> fs' path = fs path)
   \<and> (\<forall>p. p = path \<or> p = tmp_path path \<or> snd (store_save env marshal path c fs) p = fs p)"
proof
  show "case store_save env marshal path c fs of
      (None, fs') \<Rightarrow> \<exists>b. marshal c = Inr b \<and> fs' path = Some b
    | (Some e, fs') \<Rightarrow> fs' path = fs path"
    using config_file.save_ok [of env marshal path c fs] config_file.save_err [of env marshal path c fs]
    by (cases "store_save env marshal path c fs"; cases "fst (store_save env marshal path c fs)"; cases "marshal c")
      simp_all
  show "\<forall>p. p = path \<or> p = tmp_path path \<or> snd (store_save env marshal path c fs) p = fs p"
    using config_file.save_frame by blast
qed

end
