(* ===== verification/Karyawan.thy ===== *)
theory Karyawan
  imports SqlTable GoStrconv GoTime
begin

text \<open>
  \<open>internal/karyawan\<close>: the employee record, the filter of a listing, and the repository over
  the mirror table \<open>karyawan\<close> of \<open>internal/db/migrations/0001_init.up.sql\<close>. A table is a list
  of rows. SQL statements are translated: the text the code builds is kept as a string (its
  placeholders matter), and its effect is a function on the table.

  PostgreSQL and its driver are parameters, collected in \<open>pgenv\<close>: whether a statement with
  its arguments is executed or fails (and whether a failed one had taken effect), whether a
  row scans, whether the row iteration breaks off, the operator \<open>ILIKE\<close>, the collation of
  \<open>ORDER BY\<close>, and the text form of a \<open>jsonb\<close> value.
\<close>

section \<open>Model\<close>

record karyawan =
  k_nik_hris :: string
  k_nik_santos :: string
  k_nama_karyawan :: string
  k_nama_departemen :: string
  k_nama_jabatan :: string
  k_tgl_bergabung :: "micros option"
  k_tgl_keluar :: "micros option"
  k_lokasi :: string
  k_gender :: string
  k_source_updated_at :: "micros option"
  k_synced_at :: micros
  k_raw_payload :: string

definition karyawan_active :: "karyawan \<Rightarrow> bool" where
  "karyawan_active k \<longleftrightarrow> k_tgl_keluar k = None"

record kar_filter =
  f_nik_hris :: string
  f_nik_santos :: string
  f_nama_karyawan :: string
  f_departemen :: string
  f_jabatan :: string
  f_lokasi :: string
  f_status_aktif :: "bool option"
  f_limit :: int
  f_offset :: int

text \<open>A row of the table: \<open>text\<close> columns may be NULL, \<open>date\<close> columns hold day numbers.\<close>

record kar_row =
  kr_nik_hris :: string
  kr_nik_santos :: "string option"
  kr_nama_karyawan :: string
  kr_nama_departemen :: "string option"
  kr_nama_jabatan :: "string option"
  kr_tgl_bergabung :: "int option"
  kr_tgl_keluar :: "int option"
  kr_lokasi :: "string option"
  kr_gender :: "string option"
  kr_source_updated_at :: "micros option"
  kr_synced_at :: micros
  kr_raw_payload :: "string option"

text \<open>Statement arguments.\<close>

datatype pgarg =
    ArgText string
  | ArgInt int
  | ArgTime "micros option"
  | ArgJson string
  | ArgNil

record pgenv =
  pg_fault :: "string \<Rightarrow> pgarg list \<Rightarrow> (goerr \<times> bool) option"
  pg_scan :: "kar_row \<Rightarrow> goerr option"
  pg_rows_err :: "(nat \<times> goerr) option"
  pg_ilike :: "string \<Rightarrow> string \<Rightarrow> bool"
  pg_le :: "string \<Rightarrow> string \<Rightarrow> bool"
  pg_jsonb :: "string \<Rightarrow> string"

section \<open>Upsert\<close>

definition upsert_sql :: string where
  "upsert_sql =
     nl @ ''INSERT INTO karyawan (nik_hris, nik_santos, nama_karyawan, nama_departemen, nama_jabatan,'' @
     nl @ ''                      tgl_bergabung, tgl_keluar, lokasi, gender, source_updated_at, raw_payload)'' @
     nl @ ''VALUES ($1,$2,$3,$4,$5,$6,$7,$8,$9,$10,$11)'' @
     nl @ ''ON CONFLICT (nik_hris) DO UPDATE SET'' @
     nl @ ''  nik_santos        = EXCLUDED.nik_santos,'' @
     nl @ ''  nama_karyawan     = EXCLUDED.nama_karyawan,'' @
     nl @ ''  nama_departemen   = EXCLUDED.nama_departemen,'' @
     nl @ ''  nama_jabatan      = EXCLUDED.nama_jabatan,'' @
     nl @ ''  tgl_bergabung     = EXCLUDED.tgl_bergabung,'' @
     nl @ ''  tgl_keluar        = EXCLUDED.tgl_keluar,'' @
     nl @ ''  lokasi            = EXCLUDED.lokasi,'' @
     nl @ ''  gender            = EXCLUDED.gender,'' @
     nl @ ''  source_updated_at = EXCLUDED.source_updated_at,'' @
     nl @ ''  synced_at         = now(),'' @
     nl @ ''  raw_payload       = EXCLUDED.raw_payload'' @
     nl @ ''RETURNING synced_at'' @ nl"

text \<open>The columns the conflict clause assigns; the key is not among them.\<close>

definition kar_merge :: "kar_row \<Rightarrow> kar_row \<Rightarrow> kar_row" where
  "kar_merge old excluded = old\<lparr>
     kr_nik_santos := kr_nik_santos excluded,
     kr_nama_karyawan := kr_nama_karyawan excluded,
     kr_nama_departemen := kr_nama_departemen excluded,
     kr_nama_jabatan := kr_nama_jabatan excluded,
     kr_tgl_bergabung := kr_tgl_bergabung excluded,
     kr_tgl_keluar := kr_tgl_keluar excluded,
     kr_lokasi := kr_lokasi excluded,
     kr_gender := kr_gender excluded,
     kr_source_updated_at := kr_source_updated_at excluded,
     kr_synced_at := kr_synced_at excluded,
     kr_raw_payload := kr_raw_payload excluded\<rparr>"

abbreviation kar_upsert_row :: "kar_row \<Rightarrow> kar_row list \<Rightarrow> kar_row list" where
  "kar_upsert_row \<equiv> sql_upsert kr_nik_hris kar_merge"

text \<open>The empty payload becomes an empty JSON object.\<close>

definition upsert_raw :: "karyawan \<Rightarrow> string" where
  "upsert_raw k = (if length (k_raw_payload k) = 0 then ''{}'' else k_raw_payload k)"

definition upsert_args :: "karyawan \<Rightarrow> pgarg list" where
  "upsert_args k =
     [ArgText (k_nik_hris k), ArgText (k_nik_santos k), ArgText (k_nama_karyawan k),
      ArgText (k_nama_departemen k), ArgText (k_nama_jabatan k),
      ArgTime (k_tgl_bergabung k), ArgTime (k_tgl_keluar k), ArgText (k_lokasi k),
      ArgText (k_gender k), ArgTime (k_source_updated_at k), ArgJson (upsert_raw k)]"

text \<open>The row proposed for insertion at the server's time \<open>now\<close>.\<close>

definition upsert_row :: "pgenv \<Rightarrow> micros \<Rightarrow> karyawan \<Rightarrow> kar_row" where
  "upsert_row env now k =
     \<lparr>kr_nik_hris = k_nik_hris k,
      kr_nik_santos = Some (k_nik_santos k),
      kr_nama_karyawan = k_nama_karyawan k,
      kr_nama_departemen = Some (k_nama_departemen k),
      kr_nama_jabatan = Some (k_nama_jabatan k),
      kr_tgl_bergabung = map_option day_of (k_tgl_bergabung k),
      kr_tgl_keluar = map_option day_of (k_tgl_keluar k),
      kr_lokasi = Some (k_lokasi k),
      kr_gender = Some (k_gender k),
      kr_source_updated_at = k_source_updated_at k,
      kr_synced_at = now,
      kr_raw_payload = Some (pg_jsonb env (upsert_raw k))\<rparr>"

text \<open>The result is the error, or the \<open>synced_at\<close> that \<open>RETURNING\<close> scans into the record.\<close>

definition repo_upsert ::
  "pgenv \<Rightarrow> micros \<Rightarrow> karyawan \<Rightarrow> kar_row list \<Rightarrow> (goerr + micros) \<times> kar_row list" where
  "repo_upsert env now k t =
     (case pg_fault env upsert_sql (upsert_args k) of
        Some (e, applied) \<Rightarrow> (Inl e, if applied then kar_upsert_row (upsert_row env now k) t else t)
      | None \<Rightarrow> (Inr now, kar_upsert_row (upsert_row env now k) t))"

section \<open>GetByNIK\<close>

abbreviation sq2 :: string where
  "sq2 \<equiv> [CHR 0x27, CHR 0x27]"

definition kar_select :: string where
  "kar_select =
     nl @ ''SELECT nik_hris, COALESCE(nik_santos,'' @ sq2 @ ''), nama_karyawan, COALESCE(nama_departemen,'' @ sq2 @ ''),'' @
     nl @ ''       COALESCE(nama_jabatan,'' @ sq2 @ ''), tgl_bergabung, tgl_keluar, COALESCE(lokasi,'' @ sq2 @ ''),'' @
     nl @ ''       COALESCE(gender,'' @ sq2 @ ''), source_updated_at, synced_at, raw_payload'' @
     nl @ ''FROM karyawan ''"

definition get_sql :: string where
  "get_sql = kar_select @ ''WHERE nik_hris = $1'' @ nl"

text \<open>\<open>COALESCE(c,'')\<close>.\<close>

definition coalesce_text :: "string option \<Rightarrow> string" where
  "coalesce_text c = (case c of None \<Rightarrow> [] | Some s \<Rightarrow> s)"

text \<open>The columns of one selected row, scanned into a record.\<close>

definition scan_row :: "kar_row \<Rightarrow> karyawan" where
  "scan_row r =
     \<lparr>k_nik_hris = kr_nik_hris r,
      k_nik_santos = coalesce_text (kr_nik_santos r),
      k_nama_karyawan = kr_nama_karyawan r,
      k_nama_departemen = coalesce_text (kr_nama_departemen r),
      k_nama_jabatan = coalesce_text (kr_nama_jabatan r),
      k_tgl_bergabung = map_option time_of_day (kr_tgl_bergabung r),
      k_tgl_keluar = map_option time_of_day (kr_tgl_keluar r),
      k_lokasi = coalesce_text (kr_lokasi r),
      k_gender = coalesce_text (kr_gender r),
      k_source_updated_at = kr_source_updated_at r,
      k_synced_at = kr_synced_at r,
      k_raw_payload = coalesce_text (kr_raw_payload r)\<rparr>"

abbreviation err_kar_not_found :: goerr where
  "err_kar_not_found \<equiv> ErrSentinel ''karyawan not found''"

text \<open>\<open>QueryRow(...).Scan(...)\<close> of the row that a select returns.\<close>

definition query_kar_row :: "pgenv \<Rightarrow> string \<Rightarrow> pgarg list \<Rightarrow> kar_row option \<Rightarrow> goerr + karyawan" where
  "query_kar_row env q args res =
     (case pg_fault env q args of
        Some (e, applied) \<Rightarrow> Inl e
      | None \<Rightarrow>
          (case res of
             None \<Rightarrow> Inl err_no_rows
           | Some r \<Rightarrow>
               (case pg_scan env r of
                  Some e \<Rightarrow> Inl e
                | None \<Rightarrow> Inr (scan_row r))))"

definition scan_one :: "pgenv \<Rightarrow> string \<Rightarrow> pgarg list \<Rightarrow> kar_row option \<Rightarrow> goerr + karyawan" where
  "scan_one env q args res =
     (case query_kar_row env q args res of
        Inl e \<Rightarrow>
          if errors_is e ''no rows in result set'' then Inl err_kar_not_found
          else Inl (ErrWrap ''scan karyawan'' e)
      | Inr k \<Rightarrow> Inr k)"

definition repo_get_by_nik :: "pgenv \<Rightarrow> string \<Rightarrow> kar_row list \<Rightarrow> goerr + karyawan" where
  "repo_get_by_nik env nik t = scan_one env get_sql [ArgText nik] (sql_find kr_nik_hris nik t)"

section \<open>The number of placeholders in a statement\<close>

text \<open>
  PostgreSQL derives the parameters of a statement from its text, \<open>$1\<close> to the highest \<open>$n\<close>
  in it, and pgx refuses an argument list of another length. \<open>pgx_arity\<close> is this documented
  behaviour; \<open>pg_healthy\<close> is a server that runs every well-formed statement.
\<close>

fun sql_params :: "string \<Rightarrow> int" where
  "sql_params [] = 0"
| "sql_params (c # cs) =
     (if c = CHR ''$'' then max (fst (parse_uint_loop 0 (takeWhile is_digit cs))) (sql_params cs)
      else sql_params cs)"

definition pgx_arity :: "pgenv \<Rightarrow> bool" where
  "pgx_arity env \<longleftrightarrow>
     (\<forall>q args. sql_params q = int (length args) \<or> (\<exists>e. pg_fault env q args = Some (e, False)))"

definition pg_healthy :: "pgenv \<Rightarrow> bool" where
  "pg_healthy env \<longleftrightarrow>
     (\<forall>q args. sql_params q \<noteq> int (length args) \<or> pg_fault env q args = None)
     \<and> (\<forall>r. pg_scan env r = None) \<and> pg_rows_err env = None"

section \<open>Facts\<close>

interpretation kar_table: mirror_table kr_nik_hris kar_merge
  by unfold_locales (simp_all add: kar_merge_def)

lemma scan_upsert_row:
  "scan_row (upsert_row env now k) =
     k\<lparr>k_tgl_bergabung := map_option (time_of_day \<circ> day_of) (k_tgl_bergabung k),
       k_tgl_keluar := map_option (time_of_day \<circ> day_of) (k_tgl_keluar k),
       k_synced_at := now,
       k_raw_payload := pg_jsonb env (upsert_raw k)\<rparr>"
  by (simp add: scan_row_def upsert_row_def coalesce_text_def option.map_comp)

lemma upsert_row_key [simp]: "kr_nik_hris (upsert_row env now k) = k_nik_hris k"
  by (simp add: upsert_row_def)

lemma repo_upsert_ok:
  "repo_upsert env now k t = (Inr s, t') \<Longrightarrow> s = now \<and> t' = kar_upsert_row (upsert_row env now k) t"
  by (auto simp: repo_upsert_def split: option.splits prod.splits if_splits)

lemma repo_upsert_cases:
  "snd (repo_upsert env now k t) = t
   \<or> snd (repo_upsert env now k t) = kar_upsert_row (upsert_row env now k) t"
  by (auto simp: repo_upsert_def split: option.splits prod.splits)

lemma repo_upsert_keyed: "keyed kr_nik_hris t \<Longrightarrow> keyed kr_nik_hris (snd (repo_upsert env now k t))"
  using repo_upsert_cases [of env now k t] by (auto simp: kar_table.keyed_upsert)

lemma repo_upsert_other:
  "nik \<noteq> k_nik_hris k \<Longrightarrow>
   sql_find kr_nik_hris nik (snd (repo_upsert env now k t)) = sql_find kr_nik_hris nik t"
  using repo_upsert_cases [of env now k t] by (auto simp: kar_table.find_upsert_new)

lemma repo_upsert_healthy:
  "pg_fault env upsert_sql (upsert_args k) = None \<Longrightarrow>
   repo_upsert env now k t = (Inr now, kar_upsert_row (upsert_row env now k) t)"
  by (simp add: repo_upsert_def)

lemma repo_get_found:
  "pg_fault env get_sql [ArgText nik] = None \<Longrightarrow> sql_find kr_nik_hris nik t = Some r \<Longrightarrow>
   pg_scan env r = None \<Longrightarrow> repo_get_by_nik env nik t = Inr (scan_row r)"
  by (simp add: repo_get_by_nik_def scan_one_def query_kar_row_def)

lemma repo_get_not_found:
  "pg_fault env get_sql [ArgText nik] = None \<Longrightarrow> sql_find kr_nik_hris nik t = None \<Longrightarrow>
   repo_get_by_nik env nik t = Inl err_kar_not_found"
  by (simp add: repo_get_by_nik_def scan_one_def query_kar_row_def)

section \<open>A reference server\<close>

text \<open>
  A concrete \<open>pgenv\<close> for evaluation: it checks the number of arguments, matches \<open>LIKE\<close> patterns
  over ASCII letters, collates by byte and keeps a \<open>jsonb\<close> text as it is.
\<close>

fun like_match :: "string \<Rightarrow> string \<Rightarrow> bool" where
  "like_match s [] = (s = [])"
| "like_match s (p # ps) =
     (if p = CHR ''%'' then list_ex (\<lambda>n. like_match (drop n s) ps) [0..<length s + 1]
      else case s of [] \<Rightarrow> False | c # cs \<Rightarrow> (p = CHR ''_'' \<or> p = c) \<and> like_match cs ps)"

fun byte_le :: "string \<Rightarrow> string \<Rightarrow> bool" where
  "byte_le [] ys = True"
| "byte_le (x # xs) [] = False"
| "byte_le (x # xs) (y # ys) =
     ((of_char x :: nat) < of_char y \<or> (x = y \<and> byte_le xs ys))"

definition pg_ref :: pgenv where
  "pg_ref =
     \<lparr>pg_fault = (\<lambda>q args. if sql_params q = int (length args) then None
                         else Some (ErrNew ''wrong number of arguments'', False)),
      pg_scan = (\<lambda>_. None),
      pg_rows_err = None,
      pg_ilike = (\<lambda>s p. like_match (map ascii_lower s) (map ascii_lower p)),
      pg_le = byte_le,
      pg_jsonb = (\<lambda>s. s)\<rparr>"

lemma pg_ref_arity: "pgx_arity pg_ref"
  by (simp add: pgx_arity_def pg_ref_def)

lemma pg_ref_healthy: "pg_healthy pg_ref"
  by (simp add: pg_healthy_def pg_ref_def)

lemma sql_params_get: "sql_params get_sql = 1"
  by code_simp

lemma sql_params_upsert: "sql_params upsert_sql = 11"
  by code_simp

lemma healthy_get: "pg_healthy env \<Longrightarrow> pg_fault env get_sql [ArgText nik] = None"
  using sql_params_get by (auto simp: pg_healthy_def)

lemma healthy_upsert: "pg_healthy env \<Longrightarrow> pg_fault env upsert_sql (upsert_args k) = None"
  using sql_params_upsert by (auto simp: pg_healthy_def upsert_args_def)

lemma repo_get_healthy:
  "pg_healthy env \<Longrightarrow>
   repo_get_by_nik env nik t =
     (case sql_find kr_nik_hris nik t of None \<Rightarrow> Inl err_kar_not_found | Some r \<Rightarrow> Inr (scan_row r))"
  using healthy_get [of env nik]
  by (auto simp: pg_healthy_def repo_get_found repo_get_not_found split: option.splits)

section \<open>Properties\<close>

text \<open>
  Property C25. After a successful \<open>Upsert\<close>, \<open>GetByNIK\<close> under the record's NIK returns this
  record: every text field, the dates truncated to the day, the payload as the server prints
  it (the empty one as an empty object), and \<open>synced_at\<close> the server's time; and every other NIK
  answers as before.
\<close>

theorem upsert_get_roundtrip:
  assumes "repo_upsert env now k t = (Inr s, t')" and "pg_healthy env'"
  shows "repo_get_by_nik env' (k_nik_hris k) t' =
      Inr (k\<lparr>k_tgl_bergabung := map_option (time_of_day \<circ> day_of) (k_tgl_bergabung k),
             k_tgl_keluar := map_option (time_of_day \<circ> day_of) (k_tgl_keluar k),
             k_synced_at := now,
             k_raw_payload := pg_jsonb env (if k_raw_payload k = [] then ''{}'' else k_raw_payload k)\<rparr>)
    \<and> (\<forall>nik. nik = k_nik_hris k \<or> repo_get_by_nik env' nik t' = repo_get_by_nik env' nik t)"
  using repo_upsert_ok [OF assms(1)] assms(2)
  by (simp add: repo_get_healthy kar_table.find_upsert_new scan_upsert_row upsert_raw_def)

text \<open>A record for evaluation.\<close>

definition sample_kar :: "string \<Rightarrow> karyawan" where
  "sample_kar nik =
     \<lparr>k_nik_hris = nik, k_nik_santos = ''S1'', k_nama_karyawan = ''Budi'', k_nama_departemen = ''IT'',
      k_nama_jabatan = ''Dev'', k_tgl_bergabung = Some 1600000000000000, k_tgl_keluar = None,
      k_lokasi = ''JKT'', k_gender = ''L'', k_source_updated_at = Some 1700000000000000,
      k_synced_at = 0, k_raw_payload = []\<rparr>"

lemma repo_upsert_ref:
  "repo_upsert pg_ref now k t = (Inr now, kar_upsert_row (upsert_row pg_ref now k) t)"
  by (rule repo_upsert_healthy) (rule healthy_upsert [OF pg_ref_healthy])

lemma upsert_get_roundtrip_witness:
  "repo_get_by_nik pg_ref ''A1'' (kar_upsert_row (upsert_row pg_ref 42 (sample_kar ''A1'')) []) =
     Inr ((sample_kar ''A1'')\<lparr>k_tgl_bergabung := Some 1599955200000000, k_synced_at := 42,
                             k_raw_payload := ''{}''\<rparr>)"
  using upsert_get_roundtrip [where k = "sample_kar ''A1''" and now = 42 and t = "[]", OF repo_upsert_ref pg_ref_healthy]
  by (simp add: sample_kar_def time_of_day_def day_of_def micros_per_day_def pg_ref_def)

text \<open>
  \<open>GetByNIK\<close> says "not found" for exactly the NIKs that have no row: on a server
  that executes the statement, and whatever it fails with otherwise as long as the driver does
  not report "no rows" for a row that is there.
\<close>

theorem get_not_found_iff:
  assumes "\<And>e b. pg_fault env get_sql [ArgText nik] = Some (e, b) \<Longrightarrow> \<not> errors_is e ''no rows in result set''"
    and "\<And>r e. pg_scan env r = Some e \<Longrightarrow> \<not> errors_is e ''no rows in result set''"
  shows "repo_get_by_nik env nik t = Inl err_kar_not_found
    \<longleftrightarrow> pg_fault env get_sql [ArgText nik] = None \<and> nik \<notin> kr_nik_hris ` set t"
  using assms
  by (auto simp: repo_get_by_nik_def scan_one_def query_kar_row_def sql_find_None_iff [symmetric]
      split: option.splits)

lemma get_not_found_iff_witness:
  "repo_get_by_nik pg_ref ''A1'' [] = Inl err_kar_not_found"
  using get_not_found_iff [of pg_ref "''A1''" "[]"] healthy_get [OF pg_ref_healthy]
  by (simp add: pg_ref_def)

end
