(* ===== verification/KarList.thy ===== *)
theory KarList
  imports Karyawan "HOL-Library.Multiset"
begin

text \<open>
  \<open>Repo.List\<close> of \<open>internal/karyawan/repo.go\<close>: the conditions and arguments that a filter adds,
  the two statements built from them, and the page. A condition is kept as a datatype with its
  SQL text; its evaluation on a row reads the argument its placeholder numbers, so that a
  placeholder out of step with the argument list is visible in the model. The specification
  \<open>matches\<close> says what a filter selects without any SQL.
\<close>

section \<open>Conditions\<close>

datatype column = ColNikHris | ColNikSantos | ColNama | ColDepartemen | ColJabatan | ColLokasi | ColTglKeluar

fun column_name :: "column \<Rightarrow> string" where
  "column_name ColNikHris = ''nik_hris''"
| "column_name ColNikSantos = ''nik_santos''"
| "column_name ColNama = ''nama_karyawan''"
| "column_name ColDepartemen = ''nama_departemen''"
| "column_name ColJabatan = ''nama_jabatan''"
| "column_name ColLokasi = ''lokasi''"
| "column_name ColTglKeluar = ''tgl_keluar''"

text \<open>A text column of a row; \<open>None\<close> is NULL.\<close>

fun column_text :: "column \<Rightarrow> kar_row \<Rightarrow> string option" where
  "column_text ColNikHris r = Some (kr_nik_hris r)"
| "column_text ColNikSantos r = kr_nik_santos r"
| "column_text ColNama r = Some (kr_nama_karyawan r)"
| "column_text ColDepartemen r = kr_nama_departemen r"
| "column_text ColJabatan r = kr_nama_jabatan r"
| "column_text ColLokasi r = kr_lokasi r"
| "column_text ColTglKeluar r = map_option format_date (map_option time_of_day (kr_tgl_keluar r))"

fun column_null :: "column \<Rightarrow> kar_row \<Rightarrow> bool" where
  "column_null c r = (column_text c r = None)"

datatype clause =
    CEq column int
  | CILike column int
  | CIsNull column
  | CIsNotNull column

fun clause_text :: "clause \<Rightarrow> string" where
  "clause_text (CEq c n) = column_name c @ '' = $'' @ itoa n"
| "clause_text (CILike c n) = column_name c @ '' ILIKE $'' @ itoa n"
| "clause_text (CIsNull c) = column_name c @ '' IS NULL''"
| "clause_text (CIsNotNull c) = column_name c @ '' IS NOT NULL''"

definition arg_text :: "pgarg list \<Rightarrow> int \<Rightarrow> string option" where
  "arg_text args n =
     (if 1 \<le> n \<and> n \<le> int (length args)
      then case args ! nat (n - 1) of ArgText s \<Rightarrow> Some s | _ \<Rightarrow> None
      else None)"

definition arg_int :: "pgarg list \<Rightarrow> int \<Rightarrow> int" where
  "arg_int args n =
     (if 1 \<le> n \<and> n \<le> int (length args)
      then case args ! nat (n - 1) of ArgInt i \<Rightarrow> i | _ \<Rightarrow> 0
      else 0)"

text \<open>A comparison with NULL is not true.\<close>

fun clause_holds :: "pgenv \<Rightarrow> pgarg list \<Rightarrow> clause \<Rightarrow> kar_row \<Rightarrow> bool" where
  "clause_holds env args (CEq c n) r =
     (case (column_text c r, arg_text args n) of (Some x, Some y) \<Rightarrow> x = y | _ \<Rightarrow> False)"
| "clause_holds env args (CILike c n) r =
     (case (column_text c r, arg_text args n) of (Some x, Some y) \<Rightarrow> pg_ilike env x y | _ \<Rightarrow> False)"
| "clause_holds env args (CIsNull c) r = column_null c r"
| "clause_holds env args (CIsNotNull c) r = (\<not> column_null c r)"

text \<open>The closure \<open>add\<close>: a condition and an argument, appended together.\<close>

type_synonym where_acc = "clause list \<times> pgarg list"

definition add_cond :: "clause \<Rightarrow> pgarg \<Rightarrow> where_acc \<Rightarrow> where_acc" where
  "add_cond cl v acc = (fst acc @ [cl], snd acc @ [v])"

definition next_param :: "where_acc \<Rightarrow> int" where
  "next_param acc = int (length (snd acc)) + 1"

definition add_eq :: "column \<Rightarrow> string \<Rightarrow> where_acc \<Rightarrow> where_acc" where
  "add_eq c v acc = (if v \<noteq> [] then add_cond (CEq c (next_param acc)) (ArgText v) acc else acc)"

definition add_ilike :: "column \<Rightarrow> string \<Rightarrow> where_acc \<Rightarrow> where_acc" where
  "add_ilike c v acc =
     (if v \<noteq> [] then add_cond (CILike c (next_param acc)) (ArgText (''%'' @ v @ ''%'')) acc else acc)"

definition add_status :: "bool option \<Rightarrow> where_acc \<Rightarrow> where_acc" where
  "add_status st acc =
     (case st of
        None \<Rightarrow> acc
      | Some True \<Rightarrow> add_cond (CIsNull ColTglKeluar) ArgNil acc
      | Some False \<Rightarrow> add_cond (CIsNotNull ColTglKeluar) ArgNil acc)"

definition list_where :: "kar_filter \<Rightarrow> where_acc" where
  "list_where f =
     (let a1 = add_eq ColNikHris (f_nik_hris f) ([], []);
          a2 = add_eq ColNikSantos (f_nik_santos f) a1;
          a3 = add_ilike ColNama (f_nama_karyawan f) a2;
          a4 = add_ilike ColDepartemen (f_departemen f) a3;
          a5 = add_ilike ColJabatan (f_jabatan f) a4;
          a6 = add_eq ColLokasi (f_lokasi f) a5
      in add_status (f_status_aktif f) a6)"

definition where_text :: "clause list \<Rightarrow> string" where
  "where_text conds =
     (if length conds > 0 then ''WHERE '' @ str_join '' AND '' (map clause_text conds) else [])"

definition count_sql :: "kar_filter \<Rightarrow> string" where
  "count_sql f = ''SELECT COUNT(*) FROM karyawan '' @ where_text (fst (list_where f))"

definition list_sql :: "kar_filter \<Rightarrow> string" where
  "list_sql f =
     (let (conds, args) = list_where f
      in kar_select @ where_text conds @ nl @ ''ORDER BY nik_hris ASC'' @ nl @
         ''LIMIT $'' @ itoa (int (length args) + 1) @ '' OFFSET $'' @ itoa (int (length args) + 2))"

section \<open>The page\<close>

definition eff_limit :: "int \<Rightarrow> int" where
  "eff_limit limit = (if limit \<le> 0 \<or> limit > 500 then 50 else limit)"

definition eff_offset :: "int \<Rightarrow> int" where
  "eff_offset offset = (if offset < 0 then 0 else offset)"

definition select_where :: "pgenv \<Rightarrow> where_acc \<Rightarrow> kar_row list \<Rightarrow> kar_row list" where
  "select_where env acc t = filter (\<lambda>r. list_all (\<lambda>c. clause_holds env (snd acc) c r) (fst acc)) t"

text \<open>\<open>ORDER BY nik_hris ASC\<close> in the server's collation.\<close>

fun insert_by_nik :: "pgenv \<Rightarrow> kar_row \<Rightarrow> kar_row list \<Rightarrow> kar_row list" where
  "insert_by_nik env r [] = [r]"
| "insert_by_nik env r (x # xs) =
     (if pg_le env (kr_nik_hris r) (kr_nik_hris x) then r # x # xs else x # insert_by_nik env r xs)"

definition order_by_nik :: "pgenv \<Rightarrow> kar_row list \<Rightarrow> kar_row list" where
  "order_by_nik env t = foldr (insert_by_nik env) t []"

text \<open>The rows of the list query; \<open>LIMIT\<close> and \<open>OFFSET\<close> are read from the arguments.\<close>

definition list_query_rows :: "pgenv \<Rightarrow> kar_filter \<Rightarrow> pgarg list \<Rightarrow> kar_row list \<Rightarrow> kar_row list" where
  "list_query_rows env f args t =
     (let (conds, args0) = list_where f; n = int (length args0)
      in take (nat (arg_int args (n + 1)))
           (drop (nat (arg_int args (n + 2)))
             (order_by_nik env (select_where env (conds, args) t))))"

text \<open>
  The loop over \<open>rows.Next()\<close>: a scan error returns at once, a broken iteration ends the loop
  early and is reported by \<open>rows.Err()\<close> beside the rows read so far.
\<close>

fun list_scan :: "pgenv \<Rightarrow> kar_row list \<Rightarrow> karyawan list \<Rightarrow> goerr + karyawan list" where
  "list_scan env [] out = Inr out"
| "list_scan env (r # rs) out =
     (case pg_scan env r of
        Some e \<Rightarrow> Inl (ErrWrap ''scan list'' e)
      | None \<Rightarrow> list_scan env rs (out @ [scan_row r]))"

text \<open>
  The three results of \<open>List\<close>. Its two statements run outside a transaction, each on the table
  as it then is: the count on \<open>t0\<close>, the page on \<open>t\<close>. They are one table when nothing is
  written in between.
\<close>

type_synonym list_result = "karyawan list \<times> int \<times> goerr option"

definition repo_list_at :: "pgenv \<Rightarrow> kar_filter \<Rightarrow> kar_row list \<Rightarrow> kar_row list \<Rightarrow> list_result" where
  "repo_list_at env f t0 t =
     (let limit = eff_limit (f_limit f);
          offset = eff_offset (f_offset f);
          (conds, args) = list_where f;
          args' = args @ [ArgInt limit, ArgInt offset]
      in case pg_fault env (count_sql f) args of
           Some (e, applied) \<Rightarrow> ([], 0, Some (ErrWrap ''count'' e))
         | None \<Rightarrow>
             (let total = int (length (select_where env (conds, args) t0))
              in case pg_fault env (list_sql f) args' of
                   Some (e, applied) \<Rightarrow> ([], 0, Some (ErrWrap ''list'' e))
                 | None \<Rightarrow>
                     (let rows = list_query_rows env f args' t;
                          (seen, brk) = (case pg_rows_err env of
                             None \<Rightarrow> (rows, None)
                           | Some (n, e) \<Rightarrow> (if n < length rows then take n rows else rows, Some e))
                      in case list_scan env seen [] of
                           Inl e \<Rightarrow> ([], 0, Some e)
                         | Inr out \<Rightarrow> (out, total, brk))))"

definition repo_list :: "pgenv \<Rightarrow> kar_filter \<Rightarrow> kar_row list \<Rightarrow> list_result" where
  "repo_list env f t = repo_list_at env f t t"

section \<open>The specification of a filter\<close>

definition opt_eq :: "string \<Rightarrow> string option \<Rightarrow> bool" where
  "opt_eq want col \<longleftrightarrow> want = [] \<or> col = Some want"

definition opt_like :: "pgenv \<Rightarrow> string \<Rightarrow> string option \<Rightarrow> bool" where
  "opt_like env want col \<longleftrightarrow>
     want = [] \<or> (case col of None \<Rightarrow> False | Some x \<Rightarrow> pg_ilike env x (''%'' @ want @ ''%''))"

definition matches_text :: "pgenv \<Rightarrow> kar_filter \<Rightarrow> kar_row \<Rightarrow> bool" where
  "matches_text env f r \<longleftrightarrow>
     opt_eq (f_nik_hris f) (Some (kr_nik_hris r)) \<and> opt_eq (f_nik_santos f) (kr_nik_santos r)
     \<and> opt_like env (f_nama_karyawan f) (Some (kr_nama_karyawan r))
     \<and> opt_like env (f_departemen f) (kr_nama_departemen r)
     \<and> opt_like env (f_jabatan f) (kr_nama_jabatan r)
     \<and> opt_eq (f_lokasi f) (kr_lokasi r)"

definition matches_status :: "bool option \<Rightarrow> kar_row \<Rightarrow> bool" where
  "matches_status st r \<longleftrightarrow> (case st of None \<Rightarrow> True | Some b \<Rightarrow> b = (kr_tgl_keluar r = None))"

definition matches :: "pgenv \<Rightarrow> kar_filter \<Rightarrow> kar_row \<Rightarrow> bool" where
  "matches env f r \<longleftrightarrow> matches_text env f r \<and> matches_status (f_status_aktif f) r"

section \<open>What the conditions select\<close>

text \<open>
  \<open>acc_means env acc P\<close>: whatever arguments are appended later, the conditions so far select
  the rows with \<open>P\<close>.
\<close>

definition acc_means :: "pgenv \<Rightarrow> where_acc \<Rightarrow> (kar_row \<Rightarrow> bool) \<Rightarrow> bool" where
  "acc_means env acc P \<longleftrightarrow>
     (\<forall>rest r. list_all (\<lambda>c. clause_holds env (snd acc @ rest) c r) (fst acc) = P r)"

lemma arg_text_next [simp]: "arg_text (args @ ArgText v # rest) (int (length args) + 1) = Some v"
  by (simp add: arg_text_def)

lemma acc_means_Nil: "acc_means env ([], []) (\<lambda>_. True)"
  by (simp add: acc_means_def)

lemma acc_means_append:
  assumes "acc_means env acc P"
  shows "list_all (\<lambda>c. clause_holds env (snd acc @ args) c r) (fst acc) = P r"
  using assms by (simp add: acc_means_def)

lemma acc_means_eq:
  "acc_means env acc P \<Longrightarrow> acc_means env (add_eq c v acc) (\<lambda>r. P r \<and> opt_eq v (column_text c r))"
  by (auto simp: acc_means_def add_eq_def add_cond_def next_param_def opt_eq_def split: option.splits)

lemma acc_means_ilike:
  "acc_means env acc P \<Longrightarrow> acc_means env (add_ilike c v acc) (\<lambda>r. P r \<and> opt_like env v (column_text c r))"
  by (auto simp: acc_means_def add_ilike_def add_cond_def next_param_def opt_like_def split: option.splits)

lemma acc_means_status:
  "acc_means env acc P \<Longrightarrow> acc_means env (add_status st acc) (\<lambda>r. P r \<and> matches_status st r)"
  by (auto simp: acc_means_def add_status_def add_cond_def matches_status_def split: option.splits bool.splits)

lemmas acc_means_intros = acc_means_Nil acc_means_eq acc_means_ilike acc_means_status

lemma list_where_means: "acc_means env (list_where f) (matches env f)"
proof -
  have "acc_means env (list_where f)
    (\<lambda>r. ((((((True \<and> opt_eq (f_nik_hris f) (column_text ColNikHris r))
      \<and> opt_eq (f_nik_santos f) (column_text ColNikSantos r))
      \<and> opt_like env (f_nama_karyawan f) (column_text ColNama r))
      \<and> opt_like env (f_departemen f) (column_text ColDepartemen r))
      \<and> opt_like env (f_jabatan f) (column_text ColJabatan r))
      \<and> opt_eq (f_lokasi f) (column_text ColLokasi r))
      \<and> matches_status (f_status_aktif f) r)"
    unfolding list_where_def Let_def by (intro acc_means_intros)
  moreover have "(\<lambda>r. ((((((True \<and> opt_eq (f_nik_hris f) (column_text ColNikHris r))
      \<and> opt_eq (f_nik_santos f) (column_text ColNikSantos r))
      \<and> opt_like env (f_nama_karyawan f) (column_text ColNama r))
      \<and> opt_like env (f_departemen f) (column_text ColDepartemen r))
      \<and> opt_like env (f_jabatan f) (column_text ColJabatan r))
      \<and> opt_eq (f_lokasi f) (column_text ColLokasi r))
      \<and> matches_status (f_status_aktif f) r) = matches env f"
    by (rule ext) (simp add: matches_def matches_text_def)
  ultimately show ?thesis by simp
qed

lemma select_where_matches:
  "select_where env (fst (list_where f), snd (list_where f) @ rest) t = filter (matches env f) t"
  using list_where_means [of env f] by (simp add: select_where_def acc_means_def)

lemma select_where_matches0: "select_where env (list_where f) t = filter (matches env f) t"
  using select_where_matches [of env f "[]"] by simp

section \<open>The placeholders of the two statements\<close>

lemma sql_params_nonneg [simp]: "0 \<le> sql_params s"
  by (induction s) (auto simp: le_max_iff_disj)

lemma sql_params_append:
  "ys = [] \<or> \<not> is_digit (hd ys) \<Longrightarrow> sql_params (xs @ ys) = max (sql_params xs) (sql_params ys)"
proof (induction xs)
  case Nil
  then show ?case by simp
next
  case (Cons x xs)
  have "takeWhile is_digit ys = []" using Cons.prems by (cases ys) auto
  then have "takeWhile is_digit (xs @ ys) = takeWhile is_digit xs"
    by (induction xs) auto
  with Cons show ?case by (simp add: max.assoc)
qed

lemma list_all_itoa: "0 < n \<Longrightarrow> list_all is_digit (itoa n)"
  using itoa_loop_digits [of n] by (simp add: itoa_pos)

lemma sql_params_itoa0: "0 < n \<Longrightarrow> sql_params (itoa n) = 0"
proof -
  have "sql_params s = 0" if "list_all is_digit s" for s
    using that by (induction s) (auto simp: is_digit_def digit_val_def)
  then show "0 < n \<Longrightarrow> ?thesis" by (simp add: list_all_itoa)
qed

lemma sql_params_itoa1:
  assumes "0 < n" and "n < 2 ^ 64"
  shows "fst (parse_uint_loop 0 (takeWhile is_digit (itoa n))) = n"
proof -
  have "takeWhile is_digit (itoa n) = itoa n"
    using list_all_itoa [OF assms(1)] by (simp only: takeWhile_eq_all_conv list_all_iff)
  moreover have "fst (parse_uint_loop 0 (itoa n)) = n"
    using assms by (simp add: itoa_pos parse_uint_loop_itoa)
  ultimately show ?thesis by (simp del: takeWhile_eq_all_conv)
qed

lemmas sql_params_simps = sql_params_append is_digit_def digit_val_def sql_params_itoa0 sql_params_itoa1

fun clause_param :: "clause \<Rightarrow> int" where
  "clause_param (CEq c n) = n"
| "clause_param (CILike c n) = n"
| "clause_param (CIsNull c) = 0"
| "clause_param (CIsNotNull c) = 0"

definition clause_params :: "clause list \<Rightarrow> int" where
  "clause_params cs = foldr (\<lambda>c m. max (clause_param c) m) cs 0"

lemma clause_params_simps [simp]:
  "clause_params [] = 0"
  "clause_params (c # cs) = max (clause_param c) (clause_params cs)"
  by (simp_all add: clause_params_def)

lemma clause_params_append: "clause_params (xs @ ys) = max (clause_params xs) (clause_params ys)"
  by (induction xs) (auto simp: max.assoc clause_params_def, induction ys, auto)

lemma column_name_params [simp]: "sql_params (column_name c) = 0"
  by (cases c) simp_all

definition clause_ok :: "clause \<Rightarrow> bool" where
  "clause_ok cl \<longleftrightarrow>
     (case cl of CEq c n \<Rightarrow> 0 < n \<and> n < 2 ^ 64 | CILike c n \<Rightarrow> 0 < n \<and> n < 2 ^ 64 | _ \<Rightarrow> True)"

lemma clause_text_params: "clause_ok cl \<Longrightarrow> sql_params (clause_text cl) = clause_param cl"
  by (cases cl) (simp_all add: clause_ok_def sql_params_simps)

lemma clause_text_hd: "clause_text cl \<noteq> [] \<and> \<not> is_digit (hd (clause_text cl))"
proof -
  have "column_name c \<noteq> [] \<and> \<not> is_digit (hd (column_name c))" for c
    by (cases c) (simp_all add: is_digit_def digit_val_def)
  then show ?thesis by (cases cl) (simp_all add: hd_append)
qed

lemma join_params:
  "list_all clause_ok cs \<Longrightarrow> sql_params (str_join '' AND '' (map clause_text cs)) = clause_params cs"
proof (induction cs)
  case Nil
  then show ?case by simp
next
  case (Cons c cs)
  show ?case
  proof (cases cs)
    case Nil
    have "0 \<le> clause_param c" using Cons.prems by (cases c) (auto simp: clause_ok_def)
    with Nil Cons.prems show ?thesis by (simp add: clause_text_params del: clause_text.simps)
  next
    case (Cons d ds)
    have "sql_params ('' AND '' @ s) = sql_params s" for s by simp
    with Cons Cons.IH Cons.prems show ?thesis
      by (simp add: sql_params_append clause_text_params is_digit_def digit_val_def)
  qed
qed

text \<open>The invariant of \<open>add\<close> as long as every argument belongs to a placeholder.\<close>

definition acc_ok :: "nat \<Rightarrow> where_acc \<Rightarrow> bool" where
  "acc_ok k acc \<longleftrightarrow> list_all clause_ok (fst acc) \<and> length (snd acc) \<le> k
     \<and> clause_params (fst acc) = int (length (snd acc))"

lemma acc_ok_eq: "acc_ok k acc \<Longrightarrow> k < 100 \<Longrightarrow> acc_ok (Suc k) (add_eq c v acc)"
  by (auto simp: acc_ok_def add_eq_def add_cond_def next_param_def clause_ok_def clause_params_append)

lemma acc_ok_ilike: "acc_ok k acc \<Longrightarrow> k < 100 \<Longrightarrow> acc_ok (Suc k) (add_ilike c v acc)"
  by (auto simp: acc_ok_def add_ilike_def add_cond_def next_param_def clause_ok_def clause_params_append)

definition text_where :: "kar_filter \<Rightarrow> where_acc" where
  "text_where f =
     add_eq ColLokasi (f_lokasi f)
       (add_ilike ColJabatan (f_jabatan f)
         (add_ilike ColDepartemen (f_departemen f)
           (add_ilike ColNama (f_nama_karyawan f)
             (add_eq ColNikSantos (f_nik_santos f)
               (add_eq ColNikHris (f_nik_hris f) ([], []))))))"

lemma list_where_text: "list_where f = add_status (f_status_aktif f) (text_where f)"
  by (simp add: list_where_def text_where_def Let_def)

lemma text_where_ok: "acc_ok 6 (text_where f)"
proof -
  have "acc_ok 0 ([], [])" by (simp add: acc_ok_def)
  then have "acc_ok (Suc (Suc (Suc (Suc (Suc (Suc 0)))))) (text_where f)"
    unfolding text_where_def by (intro acc_ok_eq acc_ok_ilike) simp_all
  then show ?thesis by (simp add: eval_nat_numeral)
qed

lemma where_text_params: "list_all clause_ok cs \<Longrightarrow> sql_params (where_text cs) = clause_params cs"
proof -
  assume ok: "list_all clause_ok cs"
  have "sql_params (''WHERE '' @ s) = sql_params s" for s by simp
  with join_params [OF ok] show ?thesis by (cases cs) (simp_all add: where_text_def)
qed

lemma where_text_hd: "where_text cs = [] \<or> \<not> is_digit (hd (where_text cs))"
  by (simp add: where_text_def is_digit_def digit_val_def)

lemma list_where_params:
  "sql_params (where_text (fst (list_where f))) = clause_params (fst (text_where f))"
  "list_all clause_ok (fst (list_where f))"
proof -
  have "list_all clause_ok (fst (text_where f))" and "0 \<le> clause_params (fst (text_where f))"
    using text_where_ok [of f] by (simp_all add: acc_ok_def)
  then have "list_all clause_ok (fst (list_where f))
      \<and> clause_params (fst (list_where f)) = clause_params (fst (text_where f))"
    by (auto simp: list_where_text add_status_def add_cond_def clause_ok_def clause_params_append
        split: option.splits bool.splits)
  then show "sql_params (where_text (fst (list_where f))) = clause_params (fst (text_where f))"
    and "list_all clause_ok (fst (list_where f))"
    by (simp_all add: where_text_params)
qed

lemma count_sql_params: "sql_params (count_sql f) = int (length (snd (text_where f)))"
proof -
  have "sql_params (''SELECT COUNT(*) FROM karyawan '' @ s) = sql_params s" for s by simp
  then show ?thesis
    using text_where_ok [of f] by (simp add: count_sql_def list_where_params acc_ok_def)
qed

lemma kar_select_params: "sql_params kar_select = 0"
  by code_simp

lemma length_list_where:
  "length (snd (list_where f)) = length (snd (text_where f)) + (if f_status_aktif f = None then 0 else 1)"
  by (auto simp: list_where_text add_status_def add_cond_def split: option.splits bool.splits)

lemma list_sql_params: "sql_params (list_sql f) = int (length (snd (list_where f))) + 2"
proof -
  let ?n = "int (length (snd (list_where f)))"
  have n: "0 \<le> ?n" "?n + 2 < 2 ^ 64" "int (length (snd (text_where f))) \<le> ?n"
    using text_where_ok [of f] by (auto simp: acc_ok_def length_list_where)
  define tl where "tl = nl @ ''ORDER BY nik_hris ASC'' @ nl @
         ''LIMIT $'' @ itoa (?n + 1) @ '' OFFSET $'' @ itoa (?n + 2)"
  have "sql_params (itoa (?n + 1) @ CHR '' '' # s) = sql_params (CHR '' '' # s)" for s
    using n by (simp add: sql_params_append is_digit_def digit_val_def sql_params_itoa0)
  moreover have "takeWhile is_digit (itoa (?n + 1) @ CHR '' '' # s) = takeWhile is_digit (itoa (?n + 1))" for s
  proof -
    have "takeWhile is_digit (CHR '' '' # s) = []" by (simp add: is_digit_def digit_val_def)
    moreover have "takeWhile is_digit (xs @ CHR '' '' # s) = takeWhile is_digit xs" for xs
      by (induction xs) (simp_all add: is_digit_def digit_val_def)
    ultimately show ?thesis by simp
  qed
  ultimately have "sql_params tl = ?n + 2"
    using n by (simp add: tl_def sql_params_itoa0 sql_params_itoa1)
  moreover have "tl \<noteq> [] \<and> \<not> is_digit (hd tl)" by (simp add: tl_def is_digit_def digit_val_def)
  moreover have "list_sql f = kar_select @ where_text (fst (list_where f)) @ tl"
    by (simp add: list_sql_def tl_def split_beta Let_def)
  ultimately show ?thesis
    using n where_text_hd [of "fst (list_where f)"] text_where_ok [of f]
    by (auto simp: sql_params_append kar_select_params list_where_params acc_ok_def hd_append)
qed

section \<open>Ordering\<close>

text \<open>A collation is a total, transitive comparison.\<close>

definition collation :: "pgenv \<Rightarrow> bool" where
  "collation env \<longleftrightarrow>
     (\<forall>x y. pg_le env x y \<or> pg_le env y x)
     \<and> (\<forall>x y z. pg_le env x y \<and> pg_le env y z \<longrightarrow> pg_le env x z)"

lemma collation_trans: "collation env \<Longrightarrow> pg_le env x y \<Longrightarrow> pg_le env y z \<Longrightarrow> pg_le env x z"
  unfolding collation_def by blast

lemma mset_insert_by_nik: "mset (insert_by_nik env r xs) = add_mset r (mset xs)"
  by (induction xs) auto

lemma mset_order_by_nik: "mset (order_by_nik env t) = mset t"
  by (induction t) (simp_all add: order_by_nik_def mset_insert_by_nik)

lemma length_order_by_nik [simp]: "length (order_by_nik env t) = length t"
  by (metis mset_order_by_nik size_mset)

lemma set_insert_by_nik: "set (insert_by_nik env r xs) = insert r (set xs)"
  by (induction xs) auto

abbreviation nik_sorted :: "pgenv \<Rightarrow> kar_row list \<Rightarrow> bool" where
  "nik_sorted env \<equiv> sorted_wrt (\<lambda>r s. pg_le env (kr_nik_hris r) (kr_nik_hris s))"

lemma sorted_insert_by_nik:
  assumes "collation env" and "nik_sorted env xs"
  shows "nik_sorted env (insert_by_nik env r xs)"
  using assms(2)
proof (induction xs)
  case Nil
  then show ?case by simp
next
  case (Cons x xs)
  show ?case
  proof (cases "pg_le env (kr_nik_hris r) (kr_nik_hris x)")
    case True
    moreover have "pg_le env (kr_nik_hris r) (kr_nik_hris s)" if "s \<in> set xs" for s
      using True that Cons.prems by (intro collation_trans [OF assms(1) True]) simp
    ultimately show ?thesis using Cons.prems by simp
  next
    case False
    then have "pg_le env (kr_nik_hris x) (kr_nik_hris r)"
      using assms(1) unfolding collation_def by blast
    with False Cons show ?thesis by (simp add: set_insert_by_nik)
  qed
qed

lemma sorted_order_by_nik: "collation env \<Longrightarrow> nik_sorted env (order_by_nik env t)"
  by (induction t) (simp_all add: order_by_nik_def sorted_insert_by_nik)

lemma byte_le_refl: "byte_le xs xs"
  by (induction xs) auto

lemma byte_le_total: "byte_le xs ys \<or> byte_le ys xs"
proof (induction xs ys rule: byte_le.induct)
  case (3 x xs y ys)
  consider "(of_char x :: nat) < of_char y" | "(of_char y :: nat) < of_char x" | "x = y"
    using linorder_less_linear [of "of_char x :: nat" "of_char y"] by auto
  then show ?case using 3 by cases simp_all
qed simp_all

lemma byte_le_trans: "byte_le xs ys \<Longrightarrow> byte_le ys zs \<Longrightarrow> byte_le xs zs"
proof (induction xs arbitrary: ys zs)
  case Nil
  then show ?case by simp
next
  case (Cons x xs)
  then show ?case by (cases ys; cases zs) (auto dest: order.strict_trans)
qed

lemma collation_pg_ref: "collation pg_ref"
  using byte_le_total byte_le_trans by (auto simp: collation_def pg_ref_def)

section \<open>What List returns\<close>

lemma list_scan_ok:
  "(\<And>r. r \<in> set rs \<Longrightarrow> pg_scan env r = None) \<Longrightarrow> list_scan env rs out = Inr (out @ map scan_row rs)"
  by (induction rs arbitrary: out) auto

lemma arg_int_tail [simp]:
  "arg_int (args @ [ArgInt l, ArgInt k]) (int (length args) + 1) = l"
  "arg_int (args @ [ArgInt l, ArgInt k]) (int (length args) + 2) = k"
  by (simp_all add: arg_int_def nth_append nat_add_distrib)

definition selected :: "pgenv \<Rightarrow> kar_filter \<Rightarrow> kar_row list \<Rightarrow> kar_row list" where
  "selected env f t = order_by_nik env (filter (matches env f) t)"

lemma list_query_rows_page:
  "list_query_rows env f (snd (list_where f) @ [ArgInt l, ArgInt k]) t =
   take (nat l) (drop (nat k) (selected env f t))"
  using select_where_matches [of env f "[ArgInt l, ArgInt k]" t]
  by (simp add: list_query_rows_def selected_def split_beta Let_def)

lemma pg_healthy_fault:
  "pg_healthy env \<Longrightarrow> sql_params q = int (length args) \<Longrightarrow> pg_fault env q args = None"
  by (auto simp: pg_healthy_def)

lemma pg_healthy_rows: "pg_healthy env \<Longrightarrow> pg_scan env r = None \<and> pg_rows_err env = None"
  by (auto simp: pg_healthy_def)

lemma repo_list_at_healthy:
  assumes "pg_healthy env" and "f_status_aktif f = None"
  shows "repo_list_at env f t0 t =
    (map scan_row (take (nat (eff_limit (f_limit f))) (drop (nat (eff_offset (f_offset f))) (selected env f t))),
     int (length (filter (matches env f) t0)), None)"
proof -
  have "pg_fault env (count_sql f) (snd (list_where f)) = None"
    using assms by (intro pg_healthy_fault) (simp_all add: count_sql_params length_list_where)
  moreover have "pg_fault env (list_sql f) (snd (list_where f) @ [ArgInt l, ArgInt k]) = None" for l k
    using assms by (intro pg_healthy_fault) (simp_all add: list_sql_params)
  ultimately show ?thesis
    using pg_healthy_rows [OF assms(1)]
    by (simp add: repo_list_at_def split_beta Let_def list_query_rows_page list_scan_ok select_where_matches0)
qed

lemmas repo_list_healthy = repo_list_at_healthy [where ?t0.0 = t and t = t for t, folded repo_list_def]

lemma repo_list_at_status_fails:
  assumes "pgx_arity env" and "f_status_aktif f = Some b"
  shows "\<exists>e. repo_list_at env f t0 t = ([], 0, Some (ErrWrap ''count'' e))"
proof -
  have "sql_params (count_sql f) \<noteq> int (length (snd (list_where f)))"
    using assms(2) by (simp add: count_sql_params length_list_where)
  then obtain e where "pg_fault env (count_sql f) (snd (list_where f)) = Some (e, False)"
    using assms(1) by (auto simp: pgx_arity_def)
  then show ?thesis by (simp add: repo_list_at_def split_beta Let_def)
qed

lemmas repo_list_status_fails = repo_list_at_status_fails [where ?t0.0 = t and t = t for t, folded repo_list_def]

lemma eff_limit_bounds: "1 \<le> eff_limit l" "eff_limit l \<le> 500" "1 \<le> l \<and> l \<le> 500 \<Longrightarrow> eff_limit l = l"
  by (auto simp: eff_limit_def)

text \<open>The text of the statements depends on which filters are present, not on their values.\<close>

definition same_shape :: "where_acc \<Rightarrow> where_acc \<Rightarrow> bool" where
  "same_shape a b \<longleftrightarrow> fst a = fst b \<and> length (snd a) = length (snd b)"

lemma same_shape_add:
  "same_shape a b \<Longrightarrow> (v = []) = (w = []) \<Longrightarrow> same_shape (add_eq c v a) (add_eq c w b)"
  "same_shape a b \<Longrightarrow> (v = []) = (w = []) \<Longrightarrow> same_shape (add_ilike c v a) (add_ilike c w b)"
  "same_shape a b \<Longrightarrow> same_shape (add_status st a) (add_status st b)"
  by (auto simp: same_shape_def add_eq_def add_ilike_def add_status_def add_cond_def next_param_def
      split: option.splits bool.splits)

definition same_fields :: "kar_filter \<Rightarrow> kar_filter \<Rightarrow> bool" where
  "same_fields f g \<longleftrightarrow>
     (f_nik_hris f = []) = (f_nik_hris g = []) \<and> (f_nik_santos f = []) = (f_nik_santos g = [])
     \<and> (f_nama_karyawan f = []) = (f_nama_karyawan g = []) \<and> (f_departemen f = []) = (f_departemen g = [])
     \<and> (f_jabatan f = []) = (f_jabatan g = []) \<and> (f_lokasi f = []) = (f_lokasi g = [])
     \<and> f_status_aktif f = f_status_aktif g"

lemma same_shape_list_where: "same_fields f g \<Longrightarrow> same_shape (list_where f) (list_where g)"
proof -
  assume f: "same_fields f g"
  have "same_shape ([], []) ([], [])" by (simp add: same_shape_def)
  with f show ?thesis
    unfolding list_where_text text_where_def same_fields_def by (simp add: same_shape_add)
qed

section \<open>Properties\<close>

text \<open>
  \<open>List\<close> without a status filter, on a server that executes well-formed
  statements: the total is the number of rows the filter matches, and the page is, in NIK
  order, the slice of the matching rows that limit and offset select, a limit outside 1..500
  counting as 50 and a negative offset as 0. What a filter matches is said without the SQL, so
  this includes that every placeholder of the generated statement meets its own argument.
\<close>

theorem list_page:
  assumes "pg_healthy env" and "f_status_aktif f = None"
  shows "repo_list env f t =
    (map scan_row
       (take (nat (if f_limit f \<le> 0 \<or> f_limit f > 500 then 50 else f_limit f))
         (drop (nat (f_offset f)) (order_by_nik env (filter (matches env f) t)))),
     int (length (filter (matches env f) t)), None)"
proof -
  have "nat (eff_offset (f_offset f)) = nat (f_offset f)" by (simp add: eff_offset_def)
  then show ?thesis
    using repo_list_healthy [OF assms] by (simp add: eff_limit_def selected_def)
qed

definition any_filter :: kar_filter where
  "any_filter =
     \<lparr>f_nik_hris = [], f_nik_santos = [], f_nama_karyawan = [], f_departemen = [], f_jabatan = [],
      f_lokasi = [], f_status_aktif = None, f_limit = 0, f_offset = 0\<rparr>"

text \<open>A table of three employees for evaluation.\<close>

definition sample_table :: "kar_row list" where
  "sample_table =
     map (upsert_row pg_ref 7)
       [sample_kar ''C3'', (sample_kar ''A1'')\<lparr>k_lokasi := ''SBY''\<rparr>, sample_kar ''B2'']"

lemma sample_table_rows:
  "map kr_nik_hris sample_table = [''C3'', ''A1'', ''B2'']"
  "map kr_lokasi sample_table = [Some ''JKT'', Some ''SBY'', Some ''JKT'']"
  by (simp_all add: sample_table_def upsert_row_def sample_kar_def)

lemma list_page_witness:
  "map k_nik_hris (fst (repo_list pg_ref (any_filter\<lparr>f_lokasi := ''JKT'', f_limit := 1, f_offset := 1\<rparr>) sample_table))
     = [''C3'']"
proof -
  have "repo_list pg_ref (any_filter\<lparr>f_lokasi := ''JKT'', f_limit := 1, f_offset := 1\<rparr>) sample_table =
    (map scan_row (take 1 (drop 1 (order_by_nik pg_ref
        (filter (matches pg_ref (any_filter\<lparr>f_lokasi := ''JKT'', f_limit := 1, f_offset := 1\<rparr>)) sample_table)))),
     int (length (filter (matches pg_ref (any_filter\<lparr>f_lokasi := ''JKT'', f_limit := 1, f_offset := 1\<rparr>)) sample_table)), None)"
    using list_page [OF pg_ref_healthy, of "any_filter\<lparr>f_lokasi := ''JKT'', f_limit := 1, f_offset := 1\<rparr>" sample_table]
    by (simp add: any_filter_def)
  then show ?thesis
    by (simp add: sample_table_def sample_kar_def upsert_row_def matches_def matches_text_def
        matches_status_def opt_eq_def opt_like_def any_filter_def order_by_nik_def pg_ref_def
        scan_row_def)
qed

text \<open>
  Property C16. Paging through a listing without a status filter shows everything once: the pages of size \<open>L\<close> at the
  offsets \<open>0, L, 2L, ...\<close>, enough of them to reach the total, together hold exactly the
  matching rows, with their multiplicity and in the server's NIK order.
\<close>

theorem pages_cover:
  assumes "pg_healthy env" and "collation env" and "f_status_aktif f = None"
    and "1 \<le> L" and "L \<le> 500" and "int (length (filter (matches env f) t)) \<le> int n * L"
  shows "\<exists>rows. concat (map (\<lambda>i. fst (repo_list env (f\<lparr>f_limit := L, f_offset := int i * L\<rparr>) t)) [0..<n])
      = map scan_row rows
    \<and> mset rows = mset (filter (matches env f) t)
    \<and> sorted_wrt (\<lambda>r s. pg_le env (kr_nik_hris r) (kr_nik_hris s)) rows"
proof -
  let ?rows = "order_by_nik env (filter (matches env f) t)"
  have same: "matches env (f\<lparr>f_limit := L, f_offset := k\<rparr>) = matches env f" for k
    by (rule ext) (simp add: matches_def matches_text_def)
  have page: "fst (repo_list env (f\<lparr>f_limit := L, f_offset := int i * L\<rparr>) t)
      = map scan_row (take (nat L) (drop (i * nat L) ?rows))" for i
  proof -
    have "eff_offset (int i * L) = int i * L" "nat (int i * L) = i * nat L" "eff_limit L = L"
      using assms(4,5) by (simp_all add: eff_offset_def eff_limit_def nat_mult_distrib mult_less_0_iff)
    then show ?thesis
      using assms(3) repo_list_healthy [OF assms(1), of "f\<lparr>f_limit := L, f_offset := int i * L\<rparr>" t]
      by (simp add: selected_def same)
  qed
  have "concat (map (\<lambda>i. fst (repo_list env (f\<lparr>f_limit := L, f_offset := int i * L\<rparr>) t)) [0..<n])
      = map scan_row (concat (map (\<lambda>i. take (nat L) (drop (i * nat L) ?rows)) [0..<n]))"
    by (simp add: page map_concat o_def)
  also have "\<dots> = map scan_row (take (n * nat L) ?rows)"
    by (simp only: concat_chunks)
  also have "take (n * nat L) ?rows = ?rows"
  proof -
    have "length ?rows \<le> nat (int n * L)" using assms(6) by simp
    also have "\<dots> = n * nat L" using assms(4) by (simp add: nat_mult_distrib)
    finally show ?thesis by simp
  qed
  finally show ?thesis
    using mset_order_by_nik sorted_order_by_nik [OF assms(2)] by blast
qed

lemma pages_cover_witness:
  "\<exists>rows. concat (map (\<lambda>i. fst (repo_list pg_ref (any_filter\<lparr>f_limit := 2, f_offset := int i * 2\<rparr>) sample_table)) [0..<2])
      = map scan_row rows
    \<and> mset rows = mset (filter (matches pg_ref any_filter) sample_table)
    \<and> sorted_wrt (\<lambda>r s. pg_le pg_ref (kr_nik_hris r) (kr_nik_hris s)) rows"
proof (rule pages_cover [OF pg_ref_healthy collation_pg_ref])
  show "int (length (filter (matches pg_ref any_filter) sample_table)) \<le> int 2 * 2"
    by (rule order_trans [where y = "int (length sample_table)"]) (simp_all add: sample_table_def)
qed (simp_all add: any_filter_def)

text \<open>
  Every request with a status filter fails. The condition \<open>tgl_keluar IS [NOT]
  NULL\<close> has no placeholder, but \<open>add\<close> appends an argument for it all the same, so the count
  statement has one argument more than parameters and the driver refuses it: \<open>List\<close> returns
  the error of the count query, for every filter, table and value of the flag.
\<close>

theorem status_filter_fails:
  assumes "pgx_arity env" and "f_status_aktif f = Some b"
  shows "\<exists>e. repo_list env f t = ([], 0, Some (ErrWrap ''count'' e))"
  using assms by (rule repo_list_status_fails)

lemma status_filter_fails_witness:
  "\<exists>e. repo_list pg_ref (any_filter\<lparr>f_status_aktif := Some True\<rparr>) sample_table = ([], 0, Some (ErrWrap ''count'' e))"
  by (rule status_filter_fails [OF pg_ref_arity]) simp

text \<open>
  Property C33. No user input reaches the text of a statement. Of a filter the text depends on which of its
  six text fields are present and on the status flag, absent, true or false: two filters that agree
  on these, whatever the values of the fields, the limits and the offsets, give the same count
  statement and the same page statement. The page statement always has as many parameters as
  arguments; the count statement has exactly when the status flag is absent.
\<close>

theorem list_sql_values_are_arguments:
  assumes "(f_nik_hris f = []) = (f_nik_hris g = [])" and "(f_nik_santos f = []) = (f_nik_santos g = [])"
    and "(f_nama_karyawan f = []) = (f_nama_karyawan g = [])" and "(f_departemen f = []) = (f_departemen g = [])"
    and "(f_jabatan f = []) = (f_jabatan g = [])" and "(f_lokasi f = []) = (f_lokasi g = [])"
    and "f_status_aktif f = f_status_aktif g"
  shows "count_sql f = count_sql g \<and> list_sql f = list_sql g
    \<and> sql_params (list_sql f) = int (length (snd (list_where f) @ [ArgInt (f_limit f), ArgInt (f_offset f)]))
    \<and> (sql_params (count_sql f) = int (length (snd (list_where f))) \<longleftrightarrow> f_status_aktif f = None)"
proof -
  have "same_shape (list_where f) (list_where g)"
    using assms by (intro same_shape_list_where) (simp add: same_fields_def)
  then have "count_sql f = count_sql g" and "list_sql f = list_sql g"
    by (simp_all add: same_shape_def count_sql_def list_sql_def split_beta Let_def)
  moreover have "sql_params (count_sql f) = int (length (snd (list_where f))) \<longleftrightarrow> f_status_aktif f = None"
    by (simp add: count_sql_params length_list_where)
  moreover have "sql_params (list_sql f) = int (length (snd (list_where f) @ [ArgInt (f_limit f), ArgInt (f_offset f)]))"
    by (simp add: list_sql_params)
  ultimately show ?thesis by blast
qed

lemma list_sql_values_are_arguments_witness:
  "count_sql (any_filter\<lparr>f_lokasi := ''JKT''\<rparr>) = count_sql (any_filter\<lparr>f_lokasi := CHR 0x27 # '' OR 1=1'', f_limit := 7\<rparr>)"
  using list_sql_values_are_arguments
    [of "any_filter\<lparr>f_lokasi := ''JKT''\<rparr>" "any_filter\<lparr>f_lokasi := CHR 0x27 # '' OR 1=1'', f_limit := 7\<rparr>"]
  by simp

end
