(* ===== verification/Json.thy ===== *)
theory Json
  imports GoStrconv GoTime Karyawan
begin

text \<open>
  The part of Go's \<open>encoding/json\<close> that the program uses: encoding of strings (escapes,
  HTML-safe, invalid UTF-8 replaced), integers, \<open>nil\<close>, times, slices, structs and maps. A
  struct is encoded in field order, a map in the byte order of its keys.
\<close>

section \<open>Strings\<close>

abbreviation code_of :: "char \<Rightarrow> nat" where
  "code_of c \<equiv> of_char c"

definition utf8_cont :: "char \<Rightarrow> bool" where
  "utf8_cont c \<longleftrightarrow> 128 \<le> code_of c \<and> code_of c < 192"

text \<open>The length of the UTF-8 sequence a string starts with, 0 when its first byte starts none.\<close>

fun utf8_len :: "string \<Rightarrow> nat" where
  "utf8_len (a # b # c # d # s) =
     (let x = code_of a; y = code_of b in
      if x < 128 then 1
      else if 194 \<le> x \<and> x < 224 \<and> utf8_cont b then 2
      else if 224 \<le> x \<and> x < 240 \<and> utf8_cont b \<and> utf8_cont c \<and> (x \<noteq> 224 \<or> 160 \<le> y) \<and> (x \<noteq> 237 \<or> y < 160) then 3
      else if 240 \<le> x \<and> x < 245 \<and> utf8_cont b \<and> utf8_cont c \<and> utf8_cont d
           \<and> (x \<noteq> 240 \<or> 144 \<le> y) \<and> (x \<noteq> 244 \<or> y < 144) then 4
      else 0)"
| "utf8_len [a, b, c] =
     (let x = code_of a; y = code_of b in
      if x < 128 then 1
      else if 194 \<le> x \<and> x < 224 \<and> utf8_cont b then 2
      else if 224 \<le> x \<and> x < 240 \<and> utf8_cont b \<and> utf8_cont c \<and> (x \<noteq> 224 \<or> 160 \<le> y) \<and> (x \<noteq> 237 \<or> y < 160) then 3
      else 0)"
| "utf8_len [a, b] =
     (let x = code_of a in if x < 128 then 1 else if 194 \<le> x \<and> x < 224 \<and> utf8_cont b then 2 else 0)"
| "utf8_len [a] = (if code_of a < 128 then 1 else 0)"
| "utf8_len [] = 0"

definition backslash :: char where
  "backslash = CHR 0x5C"

definition dquote :: char where
  "dquote = CHR 0x22"

definition json_hex :: "nat \<Rightarrow> char" where
  "json_hex n = (if n < 10 then char_of (48 + n) else char_of (87 + n))"

text \<open>One byte below \<open>0x80\<close>; \<open><\<close>, \<open>>\<close> and \<open>&\<close> are escaped for HTML.\<close>

definition json_ascii :: "char \<Rightarrow> string" where
  "json_ascii c =
     (let n = code_of c in
      if n = 34 \<or> n = 92 then [backslash, c]
      else if n = 8 then backslash # ''b''
      else if n = 12 then backslash # ''f''
      else if n = 10 then backslash # ''n''
      else if n = 13 then backslash # ''r''
      else if n = 9 then backslash # ''t''
      else if n < 32 \<or> n = 38 \<or> n = 60 \<or> n = 62
        then backslash # ''u00'' @ [json_hex (n div 16), json_hex (n mod 16)]
      else [c])"

function json_escape :: "string \<Rightarrow> string" where
  "json_escape [] = []"
| "json_escape (c # s) =
     (let k = utf8_len (c # s) in
      if code_of c < 128 then json_ascii c @ json_escape s
      else if k = 0 then backslash # ''ufffd'' @ json_escape s
      else if map code_of (take k (c # s)) \<in> {[226, 128, 168], [226, 128, 169]}
        then backslash # ''u202'' @ [json_hex (code_of (s ! 1) mod 16)] @ json_escape (drop (k - 1) s)
      else take k (c # s) @ json_escape (drop (k - 1) s))"
  by pat_completeness auto
termination
  by (relation "measure length") auto

definition json_string :: "string \<Rightarrow> string" where
  "json_string s = dquote # json_escape s @ [dquote]"

section \<open>Values\<close>

datatype jval =
    JNull
  | JInt int
  | JStr string
  | JTime micros
  | JArr "jval list"
  | JObj "(string \<times> jval) list"

text \<open>Keys of a \<open>map[string]any\<close>, sorted.\<close>

fun json_insert_key :: "string \<times> jval \<Rightarrow> (string \<times> jval) list \<Rightarrow> (string \<times> jval) list" where
  "json_insert_key kv [] = [kv]"
| "json_insert_key kv (x # xs) = (if byte_le (fst kv) (fst x) then kv # x # xs else x # json_insert_key kv xs)"

definition json_map :: "(string \<times> jval) list \<Rightarrow> jval" where
  "json_map kvs = JObj (foldr json_insert_key kvs [])"

text \<open>\<open>json.Marshal\<close>: the only values here whose encoding can fail are times.\<close>

definition json_field :: "string \<Rightarrow> goerr + string \<Rightarrow> goerr + string" where
  "json_field k r = (case r of Inl e \<Rightarrow> Inl e | Inr v \<Rightarrow> Inr (json_string k @ '':'' @ v))"

fun json_seq :: "(goerr + string) list \<Rightarrow> goerr + string list" where
  "json_seq [] = Inr []"
| "json_seq (Inl e # rs) = Inl e"
| "json_seq (Inr x # rs) = (case json_seq rs of Inl e \<Rightarrow> Inl e | Inr xs \<Rightarrow> Inr (x # xs))"

definition json_wrap :: "string \<Rightarrow> string \<Rightarrow> (goerr + string) list \<Rightarrow> goerr + string" where
  "json_wrap l r items =
     (case json_seq items of Inl e \<Rightarrow> Inl e | Inr xs \<Rightarrow> Inr (l @ str_join '','' xs @ r))"

primrec json_marshal :: "jval \<Rightarrow> goerr + string" where
  "json_marshal JNull = Inr ''null''"
| "json_marshal (JInt i) = Inr (fmt_d i)"
| "json_marshal (JStr s) = Inr (json_string s)"
| "json_marshal (JTime t) =
     (case rfc3339 t of
        Inl e \<Rightarrow> Inl (ErrWrap ''json: error calling MarshalJSON for type time.Time'' e)
      | Inr s \<Rightarrow> Inr (dquote # s @ [dquote]))"
| "json_marshal (JArr vs) = json_wrap ''['' '']'' (map json_marshal vs)"
| "json_marshal (JObj kvs) =
     json_wrap ''{'' ''}'' (map (\<lambda>(k, r). json_field k r) (map (map_prod id json_marshal) kvs))"

section \<open>Facts\<close>

lemma json_seq_Inr: "json_seq (map Inr xs) = Inr xs"
  by (induction xs) auto

lemma json_seq_all_ok: "(\<And>r. r \<in> set rs \<Longrightarrow> \<exists>x. r = Inr x) \<Longrightarrow> \<exists>xs. json_seq rs = Inr xs"
proof (induction rs)
  case Nil
  then show ?case by simp
next
  case (Cons r rs)
  then obtain x xs where "r = Inr x" and "json_seq rs = Inr xs"
    by (meson list.set_intros)
  then show ?case by simp
qed

lemma json_seq_ErrD: "json_seq rs = Inl e \<Longrightarrow> Inl e \<in> set rs"
  by (induction rs rule: json_seq.induct) (auto split: sum.splits)

lemma json_wrap_ok: "(\<And>r. r \<in> set rs \<Longrightarrow> \<exists>x. r = Inr x) \<Longrightarrow> \<exists>x. json_wrap a b rs = Inr x"
  using json_seq_all_ok [of rs] by (auto simp: json_wrap_def split: sum.splits)

text \<open>A value without times always has an encoding.\<close>

primrec json_timeless :: "jval \<Rightarrow> bool" where
  "json_timeless JNull = True"
| "json_timeless (JInt i) = True"
| "json_timeless (JStr s) = True"
| "json_timeless (JTime t) = False"
| "json_timeless (JArr vs) = list_all id (map json_timeless vs)"
| "json_timeless (JObj kvs) = list_all id (map snd (map (map_prod id json_timeless) kvs))"

lemma json_marshal_timeless: "json_timeless v \<Longrightarrow> \<exists>s. json_marshal v = Inr s"
proof (induction v)
  case (JArr vs)
  then show ?case by (auto simp: list_all_iff intro!: json_wrap_ok)
next
  case (JObj kvs)
  have "\<exists>x. json_field k (json_marshal v) = Inr x" if "(k, v) \<in> set kvs" for k v
    using JObj.IH [of "(k, v)" v] JObj.prems that
    by (fastforce simp: list_all_iff json_field_def snds.simps)
  then show ?case by (auto intro!: json_wrap_ok)
qed auto

lemma set_json_insert_key: "set (json_insert_key kv xs) = insert kv (set xs)"
  by (induction xs) auto

lemma json_map_ok:
  assumes "\<And>k v. (k, v) \<in> set kvs \<Longrightarrow> \<exists>s. json_marshal v = Inr s"
  shows "\<exists>s. json_marshal (json_map kvs) = Inr s"
proof -
  have "set (foldr json_insert_key kvs []) = set kvs"
    by (induction kvs) (simp_all add: set_json_insert_key)
  then show ?thesis
    using assms by (fastforce simp: json_map_def json_field_def intro!: json_wrap_ok)
qed

end
