(* ===== verification/VpsMysql.thy ===== *)
theory VpsMysql
  imports SqlTable Store GoTime GoStrconv "HOL-Library.Multiset"
begin

text \<open>
  \<open>internal/vpsmysql/client.go\<close>: the read client of the source database. The source table
  \<open>sja.m_karyawan\<close> is a list of rows; the MySQL server and driver are parameters: faults of the
  queries and of the row iteration, and the collation of \<open>NIK_HRIS\<close>. Opening a connection is
  the parameter \<open>mysql_dial\<close>, and the text of a DSN is the driver's \<open>FormatDSN\<close>.

  The locale \<open>source\<close> is the contract between the sync and its source: what
  \<open>FetchKaryawanUpdatedSince\<close> promises of the batch it returns. The client provides it.
\<close>

section \<open>Rows\<close>

text \<open>\<open>KaryawanRow\<close>; \<open>sql.NullString\<close> and \<open>sql.NullTime\<close> are options.\<close>

record vps_row =
  vr_nik_hris :: string
  vr_nik_santos :: "string option"
  vr_nama_karyawan :: string
  vr_nama_departemen :: "string option"
  vr_nama_jabatan :: "string option"
  vr_tgl_bergabung :: "micros option"
  vr_tgl_keluar :: "micros option"
  vr_lokasi :: "string option"
  vr_gender :: "string option"
  vr_updated_at :: micros

text \<open>A row of \<open>sja.m_karyawan\<close>, whose columns may be NULL.\<close>

record my_row =
  my_nik_hris :: string
  my_nik_santos :: "string option"
  my_nama_karyawan :: "string option"
  my_nama_departemen :: "string option"
  my_nama_jabatan :: "string option"
  my_tgl_bergabung :: "micros option"
  my_tgl_keluar :: "micros option"
  my_lokasi :: "string option"
  my_gender :: "string option"
  my_updated_at :: "micros option"

record myenv =
  my_fault :: "string \<Rightarrow> goerr option"
  my_rows_err :: "(nat \<times> goerr) option"
  my_le :: "string \<Rightarrow> string \<Rightarrow> bool"
  my_eq :: "string \<Rightarrow> string \<Rightarrow> bool"

record vps_client =
  vc_batch_size :: int

text \<open>\<open>rows.Scan\<close>: a NULL does not fit a \<open>string\<close> or a \<open>time.Time\<close>.\<close>

definition my_scan :: "my_row \<Rightarrow> goerr + vps_row" where
  "my_scan r =
     (case my_nama_karyawan r of
        None \<Rightarrow> Inl (ErrNew ''converting NULL to string is unsupported'')
      | Some nama \<Rightarrow>
          (case my_updated_at r of
             None \<Rightarrow> Inl (ErrNew ''unsupported Scan, storing driver.Value type <nil> into type *time.Time'')
           | Some u \<Rightarrow>
               Inr \<lparr>vr_nik_hris = my_nik_hris r, vr_nik_santos = my_nik_santos r,
                    vr_nama_karyawan = nama, vr_nama_departemen = my_nama_departemen r,
                    vr_nama_jabatan = my_nama_jabatan r, vr_tgl_bergabung = my_tgl_bergabung r,
                    vr_tgl_keluar = my_tgl_keluar r, vr_lokasi = my_lokasi r,
                    vr_gender = my_gender r, vr_updated_at = u\<rparr>))"

section \<open>Fetching\<close>

definition karyawan_query :: string where
  "karyawan_query =
     nl @ ''SELECT NIK_HRIS, NIK_SANTOS, NAMA_KARYAWAN, NAMA_DEPARTEMEN, NAMA_JABATAN,'' @
     nl @ ''       TGL_BERGABUNG, TGL_KELUAR, LOKASI, GENDER, updated_at'' @
     nl @ ''FROM sja.m_karyawan'' @
     nl @ ''WHERE updated_at > ?'' @
     nl @ ''ORDER BY updated_at ASC, NIK_HRIS ASC'' @
     nl @ ''LIMIT ?''"

text \<open>\<open>updated_at > ?\<close>, not true of NULL.\<close>

definition my_newer :: "micros \<Rightarrow> my_row \<Rightarrow> bool" where
  "my_newer since r \<longleftrightarrow> (case my_updated_at r of None \<Rightarrow> False | Some u \<Rightarrow> since < u)"

definition my_time :: "my_row \<Rightarrow> micros" where
  "my_time r = (case my_updated_at r of None \<Rightarrow> 0 | Some u \<Rightarrow> u)"

text \<open>\<open>ORDER BY updated_at ASC, NIK_HRIS ASC\<close>.\<close>

definition my_before :: "myenv \<Rightarrow> my_row \<Rightarrow> my_row \<Rightarrow> bool" where
  "my_before env r s \<longleftrightarrow>
     my_time r < my_time s \<or> (my_time r = my_time s \<and> my_le env (my_nik_hris r) (my_nik_hris s))"

fun my_insert :: "myenv \<Rightarrow> my_row \<Rightarrow> my_row list \<Rightarrow> my_row list" where
  "my_insert env r [] = [r]"
| "my_insert env r (x # xs) = (if my_before env r x then r # x # xs else x # my_insert env r xs)"

definition my_order :: "myenv \<Rightarrow> my_row list \<Rightarrow> my_row list" where
  "my_order env t = foldr (my_insert env) t []"

definition fetch_query_rows :: "myenv \<Rightarrow> vps_client \<Rightarrow> micros \<Rightarrow> my_row list \<Rightarrow> my_row list" where
  "fetch_query_rows env c since t = take (nat (vc_batch_size c)) (my_order env (filter (my_newer since) t))"

fun fetch_scan :: "my_row list \<Rightarrow> vps_row list \<Rightarrow> goerr + vps_row list" where
  "fetch_scan [] out = Inr out"
| "fetch_scan (r # rs) out =
     (case my_scan r of
        Inl e \<Rightarrow> Inl (ErrWrap ''scan'' e)
      | Inr v \<Rightarrow> fetch_scan rs (out @ [v]))"

text \<open>The rows read and the error, both results as in Go.\<close>

definition fetch_karyawan_updated_since ::
  "myenv \<Rightarrow> vps_client \<Rightarrow> my_row list \<Rightarrow> micros \<Rightarrow> vps_row list \<times> goerr option" where
  "fetch_karyawan_updated_since env c t since =
     (case my_fault env karyawan_query of
        Some e \<Rightarrow> ([], Some (ErrWrap ''query karyawan'' e))
      | None \<Rightarrow>
          (let rows = fetch_query_rows env c since t;
               (seen, brk) = (case my_rows_err env of
                  None \<Rightarrow> (rows, None)
                | Some (n, e) \<Rightarrow> (if n < length rows then take n rows else rows, Some e))
           in case fetch_scan seen [] of
                Inl e \<Rightarrow> ([], Some e)
              | Inr out \<Rightarrow> (out, brk)))"

definition karyawan_by_nik_query :: string where
  "karyawan_by_nik_query =
     nl @ ''SELECT NIK_HRIS, NIK_SANTOS, NAMA_KARYAWAN, NAMA_DEPARTEMEN, NAMA_JABATAN,'' @
     nl @ ''       TGL_BERGABUNG, TGL_KELUAR, LOKASI, GENDER, updated_at'' @
     nl @ ''FROM sja.m_karyawan'' @
     nl @ ''WHERE NIK_HRIS = ?'' @
     nl @ ''LIMIT 1''"

definition fetch_karyawan_by_nik :: "myenv \<Rightarrow> my_row list \<Rightarrow> string \<Rightarrow> goerr + vps_row option" where
  "fetch_karyawan_by_nik env t nik =
     (case my_fault env karyawan_by_nik_query of
        Some e \<Rightarrow> Inl (ErrWrap ''query by nik'' e)
      | None \<Rightarrow>
          (case find (\<lambda>r. my_eq env (my_nik_hris r) nik) t of
             None \<Rightarrow> Inr None
           | Some r \<Rightarrow>
               (case my_scan r of
                  Inl e \<Rightarrow> Inl (ErrWrap ''query by nik'' e)
                | Inr v \<Rightarrow> Inr (Some v))))"

definition max_query :: string where
  "max_query = ''SELECT MAX(updated_at) FROM sja.m_karyawan''"

text \<open>The aggregate ignores NULLs and is NULL on no value; Go's zero time is year 1.\<close>

definition zero_time :: micros where
  "zero_time = - 62135596800000000"

definition max_updated_at :: "myenv \<Rightarrow> my_row list \<Rightarrow> goerr + micros" where
  "max_updated_at env t =
     (case my_fault env max_query of
        Some e \<Rightarrow> Inl (ErrWrap ''max updated_at'' e)
      | None \<Rightarrow>
          (case List.map_filter my_updated_at t of
             [] \<Rightarrow> Inr zero_time
           | u # us \<Rightarrow> Inr (fold max us u)))"

section \<open>The client\<close>

text \<open>\<open>mysql_dial\<close>: \<open>sql.Open\<close> and \<open>PingContext\<close> on a DSN.\<close>

datatype dial_result = DialOpenErr goerr | DialPingErr goerr | DialOk

type_synonym mysql_dial = "string \<Rightarrow> dial_result"

text \<open>The second component counts the open handles.\<close>

definition new_client :: "mysql_dial \<Rightarrow> string \<Rightarrow> int \<Rightarrow> int \<Rightarrow> (goerr + vps_client) \<times> int" where
  "new_client dial dsn batch handles =
     (case dial dsn of
        DialOpenErr e \<Rightarrow> (Inl (ErrWrap ''open mysql'' e), handles)
      | DialPingErr e \<Rightarrow> (Inl (ErrWrap ''ping mysql'' e), handles + 1 - 1)
      | DialOk \<Rightarrow>
          (Inr \<lparr>vc_batch_size = (if batch \<le> 0 then 500 else batch)\<rparr>, handles + 1))"

definition set_batch_size :: "int \<Rightarrow> vps_client \<Rightarrow> vps_client" where
  "set_batch_size n c = (if n > 0 then c\<lparr>vc_batch_size := n\<rparr> else c)"

text \<open>The fields of \<open>mysql.Config\<close> that \<open>BuildDSN\<close> sets.\<close>

record mysql_config =
  mc_user :: string
  mc_passwd :: string
  mc_net :: string
  mc_addr :: string
  mc_dbname :: string
  mc_parse_time :: bool
  mc_read_timeout :: int
  mc_loc_utc :: bool

type_synonym format_dsn = "mysql_config \<Rightarrow> string"

definition dsn_config :: "string \<Rightarrow> int \<Rightarrow> string \<Rightarrow> string \<Rightarrow> string \<Rightarrow> mysql_config" where
  "dsn_config host port database user password =
     \<lparr>mc_user = user, mc_passwd = password, mc_net = ''tcp'',
      mc_addr = host @ '':'' @ fmt_d port, mc_dbname = database, mc_parse_time = True,
      mc_read_timeout = 30, mc_loc_utc = True\<rparr>"

definition build_dsn :: "format_dsn \<Rightarrow> string \<Rightarrow> int \<Rightarrow> string \<Rightarrow> string \<Rightarrow> string \<Rightarrow> string" where
  "build_dsn fmt host port database user password = fmt (dsn_config host port database user password)"

definition new_client_from_store_config ::
  "format_dsn \<Rightarrow> mysql_dial \<Rightarrow> vps_config option \<Rightarrow> string \<Rightarrow> int \<Rightarrow> int \<Rightarrow> (goerr + vps_client) \<times> int" where
  "new_client_from_store_config fmt dial cfg master_b64 batch handles =
     (case cfg of
        None \<Rightarrow> (Inl (ErrNew ''nil vps config''), handles)
      | Some v \<Rightarrow>
          if master_b64 = [] then (Inl (ErrNew ''empty master key''), handles)
          else
            (case base64_to_key master_b64 of
               Inl e \<Rightarrow> (Inl (ErrWrap ''decode master key'' e), handles)
             | Inr mk \<Rightarrow>
                 (case get_decrypted_password mk v of
                    Inl e \<Rightarrow> (Inl (ErrWrap ''decrypt vps password'' e), handles)
                  | Inr pw \<Rightarrow>
                      new_client dial (build_dsn fmt (vps_host v) (vps_port v) (vps_database v) (vps_username v) pw)
                        batch handles)))"

section \<open>The contract of a source\<close>

text \<open>The watermark after a batch: the latest \<open>updated_at\<close> seen.\<close>

definition max_time :: "micros \<Rightarrow> vps_row list \<Rightarrow> micros" where
  "max_time since rows = fold (\<lambda>r m. max m (vr_updated_at r)) rows since"

lemma fold_max_ge: "m \<le> fold (\<lambda>r m. max m (vr_updated_at r)) out m"
proof (induction out arbitrary: m)
  case Nil
  then show ?case by simp
next
  case (Cons x xs)
  from Cons.IH [of "max m (vr_updated_at x)"] show ?case by simp
qed

lemma fold_max_in: "r \<in> set out \<Longrightarrow> vr_updated_at r \<le> fold (\<lambda>r m. max m (vr_updated_at r)) out m"
proof (induction out arbitrary: m)
  case Nil
  then show ?case by simp
next
  case (Cons x xs)
  then show ?case using fold_max_ge [of "max m (vr_updated_at x)" xs] by auto
qed

lemma fold_max_attained:
  "fold (\<lambda>r m. max m (vr_updated_at r)) out m = m
   \<or> (\<exists>r \<in> set out. fold (\<lambda>r m. max m (vr_updated_at r)) out m = vr_updated_at r)"
proof (induction out arbitrary: m)
  case Nil
  then show ?case by simp
next
  case (Cons x xs)
  from Cons.IH [of "max m (vr_updated_at x)"] show ?case by (auto simp: max_def)
qed

lemma max_time_ge: "since \<le> max_time since out"
  by (simp add: max_time_def fold_max_ge)

text \<open>
  What the sync relies on. \<open>rows\<close> are the rows of the source that can be read; a batch is
  taken in the order of \<open>updated_at\<close> and is cut only by the batch size, so a row that is left
  out is not older than any that is returned.
\<close>

locale source =
  fixes fetch :: "micros \<Rightarrow> vps_row list \<times> goerr option"
    and rows :: "vps_row list"
    and batch :: nat
  assumes fetch_sound: "fetch since = (out, None) \<Longrightarrow> r \<in> set out \<Longrightarrow> r \<in> set rows \<and> since < vr_updated_at r"
    and fetch_sorted: "fetch since = (out, None) \<Longrightarrow> sorted (map vr_updated_at out)"
    and fetch_oldest: "fetch since = (out, None) \<Longrightarrow> r \<in> set rows \<Longrightarrow> since < vr_updated_at r \<Longrightarrow>
      r \<notin> set out \<Longrightarrow> x \<in> set out \<Longrightarrow> vr_updated_at x \<le> vr_updated_at r"
    and fetch_full: "fetch since = (out, None) \<Longrightarrow> r \<in> set rows \<Longrightarrow> since < vr_updated_at r \<Longrightarrow>
      r \<notin> set out \<Longrightarrow> length out = batch"
    and fetch_distinct: "fetch since = (out, None) \<Longrightarrow> keyed vr_nik_hris rows \<Longrightarrow> keyed vr_nik_hris out"
begin

text \<open>Nothing up to the new watermark is skipped, except rows tied with it.\<close>

lemma skipped_only_ties:
  assumes "fetch since = (out, None)" and "r \<in> set rows" and "since < vr_updated_at r"
    and "vr_updated_at r \<le> max_time since out"
  shows "r \<in> set out \<or> vr_updated_at r = max_time since out"
proof (rule ccontr)
  assume "\<not> ?thesis"
  then have new: "r \<notin> set out" and ne: "vr_updated_at r \<noteq> max_time since out" by auto
  from ne assms(4) have lt: "vr_updated_at r < max_time since out" by simp
  with assms(3) fold_max_attained [of out since] obtain x
    where "x \<in> set out" "max_time since out = vr_updated_at x"
    by (auto simp: max_time_def)
  with fetch_oldest [OF assms(1,2,3) new] lt show False by fastforce
qed

text \<open>A batch with a row left to read is not empty, and moves the watermark.\<close>

lemma progress:
  assumes "fetch since = (out, None)" and "r \<in> set rows" and "since < vr_updated_at r" and "0 < batch"
  shows "since < max_time since out \<and> out \<noteq> []"
proof -
  have "\<exists>x. x \<in> set out"
  proof (cases "r \<in> set out")
    case False
    with fetch_full [OF assms(1-3)] assms(4) have "out \<noteq> []" by auto
    then show ?thesis by (cases out) auto
  qed auto
  then obtain x where "x \<in> set out" by auto
  with fetch_sound [OF assms(1)] fold_max_in [of x out since] show ?thesis
    by (fastforce simp: max_time_def)
qed

lemma nothing_newer: "(\<And>r. r \<in> set rows \<Longrightarrow> vr_updated_at r \<le> since) \<Longrightarrow> fetch since = (out, None) \<Longrightarrow> out = []"
  using fetch_sound [of since out] by (cases out) (auto simp: not_less [symmetric])

end

section \<open>The client is a source\<close>

definition vps_rows :: "my_row list \<Rightarrow> vps_row list" where
  "vps_rows t = List.map_filter (\<lambda>r. case my_scan r of Inl e \<Rightarrow> None | Inr v \<Rightarrow> Some v) t"

lemma set_vps_rows: "v \<in> set (vps_rows t) \<longleftrightarrow> (\<exists>r \<in> set t. my_scan r = Inr v)"
  by (force simp: vps_rows_def map_filter_def split: sum.splits)

lemma my_scanD:
  "my_scan r = Inr v \<Longrightarrow> my_updated_at r = Some (vr_updated_at v) \<and> vr_nik_hris v = my_nik_hris r
    \<and> my_time r = vr_updated_at v"
  by (auto simp: my_scan_def my_time_def split: option.splits)

lemma mset_my_insert: "mset (my_insert env r xs) = add_mset r (mset xs)"
  by (induction xs) auto

lemma mset_my_order: "mset (my_order env t) = mset t"
  by (induction t) (simp_all add: my_order_def mset_my_insert)

lemma set_my_order: "set (my_order env t) = set t"
  by (metis mset_my_order set_mset_mset)

lemma set_my_insert: "set (my_insert env r xs) = insert r (set xs)"
  by (induction xs) auto

lemma sorted_my_insert: "sorted (map my_time xs) \<Longrightarrow> sorted (map my_time (my_insert env r xs))"
  by (induction xs) (auto simp: set_my_insert my_before_def)

lemma sorted_my_order: "sorted (map my_time (my_order env t))"
  by (induction t) (simp_all add: my_order_def sorted_my_insert)

lemma fetch_scan_ok: "fetch_scan rs acc = Inr out \<Longrightarrow> \<exists>vs. out = acc @ vs \<and> map my_scan rs = map Inr vs"
proof (induction rs arbitrary: acc)
  case Nil
  then show ?case by simp
next
  case (Cons r rs)
  then show ?case by (fastforce split: sum.splits)
qed

lemma fetch_scan_Inr: "map my_scan rs = map Inr vs \<Longrightarrow> fetch_scan rs acc = Inr (acc @ vs)"
  by (induction rs arbitrary: acc vs) auto

lemma fetch_ok_iff:
  "fetch_karyawan_updated_since env c t since = (out, None)
   \<longleftrightarrow> my_fault env karyawan_query = None \<and> my_rows_err env = None
     \<and> map my_scan (fetch_query_rows env c since t) = map Inr out"
proof (cases "my_fault env karyawan_query = None \<and> my_rows_err env = None")
  case True
  then have "fetch_karyawan_updated_since env c t since = (out, None)
    \<longleftrightarrow> fetch_scan (fetch_query_rows env c since t) [] = Inr out"
    by (simp add: fetch_karyawan_updated_since_def split: sum.split)
  also have "\<dots> \<longleftrightarrow> map my_scan (fetch_query_rows env c since t) = map Inr out"
    using fetch_scan_ok [of "fetch_query_rows env c since t" "[]" out]
      fetch_scan_Inr [of "fetch_query_rows env c since t" out "[]"] by fastforce
  finally show ?thesis using True by simp
next
  case False
  then show ?thesis
    by (auto simp: fetch_karyawan_updated_since_def Let_def split: option.splits sum.splits prod.splits)
qed

lemma scanned_in: "map my_scan rs = map Inr out \<Longrightarrow> v \<in> set out \<longleftrightarrow> (\<exists>r \<in> set rs. my_scan r = Inr v)"
proof -
  assume "map my_scan rs = map Inr out"
  then have "my_scan ` set rs = Inr ` set out" by (metis list.set_map)
  then show ?thesis by (metis (no_types, lifting) image_iff sum.inject(2))
qed

lemma scanned_times: "map my_scan rs = map Inr out \<Longrightarrow> map vr_updated_at out = map my_time rs"
  by (induction rs arbitrary: out) (auto dest: my_scanD)

lemma scanned_niks: "map my_scan rs = map Inr out \<Longrightarrow> map vr_nik_hris out = map my_nik_hris rs"
  by (induction rs arbitrary: out) (auto dest: my_scanD)

lemma sorted_take_drop: "sorted (map f xs) \<Longrightarrow> x \<in> set (take n xs) \<Longrightarrow> y \<in> set (drop n xs) \<Longrightarrow> f x \<le> f y"
proof -
  assume "sorted (map f xs)" and x: "x \<in> set (take n xs)" and y: "y \<in> set (drop n xs)"
  then have "sorted (map f (take n xs) @ map f (drop n xs))"
    by (metis append_take_drop_id map_append)
  with x y show ?thesis by (simp add: sorted_append)
qed

lemma take_or_drop: "x \<in> set xs \<Longrightarrow> x \<in> set (take n xs) \<or> x \<in> set (drop n xs)"
  by (metis Un_iff append_take_drop_id set_append)

lemma distinct_sub_mset:
  assumes "distinct ys" and "mset xs \<subseteq># mset ys"
  shows "distinct xs"
proof -
  from assms(2) obtain M where "mset ys = mset xs + M" by (auto simp: mset_subset_eq_exists_conv)
  moreover obtain zs where "mset zs = M" by (rule ex_mset [THEN exE])
  ultimately have "mset ys = mset (xs @ zs)" by simp
  from mset_eq_imp_distinct_iff [OF this] assms(1) show ?thesis by simp
qed

lemma keyed_vps_rows_subset:
  assumes "keyed vr_nik_hris (vps_rows t)" and "mset rs \<subseteq># mset t" and "map my_scan rs = map Inr out"
  shows "keyed vr_nik_hris out"
proof -
  have "vps_rows rs = out"
    using assms(3) by (induction rs arbitrary: out) (auto simp: vps_rows_def map_filter_def)
  then have "mset out = mset (vps_rows rs)" by simp
  also have "\<dots> \<subseteq># mset (vps_rows t)"
  proof -
    have eq: "mset (vps_rows xs) =
        image_mset (\<lambda>r. the (case my_scan r of Inl e \<Rightarrow> None | Inr v \<Rightarrow> Some v))
          (filter_mset (\<lambda>r. (case my_scan r of Inl e \<Rightarrow> None | Inr v \<Rightarrow> Some v) \<noteq> None) (mset xs))" for xs
      by (simp add: vps_rows_def map_filter_def o_def)
    show ?thesis unfolding eq by (intro image_mset_subseteq_mono multiset_filter_mono assms(2))
  qed
  finally have "mset (map vr_nik_hris out) \<subseteq># mset (map vr_nik_hris (vps_rows t))"
    by (simp add: image_mset_subseteq_mono)
  with assms(1) show ?thesis
    unfolding keyed_def by (rule distinct_sub_mset)
qed

interpretation vps: source "fetch_karyawan_updated_since env c t" "vps_rows t" "nat (vc_batch_size c)"
  for env c t
proof
  fix since out r
  assume ok: "fetch_karyawan_updated_since env c t since = (out, None)"
  let ?q = "fetch_query_rows env c since t"
  have scan: "map my_scan ?q = map Inr out" using ok by (simp add: fetch_ok_iff)
  show "sorted (map vr_updated_at out)"
    unfolding scanned_times [OF scan] fetch_query_rows_def take_map [symmetric]
    by (intro sorted_wrt_take sorted_my_order)
  show "r \<in> set out \<Longrightarrow> r \<in> set (vps_rows t) \<and> since < vr_updated_at r"
    by (auto simp: scanned_in [OF scan] set_vps_rows fetch_query_rows_def set_my_order my_newer_def
        dest!: in_set_takeD dest: my_scanD split: option.splits)
  assume r: "r \<in> set (vps_rows t)" "since < vr_updated_at r" "r \<notin> set out"
  then obtain m where m: "m \<in> set t" "my_scan m = Inr r" by (auto simp: set_vps_rows)
  with r(2) have "m \<in> set (my_order env (filter (my_newer since) t))"
    by (auto simp: set_my_order my_newer_def dest: my_scanD split: option.splits)
  moreover have "m \<notin> set ?q" using r(3) m scanned_in [OF scan] by auto
  ultimately have d: "m \<in> set (drop (nat (vc_batch_size c)) (my_order env (filter (my_newer since) t)))"
    using take_or_drop [of m _ "nat (vc_batch_size c)"] by (auto simp: fetch_query_rows_def)
  then have "length ?q = nat (vc_batch_size c)"
    by (auto simp: fetch_query_rows_def min_def dest: arg_cong [where f = length] split: if_splits)
  then show "length out = nat (vc_batch_size c)"
    using scan by (metis length_map)
  fix x assume "x \<in> set out"
  then obtain n where n: "n \<in> set ?q" "my_scan n = Inr x" using scanned_in [OF scan] by auto
  then have "my_time n \<le> my_time m"
    unfolding fetch_query_rows_def by (intro sorted_take_drop [OF sorted_my_order _ d])
  then show "vr_updated_at x \<le> vr_updated_at r"
    using my_scanD [OF n(2)] my_scanD [OF m(2)] by simp
next
  fix since out
  assume ok: "fetch_karyawan_updated_since env c t since = (out, None)" and k: "keyed vr_nik_hris (vps_rows t)"
  have "mset (fetch_query_rows env c since t) \<subseteq># mset t"
  proof -
    have "mset (fetch_query_rows env c since t) \<subseteq># mset (my_order env (filter (my_newer since) t))"
      unfolding fetch_query_rows_def by (metis append_take_drop_id mset_append mset_subset_eq_add_left)
    also have "\<dots> \<subseteq># mset t" by (simp add: mset_my_order)
    finally show ?thesis .
  qed
  moreover have "map my_scan (fetch_query_rows env c since t) = map Inr out"
    using ok by (simp add: fetch_ok_iff)
  ultimately show "keyed vr_nik_hris out" by (rule keyed_vps_rows_subset [OF k])
qed

section \<open>Properties\<close>

lemma new_client_stored_password:
  assumes "rand_fills rnd" and "set_encrypted_password rnd pw mk v = Inr v'"
  shows "new_client_from_store_config fmt dial (Some v') (key_to_base64 mk) batch handles =
    new_client dial (build_dsn fmt (vps_host v) (vps_port v) (vps_database v) (vps_username v) pw) batch handles"
proof -
  have k: "length mk = key_size"
    using assms(2) crypto_encrypt_ok_iff [of rnd mk pw]
    by (auto simp: set_encrypted_password_def split: sum.splits)
  show ?thesis
    using set_encrypted_password_frame [OF assms(2)] get_set_password [OF assms]
      key_to_base64_line [OF k] base64_to_key_ok [OF k]
    by (simp add: new_client_from_store_config_def)
qed

text \<open>
  The credentials that setup stores are the ones the client connects with: when
  \<open>SetEncryptedPassword\<close> stored a password under a master key, \<open>NewClientFromStoreConfig\<close> with
  the base64 text of this key dials the DSN of the stored host, port, database, user and the
  original password, whatever bytes it consists of.
\<close>

theorem client_uses_stored_password:
  assumes "rand_fills rnd" and "set_encrypted_password rnd pw mk v = Inr v'"
  shows "new_client_from_store_config fmt dial (Some v') (key_to_base64 mk) batch handles =
    new_client dial (build_dsn fmt (vps_host v) (vps_port v) (vps_database v) (vps_username v) pw) batch handles"
  using assms by (rule new_client_stored_password)

lemma client_uses_stored_password_witness:
  "\<exists>v'. set_encrypted_password (\<lambda>n. Inr (replicate n 9)) ''s3cr@t/'' (replicate 32 7) zero_vps = Inr v'
    \<and> new_client_from_store_config mc_passwd (\<lambda>d. if d = ''s3cr@t/'' then DialOk else DialOpenErr (ErrNew ''denied''))
        (Some v') (key_to_base64 (replicate 32 7)) 0 0 = (Inr \<lparr>vc_batch_size = 500\<rparr>, 1)"
proof -
  let ?rnd = "\<lambda>n. Inr (replicate n 9) :: goerr + bytes"
  have "\<exists>ct. crypto_encrypt ?rnd (replicate 32 7) ''s3cr@t/'' = Inr ct"
    by (simp add: crypto_encrypt_ok_iff key_size_def)
  then obtain v' where "set_encrypted_password ?rnd ''s3cr@t/'' (replicate 32 7) zero_vps = Inr v'"
    by (auto simp: set_encrypted_password_def)
  moreover have "rand_fills ?rnd" by (auto simp: rand_fills_def)
  ultimately show ?thesis
    using client_uses_stored_password
      [of ?rnd "''s3cr@t/''" "replicate 32 7" zero_vps _ mc_passwd
        "\<lambda>d. if d = ''s3cr@t/'' then DialOk else DialOpenErr (ErrNew ''denied'')" 0 0]
    by (auto simp: new_client_def build_dsn_def dsn_config_def)
qed

text \<open>
  Opening the source client leaks nothing and always leaves a usable batch size:
  on an error, wherever it occurs, no handle stays open; on success exactly one is open and
  the batch size is positive, 500 when the configured one is not.
\<close>

theorem client_open_accounting:
  "case new_client_from_store_config fmt dial cfg master_b64 batch handles of
     (Inl e, h) \<Rightarrow> h = handles
   | (Inr c, h) \<Rightarrow> h = handles + 1 \<and> vc_batch_size c = (if batch \<le> 0 then 500 else batch) \<and> 0 < vc_batch_size c"
  by (simp add: new_client_from_store_config_def new_client_def split: option.split sum.split dial_result.split)

end
