(* ===== verification/Sync.thy ===== *)
theory Sync
  imports Karyawan Json VpsMysql
begin

text \<open>
  \<open>internal/sync/sync.go\<close>: one pass of the synchronisation, from the source rows newer than the
  watermark to the mirror table, with the run log \<open>sync_runs\<close> and the state \<open>sync_state\<close>.

  The database state is a \<open>syncdb\<close> record. A pass works in a transaction on \<open>sync_state\<close> and
  \<open>sync_runs\<close> (the advisory lock lives in it), while the upserts go through the pool and are
  committed one by one; so the model has a transaction \<open>pgtx\<close> with its own view of the two
  tables and PostgreSQL's rule that a failed statement aborts it: every later statement fails,
  and its commit is a rollback. Which statement fails, and what a commit reports, is a
  parameter (\<open>sync_env\<close>), so that every failure point of the pass is a behaviour of the model.
\<close>

section \<open>State\<close>

record run_row =
  rr_id :: string
  rr_resource :: string
  rr_started :: micros
  rr_finished :: "micros option"
  rr_rows :: int
  rr_status :: string
  rr_error :: "string option"

record state_row =
  st_resource :: string
  st_watermark :: "micros option"
  st_last_run :: "micros option"
  st_last_status :: "string option"
  st_last_error :: "string option"

record syncdb =
  db_kar :: "kar_row list"
  db_state :: "state_row list"
  db_runs :: "run_row list"

text \<open>The transaction: its view of the tables, and whether a statement failed in it.\<close>

record pgtx =
  tx_state :: "state_row list"
  tx_runs :: "run_row list"
  tx_aborted :: bool

datatype tx_stmt =
    TxLock | TxInsertRun | TxFailRun | TxFailState | TxPutState | TxFinishRun

text \<open>
  The world of one pass: the clock (\<open>time.Now\<close> at the start and in the arguments of the
  statements, \<open>now()\<close> at the server), the faults, and the source. A commit may report an error
  although it took effect.
\<close>

record sync_env =
  se_started :: micros
  se_now :: "tx_stmt \<Rightarrow> micros"
  se_server_now :: micros
  se_begin :: "goerr option"
  se_fault :: "tx_stmt \<Rightarrow> goerr option"
  se_commit :: "(goerr \<times> bool) option"
  se_read :: "goerr option"
  se_pg :: pgenv
  se_fetch :: "micros \<Rightarrow> vps_row list \<times> goerr option"

record syncer =
  sy_resource :: string
  sy_batch :: int

text \<open>\<open>New\<close>; \<open>vpsmysql.Client\<close> implements \<open>BatchSizer\<close>, so it gets the batch size.\<close>

definition new_syncer :: "int \<Rightarrow> vps_client \<Rightarrow> syncer \<times> vps_client" where
  "new_syncer batch c =
     (let b = (if batch \<le> 0 then 500 else batch)
      in (\<lparr>sy_resource = ''karyawan'', sy_batch = b\<rparr>, set_batch_size b c))"

section \<open>The lock key\<close>

definition fnv_step :: "32 word \<Rightarrow> char \<Rightarrow> 32 word" where
  "fnv_step h c = (xor h (word_of_nat (of_char c))) * 16777619"

definition hashtext_sync_resource :: "string \<Rightarrow> 32 word" where
  "hashtext_sync_resource resource = foldl fnv_step 2166136261 resource"

definition lock_key :: "string \<Rightarrow> int" where
  "lock_key resource = uint (hashtext_sync_resource resource)"

section \<open>Statements of the transaction\<close>

definition tx_begin :: "syncdb \<Rightarrow> pgtx" where
  "tx_begin db = \<lparr>tx_state = db_state db, tx_runs = db_runs db, tx_aborted = False\<rparr>"

abbreviation err_tx_aborted :: goerr where
  "err_tx_aborted \<equiv> ErrNew ''current transaction is aborted, commands ignored until end of transaction block''"

definition tx_exec ::
  "sync_env \<Rightarrow> tx_stmt \<Rightarrow> (pgtx \<Rightarrow> goerr + pgtx) \<Rightarrow> pgtx \<Rightarrow> goerr option \<times> pgtx" where
  "tx_exec env stmt f tx =
     (if tx_aborted tx then (Some err_tx_aborted, tx)
      else case se_fault env stmt of
          Some e \<Rightarrow> (Some e, tx\<lparr>tx_aborted := True\<rparr>)
        | None \<Rightarrow>
            (case f tx of
               Inl e \<Rightarrow> (Some e, tx\<lparr>tx_aborted := True\<rparr>)
             | Inr tx' \<Rightarrow> (None, tx')))"

definition tx_commit :: "sync_env \<Rightarrow> pgtx \<Rightarrow> syncdb \<Rightarrow> goerr option \<times> syncdb" where
  "tx_commit env tx db =
     (if tx_aborted tx then (Some (ErrNew ''commit unexpectedly resulted in rollback''), db)
      else
        let db' = db\<lparr>db_state := tx_state tx, db_runs := tx_runs tx\<rparr>
        in case se_commit env of
             None \<Rightarrow> (None, db')
           | Some (e, applied) \<Rightarrow> (Some e, if applied then db' else db))"

definition insert_run :: "string \<Rightarrow> string \<Rightarrow> micros \<Rightarrow> pgtx \<Rightarrow> goerr + pgtx" where
  "insert_run run_id resource started tx =
     (if run_id \<in> rr_id ` set (tx_runs tx) then Inl (ErrNew ''duplicate key value violates unique constraint'')
      else Inr (tx\<lparr>tx_runs := tx_runs tx @
        [\<lparr>rr_id = run_id, rr_resource = resource, rr_started = started, rr_finished = None,
          rr_rows = 0, rr_status = ''running'', rr_error = None\<rparr>]\<rparr>))"

definition update_run :: "string \<Rightarrow> (run_row \<Rightarrow> run_row) \<Rightarrow> pgtx \<Rightarrow> goerr + pgtx" where
  "update_run run_id f tx = Inr (tx\<lparr>tx_runs := sql_update (\<lambda>r. rr_id r = run_id) f (tx_runs tx)\<rparr>)"

definition fail_run_row :: "micros \<Rightarrow> string \<Rightarrow> run_row \<Rightarrow> run_row" where
  "fail_run_row now cause r = r\<lparr>rr_finished := Some now, rr_status := ''failed'', rr_error := Some cause\<rparr>"

definition finish_run_row :: "micros \<Rightarrow> int \<Rightarrow> run_row \<Rightarrow> run_row" where
  "finish_run_row now n r = r\<lparr>rr_finished := Some now, rr_rows := n, rr_status := ''success''\<rparr>"

text \<open>The conflict clause of \<open>markRunFailed\<close> leaves the watermark alone.\<close>

definition merge_failed :: "state_row \<Rightarrow> state_row \<Rightarrow> state_row" where
  "merge_failed old excluded = old\<lparr>
     st_last_run := st_last_run excluded,
     st_last_status := st_last_status excluded,
     st_last_error := st_last_error excluded\<rparr>"

text \<open>The conflict clause of the success statement.\<close>

definition merge_success :: "state_row \<Rightarrow> state_row \<Rightarrow> state_row" where
  "merge_success old excluded = old\<lparr>
     st_watermark := st_watermark excluded,
     st_last_run := st_last_run excluded,
     st_last_status := st_last_status excluded,
     st_last_error := None\<rparr>"

definition put_failed :: "string \<Rightarrow> micros \<Rightarrow> string \<Rightarrow> pgtx \<Rightarrow> goerr + pgtx" where
  "put_failed resource now cause tx =
     Inr (tx\<lparr>tx_state := sql_upsert st_resource merge_failed
       \<lparr>st_resource = resource, st_watermark = None, st_last_run = Some now,
        st_last_status = Some ''failed'', st_last_error = Some cause\<rparr> (tx_state tx)\<rparr>)"

definition put_success :: "string \<Rightarrow> micros \<Rightarrow> micros \<Rightarrow> pgtx \<Rightarrow> goerr + pgtx" where
  "put_success resource wm now tx =
     Inr (tx\<lparr>tx_state := sql_upsert st_resource merge_success
       \<lparr>st_resource = resource, st_watermark = Some wm, st_last_run = Some now,
        st_last_status = Some ''success'', st_last_error = None\<rparr> (tx_state tx)\<rparr>)"

section \<open>markRunFailed\<close>

text \<open>Both statements are issued and their errors dropped.\<close>

definition mark_run_failed :: "sync_env \<Rightarrow> syncer \<Rightarrow> string \<Rightarrow> goerr \<Rightarrow> pgtx \<Rightarrow> pgtx" where
  "mark_run_failed env s run_id cause tx =
     (let (_, tx1) = tx_exec env TxFailRun
            (update_run run_id (fail_run_row (se_now env TxFailRun) (err_text cause))) tx;
          (_, tx2) = tx_exec env TxFailState
            (put_failed (sy_resource s) (se_now env TxFailState) (err_text cause)) tx1
      in tx2)"

text \<open>Mark, commit, return the cause: the tail of every error path after the run was inserted.\<close>

definition fail_run ::
  "sync_env \<Rightarrow> syncer \<Rightarrow> string \<Rightarrow> goerr \<Rightarrow> pgtx \<Rightarrow> syncdb \<Rightarrow> (int \<times> goerr option) \<times> syncdb" where
  "fail_run env s run_id cause tx db =
     ((0, Some cause), snd (tx_commit env (mark_run_failed env s run_id cause tx) db))"

section \<open>Reading the watermark\<close>

text \<open>Through the pool, so from the committed state.\<close>

definition read_watermark :: "sync_env \<Rightarrow> string \<Rightarrow> syncdb \<Rightarrow> goerr + micros" where
  "read_watermark env resource db =
     (case (case se_read env of
              Some e \<Rightarrow> Inl e
            | None \<Rightarrow>
                (case sql_find st_resource resource (db_state db) of
                   None \<Rightarrow> Inl err_no_rows
                 | Some r \<Rightarrow> Inr (st_watermark r))) of
        Inl e \<Rightarrow>
          if errors_is e ''no rows in result set'' then Inr 0
          else Inl (ErrWrap ''read watermark'' e)
      | Inr None \<Rightarrow> Inr 0
      | Inr (Some wm) \<Rightarrow> Inr wm)"

section \<open>The rows\<close>

definition null_str :: "string option \<Rightarrow> string" where
  "null_str ns = (case ns of None \<Rightarrow> [] | Some s \<Rightarrow> s)"

definition null_time :: "micros option \<Rightarrow> jval" where
  "null_time nt = (case nt of None \<Rightarrow> JNull | Some t \<Rightarrow> JTime t)"

definition null_time_ptr :: "micros option \<Rightarrow> micros option" where
  "null_time_ptr nt = (case nt of None \<Rightarrow> None | Some t \<Rightarrow> Some t)"

definition raw_payload :: "vps_row \<Rightarrow> jval" where
  "raw_payload r = json_map
     [(''NIK_HRIS'', JStr (vr_nik_hris r)),
      (''NIK_SANTOS'', JStr (null_str (vr_nik_santos r))),
      (''NAMA_KARYAWAN'', JStr (vr_nama_karyawan r)),
      (''NAMA_DEPARTEMEN'', JStr (null_str (vr_nama_departemen r))),
      (''NAMA_JABATAN'', JStr (null_str (vr_nama_jabatan r))),
      (''TGL_BERGABUNG'', null_time (vr_tgl_bergabung r)),
      (''TGL_KELUAR'', null_time (vr_tgl_keluar r)),
      (''LOKASI'', JStr (null_str (vr_lokasi r))),
      (''GENDER'', JStr (null_str (vr_gender r))),
      (''updated_at'', JTime (vr_updated_at r))]"

definition to_karyawan :: "vps_row \<Rightarrow> string \<Rightarrow> karyawan" where
  "to_karyawan r raw =
     \<lparr>k_nik_hris = vr_nik_hris r,
      k_nik_santos = null_str (vr_nik_santos r),
      k_nama_karyawan = vr_nama_karyawan r,
      k_nama_departemen = null_str (vr_nama_departemen r),
      k_nama_jabatan = null_str (vr_nama_jabatan r),
      k_tgl_bergabung = null_time_ptr (vr_tgl_bergabung r),
      k_tgl_keluar = null_time_ptr (vr_tgl_keluar r),
      k_lokasi = null_str (vr_lokasi r),
      k_gender = null_str (vr_gender r),
      k_source_updated_at = Some (vr_updated_at r),
      k_synced_at = zero_time,
      k_raw_payload = raw\<rparr>"

text \<open>
  The loop over the batch: the number of rows upserted and the largest timestamp, or the cause
  of the first failure; the mirror table keeps what was upserted either way.
\<close>

fun sync_rows ::
  "sync_env \<Rightarrow> vps_row list \<Rightarrow> int \<Rightarrow> micros \<Rightarrow> kar_row list \<Rightarrow> (goerr + int \<times> micros) \<times> kar_row list" where
  "sync_rows env [] n maxts t = (Inr (n, maxts), t)"
| "sync_rows env (r # rs) n maxts t =
     (case json_marshal (raw_payload r) of
        Inl e \<Rightarrow> (Inl (ErrWrap (''marshal raw_payload for '' @ vr_nik_hris r) e), t)
      | Inr raw \<Rightarrow>
          (case repo_upsert (se_pg env) (se_server_now env) (to_karyawan r raw) t of
             (Inl e, t') \<Rightarrow> (Inl (ErrWrap (''upsert '' @ vr_nik_hris r) e), t')
           | (Inr _, t') \<Rightarrow>
               sync_rows env rs (n + 1) (if vr_updated_at r > maxts then vr_updated_at r else maxts) t'))"

section \<open>SyncKaryawan\<close>

text \<open>From the state update to the end of the pass.\<close>

definition sync_finish ::
  "sync_env \<Rightarrow> syncer \<Rightarrow> string \<Rightarrow> int \<Rightarrow> micros \<Rightarrow> pgtx \<Rightarrow> syncdb \<Rightarrow> (int \<times> goerr option) \<times> syncdb" where
  "sync_finish env s run_id upserted maxts tx db =
     (case tx_exec env TxPutState (put_success (sy_resource s) maxts (se_now env TxPutState)) tx of
        (Some e, tx1) \<Rightarrow> fail_run env s run_id (ErrWrap ''update sync_state'' e) tx1 db
      | (None, tx1) \<Rightarrow>
          (case tx_exec env TxFinishRun
                  (update_run run_id (finish_run_row (se_now env TxFinishRun) upserted)) tx1 of
             (Some e, tx2) \<Rightarrow>
               ((upserted, Some (ErrWrap ''finalize sync_run'' e)), snd (tx_commit env tx2 db))
           | (None, tx2) \<Rightarrow>
               (case tx_commit env tx2 db of
                  (Some e, db') \<Rightarrow> ((upserted, Some (ErrWrap ''commit sync tx'' e)), db')
                | (None, db') \<Rightarrow> ((upserted, None), db'))))"

text \<open>From the watermark on, in a transaction that holds the lock and has inserted the run.\<close>

definition sync_body ::
  "sync_env \<Rightarrow> syncer \<Rightarrow> string \<Rightarrow> pgtx \<Rightarrow> syncdb \<Rightarrow> (int \<times> goerr option) \<times> syncdb" where
  "sync_body env s run_id tx db =
     (case read_watermark env (sy_resource s) db of
        Inl e \<Rightarrow> fail_run env s run_id (ErrWrap ''read watermark'' e) tx db
      | Inr watermark \<Rightarrow>
          (case se_fetch env watermark of
             (_, Some e) \<Rightarrow> fail_run env s run_id (ErrWrap ''fetch from source'' e) tx db
           | (rows, None) \<Rightarrow>
               (case sync_rows env rows 0 watermark (db_kar db) of
                  (Inl cause, kar) \<Rightarrow> fail_run env s run_id cause tx (db\<lparr>db_kar := kar\<rparr>)
                | (Inr (upserted, maxts), kar) \<Rightarrow>
                    sync_finish env s run_id upserted maxts tx (db\<lparr>db_kar := kar\<rparr>))))"

definition sync_karyawan ::
  "sync_env \<Rightarrow> syncer \<Rightarrow> string \<Rightarrow> syncdb \<Rightarrow> (int \<times> goerr option) \<times> syncdb" where
  "sync_karyawan env s run_id db =
     (case se_begin env of
        Some e \<Rightarrow> ((0, Some (ErrWrap ''begin lock tx'' e)), db)
      | None \<Rightarrow>
          (case tx_exec env TxLock Inr (tx_begin db) of
             (Some e, tx1) \<Rightarrow> ((0, Some (ErrWrap ''acquire advisory lock'' e)), db)
           | (None, tx1) \<Rightarrow>
               (case tx_exec env TxInsertRun (insert_run run_id (sy_resource s) (se_started env)) tx1 of
                  (Some e, tx2) \<Rightarrow> ((0, Some (ErrWrap ''insert sync_run'' e)), db)
                | (None, tx2) \<Rightarrow> sync_body env s run_id tx2 db)))"

section \<open>CleanupStaleRuns\<close>

definition stale_run :: "string \<Rightarrow> micros \<Rightarrow> run_row \<Rightarrow> bool" where
  "stale_run resource cutoff r \<longleftrightarrow>
     rr_resource r = resource \<and> rr_status r = ''running'' \<and> rr_started r < cutoff"

definition recover_run :: "micros \<Rightarrow> run_row \<Rightarrow> run_row" where
  "recover_run now r = r\<lparr>rr_status := ''failed'', rr_finished := Some now,
     rr_error := Some (coalesce_text (rr_error r) @ '' [recovered: stale running row]'')\<rparr>"

definition cleanup_stale_runs ::
  "(goerr \<times> bool) option \<Rightarrow> micros \<Rightarrow> micros \<Rightarrow> string \<Rightarrow> micros \<Rightarrow> run_row list \<Rightarrow> (goerr + int) \<times> run_row list" where
  "cleanup_stale_runs fault now0 now1 resource stale runs =
     (let cutoff = now0 - stale;
          runs' = sql_update (stale_run resource cutoff) (recover_run now1) runs
      in case fault of
           Some (e, applied) \<Rightarrow> (Inl e, if applied then runs' else runs)
         | None \<Rightarrow> (Inr (int (length (filter (stale_run resource cutoff) runs))), runs'))"

section \<open>The rows of a pass\<close>

text \<open>The row an upsert of \<open>r\<close> proposes, and when its payload can be marshalled.\<close>

definition raw_text :: "vps_row \<Rightarrow> string" where
  "raw_text r = (case json_marshal (raw_payload r) of Inl e \<Rightarrow> [] | Inr raw \<Rightarrow> raw)"

definition mirror_row :: "sync_env \<Rightarrow> vps_row \<Rightarrow> kar_row" where
  "mirror_row env r = upsert_row (se_pg env) (se_server_now env) (to_karyawan r (raw_text r))"

definition year_ok :: "micros \<Rightarrow> bool" where
  "year_ok t \<longleftrightarrow> 0 \<le> year_of t \<and> year_of t \<le> 9999"

definition row_ok :: "vps_row \<Rightarrow> bool" where
  "row_ok r \<longleftrightarrow> year_ok (vr_updated_at r) \<and> pred_option year_ok (vr_tgl_bergabung r)
     \<and> pred_option year_ok (vr_tgl_keluar r)"

lemma marshal_null_time: "pred_option year_ok t \<Longrightarrow> \<exists>s. json_marshal (null_time t) = Inr s"
  by (auto simp: null_time_def rfc3339_def year_ok_def split: option.splits)

lemma marshal_raw_payload: "row_ok r \<Longrightarrow> json_marshal (raw_payload r) = Inr (raw_text r)"
proof -
  assume ok: "row_ok r"
  have "\<exists>s. json_marshal (raw_payload r) = Inr s"
    unfolding raw_payload_def
  proof (rule json_map_ok)
    fix k v
    assume "(k, v) \<in> set
     [(''NIK_HRIS'', JStr (vr_nik_hris r)),
      (''NIK_SANTOS'', JStr (null_str (vr_nik_santos r))),
      (''NAMA_KARYAWAN'', JStr (vr_nama_karyawan r)),
      (''NAMA_DEPARTEMEN'', JStr (null_str (vr_nama_departemen r))),
      (''NAMA_JABATAN'', JStr (null_str (vr_nama_jabatan r))),
      (''TGL_BERGABUNG'', null_time (vr_tgl_bergabung r)),
      (''TGL_KELUAR'', null_time (vr_tgl_keluar r)),
      (''LOKASI'', JStr (null_str (vr_lokasi r))),
      (''GENDER'', JStr (null_str (vr_gender r))),
      (''updated_at'', JTime (vr_updated_at r))]"
    then have "(\<exists>s. v = JStr s) \<or> v = null_time (vr_tgl_bergabung r) \<or> v = null_time (vr_tgl_keluar r)
        \<or> v = JTime (vr_updated_at r)"
      by auto
    then show "\<exists>s. json_marshal v = Inr s"
      using ok marshal_null_time by (auto simp: row_ok_def rfc3339_def year_ok_def)
  qed
  then show ?thesis by (auto simp: raw_text_def)
qed

lemma mirror_row_key [simp]: "kr_nik_hris (mirror_row env r) = vr_nik_hris r"
  by (simp add: mirror_row_def to_karyawan_def)

text \<open>A mirror row reflects a source row: every column but the bookkeeping ones agrees.\<close>

definition reflects :: "vps_row \<Rightarrow> kar_row \<Rightarrow> bool" where
  "reflects r k \<longleftrightarrow>
     kr_nik_hris k = vr_nik_hris r
     \<and> coalesce_text (kr_nik_santos k) = null_str (vr_nik_santos r)
     \<and> kr_nama_karyawan k = vr_nama_karyawan r
     \<and> coalesce_text (kr_nama_departemen k) = null_str (vr_nama_departemen r)
     \<and> coalesce_text (kr_nama_jabatan k) = null_str (vr_nama_jabatan r)
     \<and> kr_tgl_bergabung k = map_option day_of (vr_tgl_bergabung r)
     \<and> kr_tgl_keluar k = map_option day_of (vr_tgl_keluar r)
     \<and> coalesce_text (kr_lokasi k) = null_str (vr_lokasi r)
     \<and> coalesce_text (kr_gender k) = null_str (vr_gender r)
     \<and> kr_source_updated_at k = Some (vr_updated_at r)"

lemma reflects_mirror_row: "reflects r (mirror_row env r)"
  by (simp add: reflects_def mirror_row_def upsert_row_def to_karyawan_def coalesce_text_def
      null_time_ptr_def split: option.split)

abbreviation upsert_all :: "sync_env \<Rightarrow> vps_row list \<Rightarrow> kar_row list \<Rightarrow> kar_row list" where
  "upsert_all env rs \<equiv> fold kar_upsert_row (map (mirror_row env) rs)"

text \<open>However the loop ends, the table has taken the rows of a prefix of the batch.\<close>

lemma sync_rows_prefix: "\<exists>k. snd (sync_rows env rs n m t) = upsert_all env (take k rs) t"
proof (induction rs arbitrary: n m t)
  case Nil
  then show ?case by simp
next
  case (Cons r rs)
  show ?case
  proof (cases "json_marshal (raw_payload r)")
    case (Inl e)
    then have "snd (sync_rows env (r # rs) n m t) = upsert_all env (take 0 (r # rs)) t" by simp
    then show ?thesis ..
  next
    case (Inr raw)
    then have raw: "raw = raw_text r" by (simp add: raw_text_def)
    obtain u t' where u: "repo_upsert (se_pg env) (se_server_now env) (to_karyawan r raw) t = (u, t')"
      by (cases "repo_upsert (se_pg env) (se_server_now env) (to_karyawan r raw) t")
    show ?thesis
    proof (cases u)
      case (Inl e)
      have "t' = t \<or> t' = upsert_all env (take 1 (r # rs)) t"
        using repo_upsert_cases [of "se_pg env" "se_server_now env" "to_karyawan r raw" t] u raw
        by (simp add: mirror_row_def)
      then have "t' = upsert_all env (take 0 (r # rs)) t \<or> t' = upsert_all env (take 1 (r # rs)) t" by simp
      moreover have "snd (sync_rows env (r # rs) n m t) = t'" using Inr u Inl by simp
      ultimately show ?thesis by metis
    next
      case (Inr s)
      with u have "t' = kar_upsert_row (mirror_row env r) t"
        using repo_upsert_ok raw by (fastforce simp: mirror_row_def)
      moreover obtain k where "snd (sync_rows env rs (n + 1) (if vr_updated_at r > m then vr_updated_at r else m) t')
          = upsert_all env (take k rs) t'"
        using Cons.IH by blast
      ultimately have "snd (sync_rows env (r # rs) n m t) = upsert_all env (take (Suc k) (r # rs)) t"
        using \<open>json_marshal (raw_payload r) = Inr raw\<close> u Inr by simp
      then show ?thesis ..
    qed
  qed
qed

text \<open>When it ends without an error it has taken all of them.\<close>

lemma sync_rows_done:
  assumes "sync_rows env rs n m t = (Inr (n', m'), t')"
  shows "n' = n + int (length rs) \<and> m' = fold (\<lambda>r m. max m (vr_updated_at r)) rs m
    \<and> t' = upsert_all env rs t"
  using assms
proof (induction rs arbitrary: n m t)
  case Nil
  then show ?case by simp
next
  case (Cons r rs)
  from Cons.prems obtain raw s t1 where raw: "json_marshal (raw_payload r) = Inr raw"
    and u: "repo_upsert (se_pg env) (se_server_now env) (to_karyawan r raw) t = (Inr s, t1)"
    and rec: "sync_rows env rs (n + 1) (if vr_updated_at r > m then vr_updated_at r else m) t1 = (Inr (n', m'), t')"
    by (auto split: sum.splits prod.splits)
  have "t1 = kar_upsert_row (mirror_row env r) t"
    using repo_upsert_ok [OF u] raw by (simp add: mirror_row_def raw_text_def)
  moreover have "(if vr_updated_at r > m then vr_updated_at r else m) = max m (vr_updated_at r)" by simp
  ultimately show ?case using Cons.IH [OF rec] by simp
qed

lemma sync_rows_healthy:
  assumes "pg_healthy (se_pg env)" and "list_all row_ok rs"
  shows "sync_rows env rs n m t =
    (Inr (n + int (length rs), fold (\<lambda>r m. max m (vr_updated_at r)) rs m), upsert_all env rs t)"
  using assms(2)
proof (induction rs arbitrary: n m t)
  case Nil
  then show ?case by simp
next
  case (Cons r rs)
  have "(if vr_updated_at r > m then vr_updated_at r else m) = max m (vr_updated_at r)" by simp
  with Cons show ?case
    by (simp add: marshal_raw_payload repo_upsert_healthy [OF healthy_upsert [OF assms(1)]] mirror_row_def)
qed

section \<open>The contract of a pass\<close>

definition new_run :: "sync_env \<Rightarrow> syncer \<Rightarrow> string \<Rightarrow> run_row" where
  "new_run env s run_id =
     \<lparr>rr_id = run_id, rr_resource = sy_resource s, rr_started = se_started env, rr_finished = None,
      rr_rows = 0, rr_status = ''running'', rr_error = None\<rparr>"

definition failed_state :: "sync_env \<Rightarrow> syncer \<Rightarrow> goerr \<Rightarrow> state_row" where
  "failed_state env s cause =
     \<lparr>st_resource = sy_resource s, st_watermark = None, st_last_run = Some (se_now env TxFailState),
      st_last_status = Some ''failed'', st_last_error = Some (err_text cause)\<rparr>"

definition success_state :: "sync_env \<Rightarrow> syncer \<Rightarrow> micros \<Rightarrow> state_row" where
  "success_state env s wm =
     \<lparr>st_resource = sy_resource s, st_watermark = Some wm, st_last_run = Some (se_now env TxPutState),
      st_last_status = Some ''success'', st_last_error = None\<rparr>"

text \<open>The batch the pass reads, empty when it does not get that far.\<close>

definition batch_of :: "sync_env \<Rightarrow> syncer \<Rightarrow> syncdb \<Rightarrow> vps_row list" where
  "batch_of env s db =
     (case read_watermark env (sy_resource s) db of
        Inl e \<Rightarrow> []
      | Inr wm \<Rightarrow> (case se_fetch env wm of (rows, None) \<Rightarrow> rows | (rows, Some e) \<Rightarrow> []))"

text \<open>
  The three ways a pass can end, for every combination of faults. \<open>rolled_back\<close>: an error, no
  trace in the log or the state; \<open>logged\<close>: an error, a run with status "failed" and the old
  watermark; \<open>advanced\<close>: all rows of the batch are in the mirror, the watermark is the latest
  timestamp seen, the run has status "success", and the result is the row count and at most the
  error of a commit that took effect all the same.
\<close>

inductive pass_spec ::
  "sync_env \<Rightarrow> syncer \<Rightarrow> string \<Rightarrow> syncdb \<Rightarrow> (int \<times> goerr option) \<Rightarrow> syncdb \<Rightarrow> bool"
  for env s run_id db where
  rolled_back:
    "db' = db\<lparr>db_kar := upsert_all env (take k (batch_of env s db)) (db_kar db)\<rparr> \<Longrightarrow>
     pass_spec env s run_id db (n, Some e) db'"
| logged:
    "run_id \<notin> rr_id ` set (db_runs db) \<Longrightarrow>
     db' = db\<lparr>db_kar := upsert_all env (take k (batch_of env s db)) (db_kar db),
       db_state := sql_upsert st_resource merge_failed (failed_state env s cause) (db_state db),
       db_runs := db_runs db @ [fail_run_row (se_now env TxFailRun) (err_text cause) (new_run env s run_id)]\<rparr> \<Longrightarrow>
     pass_spec env s run_id db (0, Some cause) db'"
| advanced:
    "run_id \<notin> rr_id ` set (db_runs db) \<Longrightarrow>
     read_watermark env (sy_resource s) db = Inr wm \<Longrightarrow> se_fetch env wm = (rows, None) \<Longrightarrow>
     err = None \<or> (\<exists>e. err = Some (ErrWrap ''commit sync tx'' e)) \<Longrightarrow>
     db' = db\<lparr>db_kar := upsert_all env rows (db_kar db),
       db_state := sql_upsert st_resource merge_success (success_state env s (max_time wm rows)) (db_state db),
       db_runs := db_runs db @
         [finish_run_row (se_now env TxFinishRun) (int (length rows)) (new_run env s run_id)]\<rparr> \<Longrightarrow>
     pass_spec env s run_id db (int (length rows), err) db'"

inductive_cases pass_specE: "pass_spec env s run_id db res db'"

definition running_tx :: "sync_env \<Rightarrow> syncer \<Rightarrow> string \<Rightarrow> syncdb \<Rightarrow> pgtx" where
  "running_tx env s run_id db =
     \<lparr>tx_state = db_state db, tx_runs = db_runs db @ [new_run env s run_id], tx_aborted = False\<rparr>"

lemma update_new_run:
  "run_id \<notin> rr_id ` set runs \<Longrightarrow>
   sql_update (\<lambda>r. rr_id r = run_id) f (runs @ [new_run env s run_id]) = runs @ [f (new_run env s run_id)]"
proof -
  assume "run_id \<notin> rr_id ` set runs"
  then have "sql_update (\<lambda>r. rr_id r = run_id) f runs = runs" by (intro sql_update_none) auto
  then show ?thesis by (simp add: sql_update_def new_run_def)
qed

lemma tx_commit_aborted: "tx_aborted tx \<Longrightarrow> snd (tx_commit env tx db) = db"
  by (simp add: tx_commit_def)

lemma tx_commit_cases:
  "snd (tx_commit env tx db) = db
   \<or> \<not> tx_aborted tx \<and> snd (tx_commit env tx db) = db\<lparr>db_state := tx_state tx, db_runs := tx_runs tx\<rparr>"
  by (auto simp: tx_commit_def Let_def split: option.splits)

lemma mark_aborted: "tx_aborted tx \<Longrightarrow> mark_run_failed env s run_id cause tx = tx"
  by (simp add: mark_run_failed_def tx_exec_def)

lemma mark_running:
  assumes "run_id \<notin> rr_id ` set (db_runs db)"
    and "\<not> tx_aborted (mark_run_failed env s run_id cause (running_tx env s run_id db))"
  shows "mark_run_failed env s run_id cause (running_tx env s run_id db) =
    \<lparr>tx_state = sql_upsert st_resource merge_failed (failed_state env s cause) (db_state db),
     tx_runs = db_runs db @ [fail_run_row (se_now env TxFailRun) (err_text cause) (new_run env s run_id)],
     tx_aborted = False\<rparr>"
  using assms
  by (auto simp: mark_run_failed_def tx_exec_def running_tx_def update_run_def put_failed_def
      update_new_run failed_state_def split: option.splits)

lemma fail_run_spec:
  assumes "run_id \<notin> rr_id ` set (db_runs db)"
    and "tx = running_tx env s run_id db \<or> tx_aborted tx"
    and "kar = upsert_all env (take k (batch_of env s db)) (db_kar db)"
  shows "pass_spec env s run_id db (fst (fail_run env s run_id cause tx (db\<lparr>db_kar := kar\<rparr>)))
    (snd (fail_run env s run_id cause tx (db\<lparr>db_kar := kar\<rparr>)))"
proof -
  let ?tx = "mark_run_failed env s run_id cause tx"
  from tx_commit_cases [of env ?tx "db\<lparr>db_kar := kar\<rparr>"] show ?thesis
  proof
    assume "snd (tx_commit env ?tx (db\<lparr>db_kar := kar\<rparr>)) = db\<lparr>db_kar := kar\<rparr>"
    then show ?thesis using assms(3) by (auto simp: fail_run_def intro: rolled_back)
  next
    assume c: "\<not> tx_aborted ?tx
      \<and> snd (tx_commit env ?tx (db\<lparr>db_kar := kar\<rparr>)) = (db\<lparr>db_kar := kar\<rparr>)\<lparr>db_state := tx_state ?tx, db_runs := tx_runs ?tx\<rparr>"
    then have tx: "tx = running_tx env s run_id db" using assms(2) mark_aborted by metis
    have "?tx = \<lparr>tx_state = sql_upsert st_resource merge_failed (failed_state env s cause) (db_state db),
     tx_runs = db_runs db @ [fail_run_row (se_now env TxFailRun) (err_text cause) (new_run env s run_id)],
     tx_aborted = False\<rparr>"
      using c mark_running [OF assms(1)] tx by simp
    with c assms(1,3) show ?thesis by (auto simp: fail_run_def intro: logged)
  qed
qed

lemma sync_finish_spec:
  assumes fresh: "run_id \<notin> rr_id ` set (db_runs db)"
    and wm: "read_watermark env (sy_resource s) db = Inr wm" and rows: "se_fetch env wm = (rows, None)"
    and kar: "kar = upsert_all env rows (db_kar db)"
    and res: "sync_finish env s run_id (int (length rows)) (max_time wm rows) (running_tx env s run_id db)
      (db\<lparr>db_kar := kar\<rparr>) = (res, db')"
  shows "pass_spec env s run_id db res db'"
proof -
  have batch: "batch_of env s db = rows" using wm rows by (simp add: batch_of_def)
  then have all: "kar = upsert_all env (take (length rows) (batch_of env s db)) (db_kar db)"
    using kar by simp
  let ?rolled = "pass_spec env s run_id db res (db\<lparr>db_kar := kar\<rparr>)"
  let ?tx0 = "running_tx env s run_id db"
  let ?tx1 = "?tx0\<lparr>tx_state := sql_upsert st_resource merge_success (success_state env s (max_time wm rows)) (db_state db)\<rparr>"
  let ?tx2 = "?tx1\<lparr>tx_runs := db_runs db @
         [finish_run_row (se_now env TxFinishRun) (int (length rows)) (new_run env s run_id)]\<rparr>"
  have put: "put_success (sy_resource s) (max_time wm rows) (se_now env TxPutState) ?tx0 = Inr ?tx1"
    by (simp add: put_success_def success_state_def running_tx_def)
  have finish: "update_run run_id (finish_run_row (se_now env TxFinishRun) (int (length rows))) ?tx1 = Inr ?tx2"
    by (simp add: update_run_def update_new_run [OF fresh] running_tx_def)
  show ?thesis
  proof (cases "se_fault env TxPutState")
    case (Some e)
    then have "fail_run env s run_id (ErrWrap ''update sync_state'' e) (?tx0\<lparr>tx_aborted := True\<rparr>)
      (db\<lparr>db_kar := kar\<rparr>) = (res, db')"
      using res by (simp add: sync_finish_def tx_exec_def running_tx_def)
    then show ?thesis
      using fail_run_spec [OF fresh _ all, of "?tx0\<lparr>tx_aborted := True\<rparr>" "ErrWrap ''update sync_state'' e"] by simp
  next
    case put_ok: None
    show ?thesis
    proof (cases "se_fault env TxFinishRun")
      case (Some e)
      have "res = (int (length rows), Some (ErrWrap ''finalize sync_run'' e))" and "db' = db\<lparr>db_kar := kar\<rparr>"
        using res put_ok Some put by (auto simp: sync_finish_def tx_exec_def running_tx_def tx_commit_def)
      then show ?thesis using all by (auto intro: rolled_back)
    next
      case None
      then have "(case tx_commit env ?tx2 (db\<lparr>db_kar := kar\<rparr>) of
          (Some e, db') \<Rightarrow> ((int (length rows), Some (ErrWrap ''commit sync tx'' e)), db')
        | (None, db') \<Rightarrow> ((int (length rows), None), db')) = (res, db')"
        using res put_ok put finish by (simp add: sync_finish_def tx_exec_def running_tx_def)
      moreover have "\<not> tx_aborted ?tx2" by (simp add: running_tx_def)
      ultimately have "(\<exists>e. res = (int (length rows), Some e)) \<and> db' = db\<lparr>db_kar := kar\<rparr>
        \<or> (\<exists>err. res = (int (length rows), err) \<and> (err = None \<or> (\<exists>e. err = Some (ErrWrap ''commit sync tx'' e))))
          \<and> db' = (db\<lparr>db_kar := kar\<rparr>)\<lparr>db_state := tx_state ?tx2, db_runs := tx_runs ?tx2\<rparr>"
        by (auto simp: tx_commit_def Let_def split: option.splits if_splits)
      then show ?thesis
      proof (elim disjE exE conjE)
        fix e assume "res = (int (length rows), Some e)" and "db' = db\<lparr>db_kar := kar\<rparr>"
        then show ?thesis using rolled_back [where k = "length rows" and env = env and s = s and db = db] all by simp
      qed (use kar in \<open>auto intro!: advanced [OF fresh wm rows] simp: running_tx_def\<close>)
    qed
  qed
qed

lemma tx_begin_open [simp]: "\<not> tx_aborted (tx_begin db)"
  by (simp add: tx_begin_def)

lemma insert_run_begin:
  "insert_run run_id (sy_resource s) (se_started env) (tx_begin db) =
     (if run_id \<in> rr_id ` set (db_runs db) then Inl (ErrNew ''duplicate key value violates unique constraint'')
      else Inr (running_tx env s run_id db))"
  by (simp add: insert_run_def tx_begin_def running_tx_def new_run_def)

lemma sync_body_spec:
  assumes fresh: "run_id \<notin> rr_id ` set (db_runs db)"
  shows "pass_spec env s run_id db (fst (sync_body env s run_id (running_tx env s run_id db) db))
    (snd (sync_body env s run_id (running_tx env s run_id db) db))"
proof -
  have empty: "db_kar db = upsert_all env (take 0 (batch_of env s db)) (db_kar db)" by simp
  have fail: "pass_spec env s run_id db (fst (fail_run env s run_id cause (running_tx env s run_id db) db))
    (snd (fail_run env s run_id cause (running_tx env s run_id db) db))" for cause
    using fail_run_spec [OF fresh _ empty, of "running_tx env s run_id db" cause] by simp
  show ?thesis
  proof (cases "read_watermark env (sy_resource s) db")
    case (Inl e)
    then show ?thesis using fail by (simp add: sync_body_def)
  next
    case wm: (Inr wm)
    obtain rows err where f: "se_fetch env wm = (rows, err)" by (cases "se_fetch env wm")
    show ?thesis
    proof (cases err)
      case (Some e)
      then show ?thesis using fail wm f by (simp add: sync_body_def)
    next
      case None
      with wm f have batch: "batch_of env s db = rows" by (simp add: batch_of_def)
      obtain r kar where loop: "sync_rows env rows 0 wm (db_kar db) = (r, kar)"
        by (cases "sync_rows env rows 0 wm (db_kar db)")
      show ?thesis
      proof (cases r)
        case (Inl cause)
        obtain k where "kar = upsert_all env (take k (batch_of env s db)) (db_kar db)"
          using sync_rows_prefix [of env rows 0 wm "db_kar db"] loop batch by auto
        from fail_run_spec [OF fresh _ this, of "running_tx env s run_id db" cause] show ?thesis
          using wm f None loop Inl by (simp add: sync_body_def)
      next
        case (Inr nm)
        obtain n m where nm: "nm = (n, m)" by (cases nm)
        with loop Inr have "n = int (length rows)" "m = max_time wm rows" "kar = upsert_all env rows (db_kar db)"
          using sync_rows_done [of env rows 0 wm "db_kar db" n m kar] by (simp_all add: max_time_def)
        then show ?thesis
          using sync_finish_spec [OF fresh wm, of rows kar] f None loop Inr nm wm by (simp add: sync_body_def)
      qed
    qed
  qed
qed

lemma sync_karyawan_spec:
  "pass_spec env s run_id db (fst (sync_karyawan env s run_id db)) (snd (sync_karyawan env s run_id db))"
proof -
  have keep: "pass_spec env s run_id db (0, Some e) db" for e
    by (rule rolled_back [where k = 0]) simp
  show ?thesis
  proof (cases "run_id \<in> rr_id ` set (db_runs db)")
    case True
    then show ?thesis
      using keep by (simp add: sync_karyawan_def tx_exec_def insert_run_begin split: option.split)
  next
    case False
    then show ?thesis
      using keep sync_body_spec [OF False]
      by (simp add: sync_karyawan_def tx_exec_def insert_run_begin split: option.split)
  qed
qed

end
