(* ===== verification/SyncMirror.thy ===== *)
theory SyncMirror
  imports Sync
begin

text \<open>
  What a synchronisation pass guarantees, from the contract \<open>pass_spec\<close> of \<^theory_text>\<open>Sync\<close> and the
  contract \<open>source\<close> of the client: the run log and the watermark under every fault, the mirror
  invariant, convergence, and the rows that a tie at a batch boundary loses.
\<close>

section \<open>Watermark and log after a pass\<close>

interpretation state_failed: keyed_table st_resource merge_failed
  by unfold_locales (simp add: merge_failed_def)

interpretation state_success: keyed_table st_resource merge_success
  by unfold_locales (simp add: merge_success_def)

text \<open>The watermark of a resource; without one the sync starts at the epoch.\<close>

definition wm_state :: "string \<Rightarrow> state_row list \<Rightarrow> micros" where
  "wm_state resource st =
     (case sql_find st_resource resource st of
        None \<Rightarrow> 0
      | Some r \<Rightarrow> (case st_watermark r of None \<Rightarrow> 0 | Some w \<Rightarrow> w))"

definition wm_of :: "string \<Rightarrow> syncdb \<Rightarrow> micros" where
  "wm_of resource db = wm_state resource (db_state db)"

text \<open>A failing read is not reported as an empty result.\<close>

definition read_faults_proper :: "sync_env \<Rightarrow> bool" where
  "read_faults_proper env \<longleftrightarrow>
     (case se_read env of None \<Rightarrow> True | Some e \<Rightarrow> \<not> errors_is e ''no rows in result set'')"

lemma read_watermark_wm:
  "read_faults_proper env \<Longrightarrow> read_watermark env resource db = Inr wm \<Longrightarrow> wm = wm_of resource db"
  by (auto simp: read_watermark_def read_faults_proper_def wm_of_def wm_state_def split: option.splits if_splits)

lemma read_watermark_ok: "se_read env = None \<Longrightarrow> read_watermark env resource db = Inr (wm_of resource db)"
  by (auto simp: read_watermark_def wm_of_def wm_state_def split: option.splits)

lemma wm_state_failed [simp]:
  "wm_state resource (sql_upsert st_resource merge_failed (failed_state env s cause) st) = wm_state resource st"
  by (auto simp: wm_state_def state_failed.find_upsert failed_state_def merge_failed_def split: option.split)

lemma wm_state_success [simp]:
  "wm_state resource (sql_upsert st_resource merge_success (success_state env s wm) st) =
     (if resource = sy_resource s then wm else wm_state resource st)"
  by (auto simp: wm_state_def state_success.find_upsert success_state_def merge_success_def split: option.split)

lemma pass_wm_ge:
  assumes "pass_spec env s run_id db res db'" and "read_faults_proper env"
  shows "wm_of resource db \<le> wm_of resource db'"
  using assms(1)
proof (cases rule: pass_spec.cases)
  case (advanced wm rows err)
  then show ?thesis
    using read_watermark_wm [OF assms(2) advanced(3)] max_time_ge [of wm rows] by (simp add: wm_of_def)
qed (simp_all add: wm_of_def)

lemma pass_wm_error:
  assumes "pass_spec env s run_id db (n, Some e) db'" and "\<nexists>c. e = ErrWrap ''commit sync tx'' c"
  shows "wm_of resource db' = wm_of resource db"
  using assms(1)
proof (cases rule: pass_spec.cases)
  case (advanced wm rows)
  with assms(2) show ?thesis by auto
qed (simp_all add: wm_of_def)

lemma pass_log:
  assumes "pass_spec env s run_id db res db'"
  shows "db_runs db' = db_runs db
    \<or> (\<exists>r. db_runs db' = db_runs db @ [r] \<and> rr_id r = run_id \<and> rr_finished r \<noteq> None
        \<and> (rr_status r = ''success'' \<or> rr_status r = ''failed'' \<and> wm_of (sy_resource s) db' = wm_of (sy_resource s) db))"
  using assms
proof (cases rule: pass_spec.cases)
  case (logged k cause)
  then show ?thesis by (simp add: fail_run_row_def new_run_def wm_of_def)
next
  case (advanced wm rows err)
  then show ?thesis by (simp add: finish_run_row_def new_run_def)
qed simp

section \<open>The mirror invariant\<close>

text \<open>Every source row up to the watermark is in the mirror, as it is in the source.\<close>

definition mirrored :: "vps_row \<Rightarrow> kar_row list \<Rightarrow> bool" where
  "mirrored r kar \<longleftrightarrow>
     (case sql_find kr_nik_hris (vr_nik_hris r) kar of None \<Rightarrow> False | Some k \<Rightarrow> reflects r k)"

definition mirror_upto :: "micros \<Rightarrow> vps_row list \<Rightarrow> kar_row list \<Rightarrow> bool" where
  "mirror_upto wm rows kar \<longleftrightarrow> list_all (\<lambda>r. wm < vr_updated_at r \<or> mirrored r kar) rows"

lemma keyed_inj: "keyed key t \<Longrightarrow> x \<in> set t \<Longrightarrow> y \<in> set t \<Longrightarrow> key x = key y \<Longrightarrow> x = y"
  by (auto simp: keyed_def distinct_map dest: inj_onD)

lemma find_upsert_all:
  assumes "keyed vr_nik_hris rows" and "set out \<subseteq> set rows" and "r \<in> set rows"
  shows "sql_find kr_nik_hris (vr_nik_hris r) (upsert_all env out t) =
    (if r \<in> set out then Some (mirror_row env r) else sql_find kr_nik_hris (vr_nik_hris r) t)"
proof (cases "r \<in> set out")
  case True
  have "\<exists>q. sql_find kr_nik_hris (vr_nik_hris r) (rev (map (mirror_row env) out)) = Some q"
    using True by (auto simp: sql_find_None_iff image_iff simp flip: not_None_eq intro!: bexI [of _ r])
  then obtain q where q: "sql_find kr_nik_hris (vr_nik_hris r) (rev (map (mirror_row env) out)) = Some q" ..
  then obtain x where x: "x \<in> set out" "q = mirror_row env x" "vr_nik_hris x = vr_nik_hris r"
    by (auto dest!: sql_find_SomeD)
  then have "x = r" using assms by (auto intro: keyed_inj)
  with q x True show ?thesis by (simp add: kar_table.find_upserts)
next
  case False
  then have "vr_nik_hris r \<notin> kr_nik_hris ` set (map (mirror_row env) out)"
    using assms by (auto dest: keyed_inj)
  with False show ?thesis by (simp add: kar_table.find_upserts_other)
qed

lemma mirrored_upsert_all:
  assumes "keyed vr_nik_hris rows" and "set out \<subseteq> set rows" and "r \<in> set rows"
    and "r \<in> set out \<or> mirrored r t"
  shows "mirrored r (upsert_all env out t)"
  using assms(4) by (auto simp: mirrored_def find_upsert_all [OF assms(1-3)] reflects_mirror_row)

lemma batch_of_cases: "batch_of env s db = [] \<or> (\<exists>wm. se_fetch env wm = (batch_of env s db, None))"
  by (auto simp: batch_of_def split: sum.split prod.split option.split)

definition tie_free :: "(micros \<Rightarrow> vps_row list \<times> goerr option) \<Rightarrow> vps_row list \<Rightarrow> bool" where
  "tie_free fetch rows \<longleftrightarrow>
     (\<forall>since out r. fetch since = (out, None) \<and> r \<in> set rows \<and> since < vr_updated_at r
        \<and> vr_updated_at r = max_time since out \<longrightarrow> r \<in> set out)"

context source
begin

lemma unique_times_tie_free:
  assumes "inj_on vr_updated_at (set rows)"
  shows "tie_free fetch rows"
  unfolding tie_free_def
proof (intro allI impI, elim conjE)
  fix since out r
  assume f: "fetch since = (out, None)" and r: "r \<in> set rows" "since < vr_updated_at r"
    and eq: "vr_updated_at r = max_time since out"
  then obtain x where x: "x \<in> set out" "max_time since out = vr_updated_at x"
    using fold_max_attained [of out since] by (auto simp: max_time_def)
  with fetch_sound [OF f] have "x \<in> set rows" by auto
  with x r eq assms show "r \<in> set out" by (metis inj_onD)
qed

lemma pass_mirror:
  assumes pass: "pass_spec env s run_id db res db'" and fetch: "se_fetch env = fetch"
    and proper: "read_faults_proper env" and keyed: "keyed vr_nik_hris rows" and ties: "tie_free fetch rows"
    and inv: "mirror_upto (wm_of (sy_resource s) db) rows (db_kar db)"
  shows "mirror_upto (wm_of (sy_resource s) db') rows (db_kar db')"
proof -
  have sub: "set (batch_of env s db) \<subseteq> set rows"
    using batch_of_cases [of env s db] fetch_sound fetch by auto
  have part: "mirror_upto (wm_of (sy_resource s) db) rows (upsert_all env (take k (batch_of env s db)) (db_kar db))" for k
  proof -
    have "set (take k (batch_of env s db)) \<subseteq> set rows" using sub set_take_subset by (metis subset_trans)
    from mirrored_upsert_all [OF keyed this, of _ "db_kar db" env] inv show ?thesis
      by (auto simp: mirror_upto_def list_all_iff)
  qed
  from pass show ?thesis
  proof (cases rule: pass_spec.cases)
    case (advanced wm out err)
    have wm: "wm = wm_of (sy_resource s) db" using read_watermark_wm [OF proper advanced(3)] .
    have f: "fetch wm = (out, None)" using advanced(4) fetch by simp
    have "mirrored r (upsert_all env out (db_kar db))"
      if r: "r \<in> set rows" "vr_updated_at r \<le> max_time wm out" for r
    proof (rule mirrored_upsert_all [OF keyed _ r(1)])
      show "set out \<subseteq> set rows" using fetch_sound [OF f] by auto
      show "r \<in> set out \<or> mirrored r (db_kar db)"
      proof (cases "wm < vr_updated_at r")
        case True
        with skipped_only_ties [OF f r(1) True r(2)] ties f r(1) show ?thesis
          by (auto simp: tie_free_def)
      next
        case False
        with inv r(1) wm show ?thesis by (auto simp: mirror_upto_def list_all_iff)
      qed
    qed
    then have "mirror_upto (max_time wm out) rows (upsert_all env out (db_kar db))"
      unfolding mirror_upto_def list_all_iff by (meson not_le)
    then show ?thesis using advanced(6) by (simp add: wm_of_def)
  qed (use part in \<open>simp_all add: wm_of_def\<close>)
qed

end

section \<open>A healthy pass\<close>

definition sync_healthy :: "sync_env \<Rightarrow> bool" where
  "sync_healthy env \<longleftrightarrow>
     se_begin env = None \<and> (\<forall>st. se_fault env st = None) \<and> se_commit env = None \<and> se_read env = None
     \<and> pg_healthy (se_pg env)"

lemma sync_healthy_ok:
  assumes "sync_healthy env" and "run_id \<notin> rr_id ` set (db_runs db)"
    and "se_fetch env (wm_of (sy_resource s) db) = (rows, None)" and "list_all row_ok rows"
  shows "sync_karyawan env s run_id db =
    ((int (length rows), None),
     \<lparr>db_kar = upsert_all env rows (db_kar db),
      db_state = sql_upsert st_resource merge_success
        (success_state env s (max_time (wm_of (sy_resource s) db) rows)) (db_state db),
      db_runs = db_runs db @ [finish_run_row (se_now env TxFinishRun) (int (length rows)) (new_run env s run_id)]\<rparr>)"
proof -
  have pg: "pg_healthy (se_pg env)" and rd: "se_read env = None" and begin0: "se_begin env = None"
    and ok: "\<And>st. se_fault env st = None" and cm: "se_commit env = None"
    using assms(1) by (simp_all add: sync_healthy_def)
  have fin: "update_run run_id (finish_run_row (se_now env TxFinishRun) n)
      ((running_tx env s run_id db)\<lparr>tx_state := st\<rparr>) =
    Inr ((running_tx env s run_id db)\<lparr>tx_state := st, tx_runs := db_runs db @
      [finish_run_row (se_now env TxFinishRun) n (new_run env s run_id)]\<rparr>)" for n st
    by (simp add: update_run_def running_tx_def update_new_run [OF assms(2)])
  have open_tx: "\<not> tx_aborted (running_tx env s run_id db)" by (simp add: running_tx_def)
  show ?thesis
    using assms(2,3) sync_rows_healthy [OF pg assms(4)] open_tx
    by (simp add: sync_karyawan_def begin0 tx_exec_def ok insert_run_begin sync_body_def
        read_watermark_ok [OF rd] sync_finish_def put_success_def fin tx_commit_def cm max_time_def [symmetric])
      (simp add: running_tx_def success_state_def)
qed

section \<open>Repeated passes\<close>

fun sync_passes :: "syncer \<Rightarrow> (sync_env \<times> string) list \<Rightarrow> syncdb \<Rightarrow> syncdb" where
  "sync_passes s [] db = db"
| "sync_passes s (p # ps) db = sync_passes s ps (snd (sync_karyawan (fst p) s (snd p) db))"

definition fresh_ids :: "(sync_env \<times> string) list \<Rightarrow> syncdb \<Rightarrow> bool" where
  "fresh_ids ps db \<longleftrightarrow> distinct (map snd ps) \<and> list_all (\<lambda>p. snd p \<notin> rr_id ` set (db_runs db)) ps"

lemma fresh_ids_Cons:
  assumes "fresh_ids (p # ps) db" and "db_runs db' = db_runs db \<or> (\<exists>r. db_runs db' = db_runs db @ [r] \<and> rr_id r = snd p)"
  shows "snd p \<notin> rr_id ` set (db_runs db) \<and> fresh_ids ps db'"
  using assms by (fastforce simp: fresh_ids_def list_all_iff image_iff)

lemma sync_log: "db_runs (snd (sync_karyawan env s run_id db)) = db_runs db
   \<or> (\<exists>r. db_runs (snd (sync_karyawan env s run_id db)) = db_runs db @ [r] \<and> rr_id r = run_id)"
  using pass_log [OF sync_karyawan_spec] by blast

text \<open>The rows still to be read.\<close>

definition newer :: "micros \<Rightarrow> vps_row list \<Rightarrow> vps_row set" where
  "newer wm rows = {r \<in> set rows. wm < vr_updated_at r}"

context source
begin

lemma newer_after:
  assumes f: "fetch wm = (out, None)" and keyed: "keyed vr_nik_hris rows"
  shows "card (newer (max_time wm out) rows) \<le> card (newer wm rows) - batch"
proof -
  have "newer (max_time wm out) rows \<subseteq> newer wm rows - set out"
    using max_time_ge [of wm out] fold_max_in [of _ out wm] by (fastforce simp: newer_def max_time_def)
  then have "card (newer (max_time wm out) rows) \<le> card (newer wm rows - set out)"
    by (intro card_mono) (simp_all add: newer_def)
  moreover have "card (newer wm rows - set out) \<le> card (newer wm rows) - batch"
  proof (cases "newer wm rows \<subseteq> set out")
    case True
    then have "newer wm rows - set out = {}" by blast
    then show ?thesis by (metis card.empty le0)
  next
    case False
    then have "length out = batch" using fetch_full [OF f] by (auto simp: newer_def)
    moreover have "distinct out" using fetch_distinct [OF f keyed] by (simp add: keyed_def distinct_map)
    moreover have "set out \<subseteq> newer wm rows" using fetch_sound [OF f] by (auto simp: newer_def)
    ultimately show ?thesis by (simp add: card_Diff_subset distinct_card)
  qed
  ultimately show ?thesis by simp
qed

lemma passes_converge:
  assumes envs: "list_all (\<lambda>p. sync_healthy (fst p) \<and> se_fetch (fst p) = fetch) ps"
    and total: "\<And>since. \<exists>out. fetch since = (out, None)"
    and rows: "list_all row_ok rows" "keyed vr_nik_hris rows" "tie_free fetch rows"
    and fresh: "fresh_ids ps db"
    and inv: "mirror_upto (wm_of (sy_resource s) db) rows (db_kar db)"
    and enough: "card (newer (wm_of (sy_resource s) db) rows) \<le> length ps * batch"
  shows "list_all (\<lambda>r. mirrored r (db_kar (sync_passes s ps db))) rows"
  using envs fresh inv enough
proof (induction ps arbitrary: db)
  case Nil
  then have "newer (wm_of (sy_resource s) db) rows = {}" by (simp add: newer_def)
  with Nil.prems show ?case by (auto simp: mirror_upto_def newer_def list_all_iff)
next
  case (Cons p ps)
  let ?wm = "wm_of (sy_resource s) db"
  let ?db = "snd (sync_karyawan (fst p) s (snd p) db)"
  have env: "sync_healthy (fst p)" "se_fetch (fst p) = fetch" using Cons.prems(1) by simp_all
  have id: "snd p \<notin> rr_id ` set (db_runs db)" and fresh': "fresh_ids ps ?db"
    using fresh_ids_Cons [OF Cons.prems(2) sync_log] by blast+
  obtain out where out: "fetch ?wm = (out, None)" using total by blast
  then have "list_all row_ok out" using fetch_sound rows(1) by (auto simp: list_all_iff)
  from sync_healthy_ok [OF env(1) id _ this] env(2) out
  have "wm_of (sy_resource s) ?db = max_time ?wm out" by (simp add: wm_of_def)
  then have "card (newer (wm_of (sy_resource s) ?db) rows) \<le> length ps * batch"
    using newer_after [OF out rows(2)] Cons.prems(4) by simp
  moreover have "mirror_upto (wm_of (sy_resource s) ?db) rows (db_kar ?db)"
    using env by (intro pass_mirror [OF sync_karyawan_spec _ _ rows(2,3) Cons.prems(3)])
      (simp_all add: read_faults_proper_def sync_healthy_def)
  ultimately show ?case using Cons.IH [OF _ fresh'] Cons.prems(1) by simp
qed

text \<open>When everything has been read, a pass changes nothing in the mirror.\<close>

lemma pass_idle:
  assumes "sync_healthy env" and "se_fetch env = fetch" and "run_id \<notin> rr_id ` set (db_runs db)"
    and "fetch (wm_of (sy_resource s) db) = (out, None)" and "newer (wm_of (sy_resource s) db) rows = {}"
  shows "fst (sync_karyawan env s run_id db) = (0, None)
    \<and> db_kar (snd (sync_karyawan env s run_id db)) = db_kar db
    \<and> wm_of (sy_resource s) (snd (sync_karyawan env s run_id db)) = wm_of (sy_resource s) db"
proof -
  have "out = []" using fetch_sound [OF assms(4)] assms(5) by (cases out) (auto simp: newer_def)
  with assms sync_healthy_ok [OF assms(1,3), of s "[]"] show ?thesis
    by (simp add: wm_of_def max_time_def)
qed

end

section \<open>Rows at or below the watermark\<close>

context source
begin

lemma pass_below_wm:
  assumes pass: "pass_spec env s run_id db res db'" and fetch: "se_fetch env = fetch"
    and proper: "read_faults_proper env" and keyed: "keyed vr_nik_hris rows"
    and r: "r \<in> set rows" "vr_updated_at r \<le> wm_of (sy_resource s) db"
  shows "sql_find kr_nik_hris (vr_nik_hris r) (db_kar db') = sql_find kr_nik_hris (vr_nik_hris r) (db_kar db)"
proof -
  have keep: "sql_find kr_nik_hris (vr_nik_hris r) (upsert_all env out (db_kar db)) =
      sql_find kr_nik_hris (vr_nik_hris r) (db_kar db)"
    if "fetch wm = (all, None)" "set out \<subseteq> set all" "wm = wm_of (sy_resource s) db" for wm all out
  proof -
    have sound: "x \<in> set rows \<and> wm < vr_updated_at x" if "x \<in> set out" for x
      using fetch_sound [OF \<open>fetch wm = (all, None)\<close>] \<open>set out \<subseteq> set all\<close> that by blast
    have "set out \<subseteq> set rows" using sound by blast
    moreover have "r \<notin> set out" using sound [of r] that(3) r(2) by auto
    ultimately show ?thesis using find_upsert_all [OF keyed _ r(1)] by simp
  qed
  have batch: "sql_find kr_nik_hris (vr_nik_hris r) (upsert_all env (take k (batch_of env s db)) (db_kar db)) =
      sql_find kr_nik_hris (vr_nik_hris r) (db_kar db)" for k
  proof (cases "batch_of env s db = []")
    case False
    then obtain wm where wm: "read_watermark env (sy_resource s) db = Inr wm"
      and f: "se_fetch env wm = (batch_of env s db, None)"
      by (auto simp: batch_of_def split: sum.splits prod.splits option.splits)
    have "fetch wm = (batch_of env s db, None)" using f fetch by simp
    then show ?thesis by (rule keep) (simp_all add: read_watermark_wm [OF proper wm] set_take_subset)
  qed simp
  from pass show ?thesis
  proof (cases rule: pass_spec.cases)
    case (advanced wm out err)
    have "fetch wm = (out, None)" using advanced(4) fetch by simp
    from keep [OF this order_refl read_watermark_wm [OF proper advanced(3)]] show ?thesis
      using advanced(6) by simp
  qed (use batch in simp_all)
qed

lemma passes_below_wm:
  assumes "list_all (\<lambda>p. se_fetch (fst p) = fetch \<and> read_faults_proper (fst p)) ps" and keyed: "keyed vr_nik_hris rows"
    and "r \<in> set rows" and "vr_updated_at r \<le> wm_of (sy_resource s) db"
  shows "sql_find kr_nik_hris (vr_nik_hris r) (db_kar (sync_passes s ps db))
    = sql_find kr_nik_hris (vr_nik_hris r) (db_kar db)"
  using assms(1,4)
proof (induction ps arbitrary: db)
  case Nil
  then show ?case by simp
next
  case (Cons p ps)
  let ?db = "snd (sync_karyawan (fst p) s (snd p) db)"
  have env: "se_fetch (fst p) = fetch" "read_faults_proper (fst p)" using Cons.prems(1) by simp_all
  have "wm_of (sy_resource s) db \<le> wm_of (sy_resource s) ?db"
    by (rule pass_wm_ge [OF sync_karyawan_spec env(2)])
  with Cons.prems(2) have "vr_updated_at r \<le> wm_of (sy_resource s) ?db" by simp
  from Cons.IH [OF _ this] Cons.prems pass_below_wm [OF sync_karyawan_spec env keyed assms(3) Cons.prems(2)]
  show ?case by simp
qed

lemma tied_row_skipped:
  assumes env: "sync_healthy env" "se_fetch env = fetch" "run_id \<notin> rr_id ` set (db_runs db)"
    and rows: "list_all row_ok rows" "keyed vr_nik_hris rows"
    and f: "fetch (wm_of (sy_resource s) db) = (out, None)"
    and r: "r \<in> set rows" "r \<notin> set out" "vr_updated_at r = max_time (wm_of (sy_resource s) db) out"
    and ps: "list_all (\<lambda>p. se_fetch (fst p) = fetch \<and> read_faults_proper (fst p)) ps"
  shows "sql_find kr_nik_hris (vr_nik_hris r) (db_kar (sync_passes s ((env, run_id) # ps) db))
    = sql_find kr_nik_hris (vr_nik_hris r) (db_kar db)"
proof -
  have sub: "set out \<subseteq> set rows" using fetch_sound [OF f] by auto
  then have "list_all row_ok out" using rows(1) by (auto simp: list_all_iff)
  from sync_healthy_ok [OF env(1,3) _ this, of s] f env(2)
  have db: "db_kar (snd (sync_karyawan env s run_id db)) = upsert_all env out (db_kar db)"
    and wm: "wm_of (sy_resource s) (snd (sync_karyawan env s run_id db)) = vr_updated_at r"
    by (simp_all add: wm_of_def r(3))
  have "sql_find kr_nik_hris (vr_nik_hris r) (upsert_all env out (db_kar db)) = sql_find kr_nik_hris (vr_nik_hris r) (db_kar db)"
    using find_upsert_all [OF rows(2) sub r(1)] r(2) by simp
  with passes_below_wm [OF ps rows(2) r(1), of s "snd (sync_karyawan env s run_id db)"] wm db
  show ?thesis by simp
qed

end

section \<open>Environments for evaluation\<close>

definition my_ref :: myenv where
  "my_ref = \<lparr>my_fault = (\<lambda>_. None), my_rows_err = None, my_le = byte_le, my_eq = (=)\<rparr>"

definition sync_ref :: "(micros \<Rightarrow> vps_row list \<times> goerr option) \<Rightarrow> sync_env" where
  "sync_ref fetch =
     \<lparr>se_started = 10, se_now = (\<lambda>_. 20), se_server_now = 15, se_begin = None, se_fault = (\<lambda>_. None),
      se_commit = None, se_read = None, se_pg = pg_ref, se_fetch = fetch\<rparr>"

lemma sync_ref_healthy: "sync_healthy (sync_ref fetch)" and sync_ref_fetch [simp]: "se_fetch (sync_ref fetch) = fetch"
  by (simp_all add: sync_ref_def sync_healthy_def pg_ref_healthy)

lemma healthy_proper: "sync_healthy env \<Longrightarrow> read_faults_proper env"
  by (simp add: sync_healthy_def read_faults_proper_def)

definition sample_src :: "string \<Rightarrow> micros \<Rightarrow> my_row" where
  "sample_src nik u =
     \<lparr>my_nik_hris = nik, my_nik_santos = None, my_nama_karyawan = Some ''Siti'', my_nama_departemen = Some ''HR'',
      my_nama_jabatan = None, my_tgl_bergabung = Some 1600000000000000, my_tgl_keluar = None,
      my_lokasi = Some ''JKT'', my_gender = Some ''P'', my_updated_at = Some u\<rparr>"

definition empty_db :: syncdb where
  "empty_db = \<lparr>db_kar = [], db_state = [], db_runs = []\<rparr>"

abbreviation kar_syncer :: syncer where
  "kar_syncer \<equiv> \<lparr>sy_resource = ''karyawan'', sy_batch = 500\<rparr>"

text \<open>A source server without faults over rows that can be read.\<close>

definition vps_total :: "myenv \<Rightarrow> my_row list \<Rightarrow> bool" where
  "vps_total my t \<longleftrightarrow> (\<forall>q. my_fault my q = None) \<and> my_rows_err my = None
     \<and> list_all (\<lambda>r. my_nama_karyawan r \<noteq> None \<and> my_updated_at r \<noteq> None) t"

lemma scan_all: "list_all (\<lambda>r. my_nama_karyawan r \<noteq> None \<and> my_updated_at r \<noteq> None) t \<Longrightarrow>
   \<exists>vs. map my_scan t = map Inr vs"
proof (induction t)
  case Nil
  then show ?case by simp
next
  case (Cons r t)
  then obtain vs where "map my_scan t = map Inr vs" by auto
  moreover obtain v where "my_scan r = Inr v" using Cons.prems by (auto simp: my_scan_def)
  ultimately have "map my_scan (r # t) = map Inr (v # vs)" by simp
  then show ?case ..
qed

lemma vps_total_fetch:
  assumes "vps_total my t"
  shows "\<exists>out. fetch_karyawan_updated_since my c t since = (out, None)"
proof -
  have "list_all (\<lambda>r. my_nama_karyawan r \<noteq> None \<and> my_updated_at r \<noteq> None) (fetch_query_rows my c since t)"
    using assms by (auto simp: vps_total_def list_all_iff fetch_query_rows_def set_my_order dest: in_set_takeD)
  from scan_all [OF this] show ?thesis using assms by (auto simp: fetch_ok_iff vps_total_def)
qed

lemma keyed_vps_rows: "keyed my_nik_hris t \<Longrightarrow> keyed vr_nik_hris (vps_rows t)"
proof (induction t)
  case Nil
  then show ?case by (simp add: vps_rows_def keyed_def map_filter_def)
next
  case (Cons r t)
  then show ?case
  proof (cases "my_scan r")
    case (Inr v)
    have "vr_nik_hris w \<noteq> vr_nik_hris v" if w: "w \<in> set (vps_rows t)" for w
    proof -
      obtain m where "m \<in> set t" "my_scan m = Inr w" using w set_vps_rows [of w t] by blast
      then show ?thesis using Cons.prems my_scanD [of m w] my_scanD [OF Inr]
        by (auto simp: keyed_def) (metis image_eqI)
    qed
    then have "vr_nik_hris v \<notin> vr_nik_hris ` set (vps_rows t)" by (metis imageE)
    moreover have "vps_rows (r # t) = v # vps_rows t" using Inr by (simp add: vps_rows_def map_filter_def)
    ultimately show ?thesis using Cons by (simp add: keyed_def)
  qed (simp add: vps_rows_def keyed_def map_filter_def)
qed

lemma sample_scan:
  "my_scan (sample_src nik u) = Inr \<lparr>vr_nik_hris = nik, vr_nik_santos = None, vr_nama_karyawan = ''Siti'',
     vr_nama_departemen = Some ''HR'', vr_nama_jabatan = None, vr_tgl_bergabung = Some 1600000000000000,
     vr_tgl_keluar = None, vr_lokasi = Some ''JKT'', vr_gender = Some ''P'', vr_updated_at = u\<rparr>"
  by (simp add: my_scan_def sample_src_def)

end
