(* ===== verification/SyncProps.thy ===== *)
theory SyncProps
  imports SyncMirror
begin

text \<open>
  The properties of \<open>SyncKaryawan\<close> and \<open>CleanupStaleRuns\<close>, over the model of \<^theory_text>\<open>Sync\<close> with
  \<open>vpsmysql.Client\<close> as its source.
\<close>

text \<open>
  Property C8. Every pass, whatever fails in it, ends in one of three ways: rolled back, with an
  error and no trace in the log or the state; logged, with an error, a "failed" run and the old
  watermark; or advanced, with the whole batch in the mirror, the watermark at its latest
  timestamp, a "success" run, and no error but possibly that of a commit that took effect. The
  detailed transaction, with its aborted states and dropped errors, refines this contract.
\<close>

theorem sync_refines_contract:
  "case sync_karyawan env s run_id db of (res, db') \<Rightarrow> pass_spec env s run_id db res db'"
  using sync_karyawan_spec [of env s run_id db] by (cases "sync_karyawan env s run_id db") simp

text \<open>
  A pass without faults mirrors its batch: it returns the number of rows and no
  error, each row of the batch is upserted in order, the watermark becomes the latest timestamp
  among the old watermark and the rows, and one run with status "success", its row count and
  its end time is appended to the log.
\<close>

theorem sync_success:
  assumes "sync_healthy env" and "run_id \<notin> rr_id ` set (db_runs db)"
    and "se_fetch env (wm_of (sy_resource s) db) = (rows, None)" and "list_all row_ok rows"
  shows "fst (sync_karyawan env s run_id db) = (int (length rows), None)
    \<and> db_kar (snd (sync_karyawan env s run_id db)) = fold kar_upsert_row (map (mirror_row env) rows) (db_kar db)
    \<and> wm_of (sy_resource s) (snd (sync_karyawan env s run_id db)) = Max (insert (wm_of (sy_resource s) db) (vr_updated_at ` set rows))
    \<and> db_runs (snd (sync_karyawan env s run_id db)) = db_runs db @
        [\<lparr>rr_id = run_id, rr_resource = sy_resource s, rr_started = se_started env,
          rr_finished = Some (se_now env TxFinishRun), rr_rows = int (length rows),
          rr_status = ''success'', rr_error = None\<rparr>]"
proof -
  have "max_time wm rows = Max (insert wm (vr_updated_at ` set rows))" for wm
    unfolding max_time_def
  proof (induction rows arbitrary: wm)
    case (Cons r rows)
    then show ?case by (cases "rows = []") (simp_all add: max.commute max.left_commute insert_commute)
  qed simp
  then show ?thesis
    using sync_healthy_ok [OF assms] by (simp add: wm_of_def finish_run_row_def new_run_def)
qed

lemma sync_success_witness:
  "fst (sync_karyawan (sync_ref (fetch_karyawan_updated_since my_ref \<lparr>vc_batch_size = 1\<rparr>
      [sample_src ''B2'' 2000000, sample_src ''A1'' 1000000])) kar_syncer ''r1'' empty_db) = (1, None)"
proof -
  let ?t = "[sample_src ''B2'' 2000000, sample_src ''A1'' 1000000]"
  have year: "year_ok 1000000" "year_ok 1600000000000000" by code_simp+
  obtain a where a: "my_scan (sample_src ''A1'' 1000000) = Inr a" "row_ok a"
    by (simp add: sample_scan row_ok_def year)
  have "fetch_karyawan_updated_since my_ref \<lparr>vc_batch_size = 1\<rparr> ?t (wm_of ''karyawan'' empty_db) = ([a], None)"
    using a(1) by (simp add: fetch_ok_iff fetch_query_rows_def my_ref_def wm_of_def wm_state_def empty_db_def
        my_newer_def my_order_def my_before_def my_time_def) (simp add: sample_src_def)
  then show ?thesis
    using sync_success [OF sync_ref_healthy, where run_id = "''r1''" and db = empty_db and s = kar_syncer] a(2)
    by (simp add: empty_db_def)
qed

text \<open>
  The watermark never moves back, of any resource and whatever fails, as long as a
  failing read of the state is not reported as an empty one.
\<close>

theorem sync_watermark_monotone:
  assumes "read_faults_proper env"
  shows "wm_of resource db \<le> wm_of resource (snd (sync_karyawan env s run_id db))"
  by (rule pass_wm_ge [OF sync_karyawan_spec assms])

lemma sync_watermark_monotone_witness:
  "wm_of ''karyawan'' empty_db
   \<le> wm_of ''karyawan'' (snd (sync_karyawan (sync_ref (\<lambda>_. ([], Some (ErrNew ''gone'')))) kar_syncer ''r1'' empty_db))"
  by (rule sync_watermark_monotone [OF healthy_proper [OF sync_ref_healthy]])

text \<open>
  An error keeps the watermark: when a pass returns an error other than that of the
  final commit, the watermark of every resource is what it was, so the next pass reads the same
  rows again; a commit error leaves either the old state or the complete new one.
\<close>

theorem sync_error_keeps_watermark:
  assumes "snd (fst (sync_karyawan env s run_id db)) = Some e" and "\<nexists>c. e = ErrWrap ''commit sync tx'' c"
  shows "wm_of resource (snd (sync_karyawan env s run_id db)) = wm_of resource db"
proof -
  have "fst (sync_karyawan env s run_id db) = (fst (fst (sync_karyawan env s run_id db)), Some e)"
    using assms(1) by (simp add: prod_eq_iff)
  with sync_karyawan_spec [of env s run_id db]
  have "pass_spec env s run_id db (fst (fst (sync_karyawan env s run_id db)), Some e)
    (snd (sync_karyawan env s run_id db))" by simp
  from pass_wm_error [OF this assms(2)] show ?thesis .
qed

lemma sync_error_keeps_watermark_witness:
  "wm_of ''karyawan'' (snd (sync_karyawan (sync_ref (\<lambda>_. ([], Some (ErrNew ''gone'')))) kar_syncer ''r1'' empty_db)) = 0"
proof -
  let ?env = "sync_ref (\<lambda>_. ([], Some (ErrNew ''gone'')))"
  have "snd (fst (sync_karyawan ?env kar_syncer ''r1'' empty_db)) = Some (ErrWrap ''fetch from source'' (ErrNew ''gone''))"
    by code_simp
  from sync_error_keeps_watermark [OF this, of "''karyawan''"] show ?thesis
    by (simp add: wm_of_def wm_state_def empty_db_def)
qed

text \<open>
  No pass leaves a run behind in the status "running", whatever fails: the log is
  unchanged, or exactly one run is appended, finished, under the pass's id, with the status
  "success", or with "failed" and an unmoved watermark. Runs that were in the log stay as they
  are.
\<close>

theorem sync_no_running_leak:
  "db_runs (snd (sync_karyawan env s run_id db)) = db_runs db
   \<or> (\<exists>r. db_runs (snd (sync_karyawan env s run_id db)) = db_runs db @ [r]
        \<and> rr_id r = run_id \<and> rr_finished r \<noteq> None
        \<and> (rr_status r = ''success''
           \<or> rr_status r = ''failed''
             \<and> wm_of (sy_resource s) (snd (sync_karyawan env s run_id db)) = wm_of (sy_resource s) db))"
  by (rule pass_log [OF sync_karyawan_spec])

text \<open>
  Property C1. The mirror is complete up to the watermark. If every readable source row with a
  timestamp up to the watermark is in the mirror with its current columns, the same holds after
  a pass, whatever fails in it, for the new watermark; provided NIKs are unique in the source
  and no two rows share a timestamp.
\<close>

theorem sync_mirror_invariant:
  assumes "se_fetch env = fetch_karyawan_updated_since my c t" and "read_faults_proper env"
    and "keyed my_nik_hris t" and "inj_on vr_updated_at (set (vps_rows t))"
    and "mirror_upto (wm_of (sy_resource s) db) (vps_rows t) (db_kar db)"
  shows "mirror_upto (wm_of (sy_resource s) (snd (sync_karyawan env s run_id db))) (vps_rows t)
    (db_kar (snd (sync_karyawan env s run_id db)))"
  using assms(1,2) keyed_vps_rows [OF assms(3)] vps.unique_times_tie_free [OF assms(4)] assms(5)
  by (rule vps.pass_mirror [OF sync_karyawan_spec])

lemma sample_rows:
  "map vr_nik_hris (vps_rows [sample_src ''B2'' 2000000, sample_src ''A1'' 1000000]) = [''B2'', ''A1'']"
  "map vr_updated_at (vps_rows [sample_src ''B2'' 2000000, sample_src ''A1'' 1000000]) = [2000000, 1000000]"
  by (simp_all add: vps_rows_def map_filter_def sample_scan)

lemma sample_rows_distinct:
  "inj_on vr_updated_at (set (vps_rows [sample_src ''B2'' 2000000, sample_src ''A1'' 1000000]))"
  "keyed my_nik_hris [sample_src ''B2'' 2000000, sample_src ''A1'' 1000000]"
  "mirror_upto 0 (vps_rows [sample_src ''B2'' 2000000, sample_src ''A1'' 1000000]) []"
  by (auto simp: vps_rows_def map_filter_def sample_scan keyed_def mirror_upto_def) (simp_all add: sample_src_def)

lemma sync_mirror_invariant_witness:
  "let db' = snd (sync_karyawan (sync_ref (fetch_karyawan_updated_since my_ref \<lparr>vc_batch_size = 1\<rparr>
      [sample_src ''B2'' 2000000, sample_src ''A1'' 1000000])) kar_syncer ''r1'' empty_db)
   in mirror_upto (wm_of ''karyawan'' db') (vps_rows [sample_src ''B2'' 2000000, sample_src ''A1'' 1000000]) (db_kar db')"
  using sync_mirror_invariant [OF sync_ref_fetch healthy_proper [OF sync_ref_healthy] sample_rows_distinct(2,1),
      where s = kar_syncer and db = empty_db and run_id = "''r1''"] sample_rows_distinct(3)
  by (simp add: wm_of_def wm_state_def empty_db_def Let_def)
text \<open>
  Property C10. The sync converges. Over a source that does not change, with unique NIKs and
  timestamps and rows that can be read and marshalled, enough passes without faults, with batch
  size \<open>b\<close> as many as it takes for \<open>b\<close> rows each to cover the rows newer than the watermark,
  bring every source row into the mirror as it is in the source.
\<close>

theorem sync_converges:
  assumes "list_all (\<lambda>p. sync_healthy (fst p) \<and> se_fetch (fst p) = fetch_karyawan_updated_since my c t) ps"
    and "fresh_ids ps db" and "vps_total my t" and "list_all row_ok (vps_rows t)"
    and "keyed my_nik_hris t" and "inj_on vr_updated_at (set (vps_rows t))"
    and "mirror_upto (wm_of (sy_resource s) db) (vps_rows t) (db_kar db)"
    and "card (newer (wm_of (sy_resource s) db) (vps_rows t)) \<le> length ps * nat (vc_batch_size c)"
  shows "list_all (\<lambda>r. mirrored r (db_kar (sync_passes s ps db))) (vps_rows t)"
  using assms(1) vps_total_fetch [OF assms(3)] assms(4) keyed_vps_rows [OF assms(5)]
    vps.unique_times_tie_free [OF assms(6)] assms(2,7,8)
  by (rule vps.passes_converge)

lemma card_newer: "card (newer w rows) \<le> length rows"
  by (rule order_trans [OF card_mono card_length]) (auto simp: newer_def)

lemma sync_converges_witness:
  "list_all (\<lambda>r. mirrored r (db_kar (sync_passes kar_syncer
      (map (\<lambda>i. (sync_ref (fetch_karyawan_updated_since my_ref \<lparr>vc_batch_size = 1\<rparr>
          [sample_src ''B2'' 2000000, sample_src ''A1'' 1000000]), i)) [''r1'', ''r2'']) empty_db)))
    (vps_rows [sample_src ''B2'' 2000000, sample_src ''A1'' 1000000])"
proof (rule sync_converges [OF _ _ _ _ sample_rows_distinct(2,1)])
  have year: "year_ok 1000000" "year_ok 2000000" "year_ok 1600000000000000" by code_simp+
  show "list_all row_ok (vps_rows [sample_src ''B2'' 2000000, sample_src ''A1'' 1000000])"
    by (simp add: vps_rows_def map_filter_def sample_scan row_ok_def year)
  show "vps_total my_ref [sample_src ''B2'' 2000000, sample_src ''A1'' 1000000]"
    by (simp add: vps_total_def my_ref_def sample_src_def)
  show "mirror_upto (wm_of (sy_resource kar_syncer) empty_db)
      (vps_rows [sample_src ''B2'' 2000000, sample_src ''A1'' 1000000]) (db_kar empty_db)"
    using sample_rows_distinct(3) by (simp add: wm_of_def wm_state_def empty_db_def)
  have "card (newer w (vps_rows [sample_src ''B2'' 2000000, sample_src ''A1'' 1000000])) \<le> 2" for w
    by (rule order_trans [OF card_newer]) (simp add: vps_rows_def map_filter_def sample_scan)
  then show "card (newer (wm_of (sy_resource kar_syncer) empty_db)
      (vps_rows [sample_src ''B2'' 2000000, sample_src ''A1'' 1000000]))
    \<le> length (map (\<lambda>i. (sync_ref (fetch_karyawan_updated_since my_ref \<lparr>vc_batch_size = 1\<rparr>
          [sample_src ''B2'' 2000000, sample_src ''A1'' 1000000]), i)) [''r1'', ''r2''])
      * nat (vc_batch_size \<lparr>vc_batch_size = 1\<rparr>)"
    by (simp add: numeral_2_eq_2)
qed (simp_all add: sync_ref_healthy fresh_ids_def empty_db_def)

text \<open>
  Property C21. A row tied with the end of a batch is lost. When a pass without faults cuts its
  batch so that a row with the same timestamp as the batch's last one stays out, the watermark
  moves to this timestamp, and no later pass, however many there are and whatever fails in
  them, ever reads the row: what the mirror holds under its NIK stays what it was before.
\<close>

theorem sync_loses_tied_row:
  assumes "sync_healthy env" and "se_fetch env = fetch_karyawan_updated_since my c t"
    and "run_id \<notin> rr_id ` set (db_runs db)" and "list_all row_ok (vps_rows t)" and "keyed my_nik_hris t"
    and "fetch_karyawan_updated_since my c t (wm_of (sy_resource s) db) = (out, None)"
    and "r \<in> set (vps_rows t)" and "r \<notin> set out" and "vr_updated_at r = max_time (wm_of (sy_resource s) db) out"
    and "list_all (\<lambda>p. se_fetch (fst p) = fetch_karyawan_updated_since my c t \<and> read_faults_proper (fst p)) ps"
  shows "sql_find kr_nik_hris (vr_nik_hris r) (db_kar (sync_passes s ((env, run_id) # ps) db))
    = sql_find kr_nik_hris (vr_nik_hris r) (db_kar db)"
  using assms(1-4) keyed_vps_rows [OF assms(5)] assms(6-10)
  by (rule vps.tied_row_skipped)

lemma sync_loses_tied_row_witness:
  "\<forall>n. sql_find kr_nik_hris ''B2'' (db_kar (sync_passes kar_syncer
      ((sync_ref (fetch_karyawan_updated_since my_ref \<lparr>vc_batch_size = 1\<rparr>
          [sample_src ''A1'' 1000000, sample_src ''B2'' 1000000]), ''r1'')
       # replicate n (sync_ref (fetch_karyawan_updated_since my_ref \<lparr>vc_batch_size = 1\<rparr>
          [sample_src ''A1'' 1000000, sample_src ''B2'' 1000000]), ''r2'')) empty_db)) = None"
proof
  fix n :: nat
  let ?t = "[sample_src ''A1'' 1000000, sample_src ''B2'' 1000000]"
  let ?fetch = "fetch_karyawan_updated_since my_ref \<lparr>vc_batch_size = 1\<rparr> ?t"
  have year: "year_ok 1000000" "year_ok 1600000000000000" by code_simp+
  obtain a b where a: "my_scan (sample_src ''A1'' 1000000) = Inr a" and b: "my_scan (sample_src ''B2'' 1000000) = Inr b"
    and u: "vr_updated_at a = 1000000" "vr_updated_at b = 1000000" "vr_nik_hris b = ''B2''" "a \<noteq> b"
    and ok: "row_ok a" "row_ok b"
    by (simp add: sample_scan row_ok_def year)
  have rows: "vps_rows ?t = [a, b]" using a b by (simp add: vps_rows_def map_filter_def)
  have out: "?fetch (wm_of (sy_resource kar_syncer) empty_db) = ([a], None)"
    using a by (simp add: fetch_ok_iff fetch_query_rows_def my_ref_def wm_of_def wm_state_def empty_db_def
        my_newer_def my_order_def my_before_def my_time_def) (simp add: sample_src_def)
  have "sql_find kr_nik_hris (vr_nik_hris b) (db_kar (sync_passes kar_syncer
      ((sync_ref ?fetch, ''r1'') # replicate n (sync_ref ?fetch, ''r2'')) empty_db))
    = sql_find kr_nik_hris (vr_nik_hris b) (db_kar empty_db)"
  proof (rule sync_loses_tied_row [OF sync_ref_healthy sync_ref_fetch _ _ _ out])
    show "vr_updated_at b = max_time (wm_of (sy_resource kar_syncer) empty_db) [a]"
      using u by (simp add: max_time_def wm_of_def wm_state_def empty_db_def)
    show "keyed my_nik_hris ?t" by (simp add: keyed_def sample_src_def)
  qed (use ok u in \<open>simp_all add: rows empty_db_def list_all_iff healthy_proper [OF sync_ref_healthy]\<close>)
  then show "sql_find kr_nik_hris ''B2'' (db_kar (sync_passes kar_syncer
      ((sync_ref ?fetch, ''r1'') # replicate n (sync_ref ?fetch, ''r2'')) empty_db)) = None"
    using u by (simp add: empty_db_def)
qed

text \<open>
  A pass with nothing new to read changes nothing but the log and the last-run
  columns: it returns 0, and the mirror table and the watermark are as before.
\<close>

theorem sync_idle:
  assumes "sync_healthy env" and "se_fetch env = fetch_karyawan_updated_since my c t" and "vps_total my t"
    and "run_id \<notin> rr_id ` set (db_runs db)" and "newer (wm_of (sy_resource s) db) (vps_rows t) = {}"
  shows "fst (sync_karyawan env s run_id db) = (0, None)
    \<and> db_kar (snd (sync_karyawan env s run_id db)) = db_kar db
    \<and> wm_of (sy_resource s) (snd (sync_karyawan env s run_id db)) = wm_of (sy_resource s) db"
proof -
  obtain out where "fetch_karyawan_updated_since my c t (wm_of (sy_resource s) db) = (out, None)"
    using vps_total_fetch [OF assms(3)] by blast
  from vps.pass_idle [OF assms(1,2,4) this assms(5)] show ?thesis .
qed

lemma sync_idle_witness:
  "fst (sync_karyawan (sync_ref (fetch_karyawan_updated_since my_ref \<lparr>vc_batch_size = 1\<rparr> [sample_src ''A1'' (- 5)]))
      kar_syncer ''r1'' empty_db) = (0, None)"
proof -
  have "newer (wm_of (sy_resource kar_syncer) empty_db) (vps_rows [sample_src ''A1'' (- 5)]) = {}"
    by (auto simp: newer_def vps_rows_def map_filter_def sample_scan wm_of_def wm_state_def empty_db_def)
  moreover have "vps_total my_ref [sample_src ''A1'' (- 5)]"
    by (simp add: vps_total_def my_ref_def sample_src_def)
  ultimately show ?thesis
    using sync_idle [OF sync_ref_healthy sync_ref_fetch] by (simp add: empty_db_def)
qed

text \<open>
  Property C30. When the statement that finishes the run fails, the pass loses its watermark and
  its log entry: the failed statement has aborted the transaction, so the commit that follows
  rolls back the new watermark and the run, whatever that commit itself reports. The upserts,
  made outside the transaction, stay, and the pass returns their number with the error.
\<close>

theorem sync_finalize_error_rolls_back:
  assumes "se_begin env = None" and "se_read env = None" and "pg_healthy (se_pg env)"
    and "\<And>st. se_fault env st = (if st = TxFinishRun then Some e else None)"
    and "run_id \<notin> rr_id ` set (db_runs db)"
    and "se_fetch env (wm_of (sy_resource s) db) = (rows, None)" and "list_all row_ok rows"
  shows "sync_karyawan env s run_id db =
    ((int (length rows), Some (ErrWrap ''finalize sync_run'' e)),
     db\<lparr>db_kar := fold kar_upsert_row (map (mirror_row env) rows) (db_kar db)\<rparr>)"
proof -
  have open_tx: "\<not> tx_aborted (running_tx env s run_id db)" by (simp add: running_tx_def)
  show ?thesis
    using assms(5,6) open_tx
    by (simp add: sync_karyawan_def assms(1) tx_exec_def assms(4) insert_run_begin sync_body_def
        read_watermark_ok [OF assms(2)] sync_rows_healthy [OF assms(3,7)] sync_finish_def put_success_def
        tx_commit_def)
qed

lemma sync_finalize_error_rolls_back_witness:
  "sync_karyawan ((sync_ref (\<lambda>_. ([], None)))\<lparr>se_fault := (\<lambda>st. if st = TxFinishRun then Some (ErrNew ''lost'') else None)\<rparr>)
     kar_syncer ''r1'' empty_db = ((0, Some (ErrWrap ''finalize sync_run'' (ErrNew ''lost''))), empty_db)"
  using sync_finalize_error_rolls_back
    [of "(sync_ref (\<lambda>_. ([], None)))\<lparr>se_fault := (\<lambda>st. if st = TxFinishRun then Some (ErrNew ''lost'') else None)\<rparr>"
      "ErrNew ''lost''" "''r1''" empty_db kar_syncer "[]"]
  by (simp add: sync_ref_def pg_ref_healthy empty_db_def)

text \<open>
  \<open>CleanupStaleRuns\<close> recovers exactly the stale runs: it returns their number,
  afterwards none is left, each becomes a finished "failed" run whose error text ends in the
  recovery note and keeps its identity and start, and every other run, one of another resource,
  finished, or younger than the cutoff, is untouched.
\<close>

theorem cleanup_recovers_stale_runs:
  "case cleanup_stale_runs None now0 now1 resource stale runs of (res, runs') \<Rightarrow>
     res = Inr (int (length (filter (stale_run resource (now0 - stale)) runs)))
     \<and> filter (stale_run resource (now0 - stale)) runs' = []
     \<and> list_all2 (\<lambda>r r'. if rr_resource r = resource \<and> rr_status r = ''running'' \<and> rr_started r < now0 - stale
          then rr_status r' = ''failed'' \<and> rr_finished r' = Some now1 \<and> rr_id r' = rr_id r
            \<and> rr_started r' = rr_started r \<and> rr_rows r' = rr_rows r
            \<and> rr_error r' = Some (coalesce_text (rr_error r) @ '' [recovered: stale running row]'')
          else r' = r) runs runs'"
proof -
  have "filter (stale_run resource c) (sql_update (stale_run resource c) (recover_run now1) runs) = []" for c
  proof -
    have "\<not> stale_run resource c (if stale_run resource c r then recover_run now1 r else r)" for r
      by (simp add: stale_run_def recover_run_def)
    then show ?thesis unfolding filter_empty_conv set_sql_update by blast
  qed
  moreover have "list_all2 (\<lambda>r r'. if rr_resource r = resource \<and> rr_status r = ''running'' \<and> rr_started r < c
          then rr_status r' = ''failed'' \<and> rr_finished r' = Some now1 \<and> rr_id r' = rr_id r
            \<and> rr_started r' = rr_started r \<and> rr_rows r' = rr_rows r
            \<and> rr_error r' = Some (coalesce_text (rr_error r) @ '' [recovered: stale running row]'')
          else r' = r) runs (sql_update (stale_run resource c) (recover_run now1) runs)" for c
    unfolding sql_update_def list.rel_map
    by (rule list.rel_refl_strong) (simp add: stale_run_def recover_run_def)
  ultimately show ?thesis
    unfolding cleanup_stale_runs_def Let_def option.case prod.case by blast
qed

lemma fnv_mult_inject: "(x :: 32 word) * 16777619 = y * 16777619 \<longleftrightarrow> x = y"
proof
  assume "x * 16777619 = y * 16777619"
  then have "x * 16777619 * 899433627 = y * 16777619 * 899433627" by (rule arg_cong)
  then have "x * (16777619 * 899433627) = y * (16777619 * 899433627)" by (simp only: mult.assoc)
  moreover have "(16777619 :: 32 word) * 899433627 = 1" by simp
  ultimately show "x = y" by (simp only: mult_1_right)
qed simp

lemma xor_cancel: "xor (x :: 32 word) z = xor y z \<longleftrightarrow> x = y"
proof
  assume "xor x z = xor y z"
  then have "xor (xor x z) z = xor (xor y z) z" by simp
  then show "x = y" by (simp only: xor.assoc xor_self_eq xor.right_neutral)
qed simp

lemma fnv_step_inject: "fnv_step h c = fnv_step h' c \<longleftrightarrow> h = h'"
  by (simp add: fnv_step_def fnv_mult_inject xor_cancel)

lemma fnv_step_char: "fnv_step h c = fnv_step h d \<longleftrightarrow> c = d"
proof
  assume "fnv_step h c = fnv_step h d"
  then have eq: "(word_of_nat (of_char c) :: 32 word) = word_of_nat (of_char d)"
    by (metis fnv_step_def fnv_mult_inject xor_cancel xor.commute)
  have "unat (word_of_nat (of_char x) :: 32 word) = of_char x" for x
  proof -
    have "of_char x < (4294967296 :: nat)" by (rule less_trans [of _ 256]) simp_all
    then show ?thesis by (simp add: unat_of_nat)
  qed
  with eq have "(of_char c :: nat) = of_char d" by metis
  then show "c = d" by simp
qed simp

lemma foldl_fnv_inject: "foldl fnv_step h s = foldl fnv_step h' s \<longleftrightarrow> h = h'"
  by (induction s arbitrary: h h') (simp_all add: fnv_step_inject)

text \<open>
  The lock key separates names that differ in one byte: \<open>hashtextSyncResource\<close>
  gives two names of equal length that differ in one position different keys, at any position
  and after any prefix, and its value fits the unsigned 32 bits of the lock key.
\<close>

theorem lock_key_separates:
  "(lock_key (p @ [c] @ q) = lock_key (p @ [d] @ q)) = (c = d) \<and> 0 \<le> lock_key p \<and> lock_key p < 2 ^ 32"
proof -
  have "lock_key p < 2 ^ LENGTH(32)" unfolding lock_key_def by (rule uint_lt2p)
  then show ?thesis
    by (simp add: lock_key_def hashtext_sync_resource_def foldl_fnv_inject fnv_step_char
        flip: word_uint_eq_iff)
qed

text \<open>The shape of a database: primary keys, and what the columns of a run say about each other.\<close>

definition run_wf :: "run_row \<Rightarrow> bool" where
  "run_wf r \<longleftrightarrow>
     (if rr_status r = ''running'' then rr_finished r = None \<and> rr_rows r = 0
      else if rr_status r = ''success'' then rr_finished r \<noteq> None \<and> 0 \<le> rr_rows r \<and> rr_error r = None
      else rr_status r = ''failed'' \<and> rr_finished r \<noteq> None \<and> rr_error r \<noteq> None)"

definition state_wf :: "state_row \<Rightarrow> bool" where
  "state_wf r \<longleftrightarrow>
     (if st_last_status r = Some ''success'' then st_watermark r \<noteq> None \<and> st_last_error r = None
      else st_last_status r = Some ''failed'' \<and> st_last_error r \<noteq> None)"

definition db_wf :: "syncdb \<Rightarrow> bool" where
  "db_wf db \<longleftrightarrow> keyed kr_nik_hris (db_kar db) \<and> keyed st_resource (db_state db) \<and> keyed rr_id (db_runs db)
     \<and> list_all run_wf (db_runs db) \<and> list_all state_wf (db_state db)"

lemma keyed_snoc: "keyed key t \<Longrightarrow> key r \<notin> key ` set t \<Longrightarrow> keyed key (t @ [r])"
  by (simp add: keyed_def)

lemma pass_wf:
  assumes "pass_spec env s run_id db res db'" and "db_wf db"
  shows "db_wf db'"
proof -
  have kar: "keyed kr_nik_hris (upsert_all env rows (db_kar db))" for rows
    using assms(2) by (simp add: db_wf_def kar_table.keyed_upserts)
  show ?thesis using assms(1)
  proof (cases rule: pass_spec.cases)
    case (rolled_back k)
    then show ?thesis using assms(2) kar by (simp add: db_wf_def)
  next
    case (logged cause k)
    have "list_all state_wf (sql_upsert st_resource merge_failed (failed_state env s cause) (db_state db))"
      using assms(2) state_failed.set_upsert_subset [of _ "failed_state env s cause" "db_state db"]
      by (fastforce simp: db_wf_def list_all_iff state_wf_def merge_failed_def failed_state_def)
    then show ?thesis
      using logged(1-3) assms(2) kar
      by (simp add: db_wf_def state_failed.keyed_upsert keyed_snoc new_run_def fail_run_row_def run_wf_def)
  next
    case (advanced wm rows err)
    have "list_all state_wf (sql_upsert st_resource merge_success (success_state env s (max_time wm rows)) (db_state db))"
      using assms(2) state_success.set_upsert_subset [of _ "success_state env s (max_time wm rows)" "db_state db"]
      by (fastforce simp: db_wf_def list_all_iff state_wf_def merge_success_def success_state_def)
    then show ?thesis
      using advanced assms(2) kar
      by (simp add: db_wf_def state_success.keyed_upsert keyed_snoc new_run_def finish_run_row_def run_wf_def)
  qed
qed

text \<open>
  Every pass keeps the database well-formed, whatever fails in it: the primary keys of
  the three tables stay unique, a run is "running" and unfinished, or "success", finished and
  without an error, or "failed", finished and with one, and a state row that says "success" has a
  watermark and no error while one that says "failed" has an error.
\<close>

theorem sync_keeps_db_wf:
  assumes "db_wf db"
  shows "db_wf (snd (sync_karyawan env s run_id db))"
  using sync_karyawan_spec assms by (rule pass_wf)

lemma sync_keeps_db_wf_witness:
  "db_wf (snd (sync_karyawan (sync_ref (\<lambda>_. ([], Some (ErrNew ''timeout'')))) kar_syncer ''r1'' empty_db))"
  by (rule sync_keeps_db_wf) (simp add: db_wf_def empty_db_def keyed_def)

end
