(* ===== verification/SourceLoops.thy ===== *)
theory SourceLoops
  imports GoStrconv
begin

text \<open>
  The two loops of the repository that work on a byte buffer by index, as the source writes
  them: \<open>itoa\<close> of \<open>internal/karyawan/repo.go\<close>, which fills an array of 20 bytes from its end, and
  \<open>splitLines\<close> of \<open>internal/setup/setup.go\<close>, which cuts slices between two indices. An index out
  of range is Go's run-time panic, a value of the model, and the loop of \<open>itoa\<close> is a partial
  function whose value \<^const>\<open>None\<close> is not returning. The theorems say that neither happens
  and that both compute what the list functions of \<^theory_text>\<open>GoStrconv\<close> compute, which the
  other theories use.
\<close>

section \<open>itoa\<close>

abbreviation index_panic :: goerr where
  "index_panic \<equiv> ErrSentinel ''runtime error: index out of range''"

text \<open>\<open>buf[pos] = b\<close> for an array.\<close>

definition set_byte :: "string \<Rightarrow> int \<Rightarrow> char \<Rightarrow> goerr + string" where
  "set_byte buf pos c =
     (if 0 \<le> pos \<and> pos < int (length buf) then Inr (buf[nat pos := c]) else Inl index_panic)"

partial_function (option) itoa_fill :: "int \<Rightarrow> int \<Rightarrow> string \<Rightarrow> (goerr + int \<times> string) option" where
  "itoa_fill i pos buf =
     (if i > 0
      then (case set_byte buf (pos - 1) (digit_char (i mod 10)) of
              Inl e \<Rightarrow> Some (Inl e)
            | Inr buf' \<Rightarrow> itoa_fill (i div 10) (pos - 1) buf')
      else Some (Inr (pos, buf)))"

definition itoa_go :: "int \<Rightarrow> (goerr + string) option" where
  "itoa_go i =
     (if i = 0 then Some (Inr ''0'')
      else
        let neg = i < 0;
            i' = (if neg then wrap64 (- i) else i)
        in case itoa_fill i' 20 (replicate 20 (CHR 0x00)) of
             None \<Rightarrow> None
           | Some (Inl e) \<Rightarrow> Some (Inl e)
           | Some (Inr (pos, buf)) \<Rightarrow>
               if neg
               then (case set_byte buf (pos - 1) (CHR ''-'') of
                       Inl e \<Rightarrow> Some (Inl e)
                     | Inr buf' \<Rightarrow> Some (Inr (drop (nat (pos - 1)) buf')))
               else Some (Inr (drop (nat pos) buf)))"

text \<open>What the loop leaves in the buffer when there is room for the digits.\<close>

lemma itoa_fill_room:
  "length (itoa_loop i []) \<le> p \<Longrightarrow> p \<le> length buf \<Longrightarrow>
   itoa_fill i (int p) buf =
     Some (Inr (int (p - length (itoa_loop i [])),
       take (p - length (itoa_loop i [])) buf @ itoa_loop i [] @ drop p buf))"
proof (induction "nat i" arbitrary: i p buf rule: less_induct)
  case less
  show ?case
  proof (cases "i > 0")
    case True
    let ?d = "itoa_loop (i div 10) []"
    have d: "itoa_loop i [] = ?d @ [digit_char (i mod 10)]" by (rule itoa_loop_step [OF True])
    with less.prems have p: "length ?d \<le> p - 1" "0 < p" "p - 1 < length buf" by simp_all
    have i: "int p - 1 = int (p - 1)" using p(2) by simp
    have store: "set_byte buf (int (p - 1)) c = Inr (buf[p - 1 := c])" for c
      using p(3) by (simp add: set_byte_def)
    have "itoa_fill i (int p) buf = itoa_fill (i div 10) (int (p - 1)) (buf[p - 1 := digit_char (i mod 10)])"
      using True itoa_fill.simps [of i "int p" buf, unfolded i store] by simp
    also have "\<dots> = Some (Inr (int (p - 1 - length ?d),
        take (p - 1 - length ?d) buf @ ?d @ drop (p - 1) (buf[p - 1 := digit_char (i mod 10)])))"
      using less.hyps [of "i div 10" "p - 1" "buf[p - 1 := digit_char (i mod 10)]"] True p by simp
    also have "drop (p - 1) (buf[p - 1 := digit_char (i mod 10)]) = digit_char (i mod 10) # drop p buf"
      using p Cons_nth_drop_Suc [of "p - 1" "buf[p - 1 := digit_char (i mod 10)]"] by simp
    finally show ?thesis using d by simp
  next
    case False
    then show ?thesis by (simp add: itoa_fill.simps [of i] itoa_loop_nonpos)
  qed
qed

lemma update_last_zero: "(replicate (Suc m) z @ xs)[m := c] = replicate m z @ c # xs"
  by (induction m) simp_all

text \<open>
  Property C39. \<open>itoa\<close> always returns: for every 64-bit integer its loop ends, never writes outside
  the array of 20 bytes, also for the 19 digits and the sign of the widest negative numbers, and
  the text is that of the list function.
\<close>

theorem itoa_terminates:
  assumes "- (2 ^ 63) \<le> i" and "i < 2 ^ 63"
  shows "itoa_go i = Some (Inr (itoa i)) \<and> length (itoa i) \<le> 20"
proof (cases "i = 0")
  case False
  define j where "j = (if i < 0 then wrap64 (- i) else i)"
  have "j < 2 ^ 63"
    using assms int64_range_wrap64 [of "- i"] by (simp add: j_def int64_range_def)
  then have "j < 10 ^ 19" by simp
  then have len: "length (itoa_loop j []) \<le> 19" by (rule itoa_loop_length)
  then have fill: "itoa_fill j 20 (replicate 20 (CHR 0x00)) =
      Some (Inr (int (20 - length (itoa_loop j [])), replicate (20 - length (itoa_loop j [])) (CHR 0x00) @ itoa_loop j []))"
    using itoa_fill_room [of j 20 "replicate 20 (CHR 0x00)"] by (simp del: replicate.simps)
  have "0 < 20 - length (itoa_loop j [])" using len by simp
  then obtain m where m: "20 - length (itoa_loop j []) = Suc m" using gr0_implies_Suc by blast
  have sign: "set_byte (replicate (Suc m) (CHR 0x00) @ itoa_loop j []) (int (Suc m) - 1) (CHR ''-'') =
      Inr (replicate m (CHR 0x00) @ CHR ''-'' # itoa_loop j [])"
    unfolding set_byte_def using update_last_zero [of m "CHR 0x00" "itoa_loop j []" "CHR ''-''"]
    by (simp del: replicate.simps)
  have "itoa i = (if i < 0 then CHR ''-'' # itoa_loop j [] else itoa_loop j [])"
    using False by (simp add: itoa_def j_def)
  with False len fill sign show ?thesis
    unfolding m by (simp add: itoa_go_def j_def [symmetric] Let_def del: replicate_Suc)
qed (simp add: itoa_go_def itoa_def)

lemma itoa_terminates_witness:
  "itoa_go (- 12) = Some (Inr (itoa (- 12))) \<and> length (itoa (- 12)) \<le> 20"
  by (rule itoa_terminates) simp_all

section \<open>splitLines\<close>

definition go_slice :: "'a list \<Rightarrow> nat \<Rightarrow> nat \<Rightarrow> 'a list" where
  "go_slice xs from_i to_i = take (to_i - from_i) (drop from_i xs)"

text \<open>The loop \<open>for i, c := range b\<close> from index \<open>i\<close> on, and what follows it.\<close>

function split_lines_from :: "string \<Rightarrow> nat \<Rightarrow> nat \<Rightarrow> string list \<Rightarrow> string list" where
  "split_lines_from b i start out =
     (if i < length b
      then if b ! i = CHR 0x0A
           then split_lines_from b (i + 1) (i + 1) (out @ [go_slice b start i])
           else split_lines_from b (i + 1) start out
      else if start < length b then out @ [go_slice b start (length b)]
      else out)"
  by pat_completeness auto
termination
  by (relation "measure (\<lambda>(b, i, start, out). length b - i)") auto

declare split_lines_from.simps [simp del]

definition split_lines_go :: "string \<Rightarrow> string list" where
  "split_lines_go b = split_lines_from b 0 0 []"

lemma go_slice_snoc: "start \<le> i \<Longrightarrow> i < length b \<Longrightarrow> go_slice b start (Suc i) = go_slice b start i @ [b ! i]"
  by (simp add: go_slice_def Suc_diff_le take_Suc_conv_app_nth)

lemma go_slice_Nil_iff: "start \<le> i \<Longrightarrow> i \<le> length b \<Longrightarrow> go_slice b start i = [] \<longleftrightarrow> start = i"
  by (auto simp: go_slice_def)

lemma split_lines_from_loop:
  "start \<le> i \<Longrightarrow> i \<le> length b \<Longrightarrow>
   split_lines_from b i start out = out @ split_lines_loop (rev (go_slice b start i)) (drop i b)"
proof (induction b i start out rule: split_lines_from.induct)
  case (1 b i start out)
  show ?case
  proof (cases "i < length b")
    case True
    then have d: "drop i b = b ! i # drop (Suc i) b" by (simp add: Cons_nth_drop_Suc)
    have empty: "go_slice b (Suc i) (Suc i) = []" by (simp add: go_slice_def)
    show ?thesis
      using 1 True by (simp add: split_lines_from.simps [of b i] d go_slice_snoc empty)
  next
    case False
    then show ?thesis
      using 1 go_slice_Nil_iff [of start i b] by (auto simp: split_lines_from.simps [of b "length b"])
  qed
qed

text \<open>
  Property C40. \<open>splitLines\<close>, with its indices and slices, computes the lines of the file: the result
  is that of the structural definition, no line contains a line feed, and the lines, each with a
  line feed after it, are the file again, with at most one line feed added at the end.
\<close>

theorem split_lines_go_eq:
  "split_lines_go b = split_lines b
   \<and> list_all (\<lambda>l. CHR 0x0A \<notin> set l) (split_lines_go b)
   \<and> (\<exists>pad. (pad = [] \<or> pad = nl) \<and> concat (map (\<lambda>l. l @ nl) (split_lines_go b)) = b @ pad)"
proof -
  have eq: "split_lines_go b = split_lines_loop [] b"
    using split_lines_from_loop [of 0 0 b "[]"] by (simp add: split_lines_go_def go_slice_def)
  show ?thesis
    using split_lines_loop_no_nl [of "[]" _ b] split_lines_loop_concat [of "[]" b]
    by (auto simp: eq split_lines_def list_all_iff)
qed

end
