(* ===== verification/SyncConc.thy ===== *)
theory SyncConc
  imports SyncMirror
begin

text \<open>
  Several synchronisation processes on one database: the passes of \<open>internal/sync/sync.go\<close> cut into
  the steps between which another process can run. A process takes the advisory lock with its
  transaction, reads the watermark and the batch, upserts row by row through the pool, and ends
  by a commit or a failure; at any point its transaction can be lost by the server, which
  releases the lock while the process goes on unaware, or the whole process can crash; a starting
  process runs \<open>CleanupStaleRuns\<close>. The steps are those of \<^theory_text>\<open>Sync\<close>: an undisturbed sequence of them
  is the function \<open>sync_karyawan\<close>.
\<close>

section \<open>Processes and steps\<close>

datatype proc =
    PIdle
  | PBegun string pgtx
  | PRows string pgtx "vps_row list" int micros

record conc =
  cc_db :: syncdb
  cc_lock :: "nat option"
  cc_proc :: "nat \<Rightarrow> proc"

definition conc_idle :: "syncdb \<Rightarrow> conc" where
  "conc_idle db = \<lparr>cc_db = db, cc_lock = None, cc_proc = (\<lambda>_. PIdle)\<rparr>"

text \<open>The end of process \<open>p\<close>'s transaction on the server, with the database it leaves.\<close>

definition end_tx :: "nat \<Rightarrow> proc \<Rightarrow> syncdb \<Rightarrow> conc \<Rightarrow> conc" where
  "end_tx p pr db c =
     \<lparr>cc_db = db, cc_lock = (if cc_lock c = Some p then None else cc_lock c), cc_proc = (cc_proc c)(p := pr)\<rparr>"

fun lose_tx :: "proc \<Rightarrow> proc" where
  "lose_tx PIdle = PIdle"
| "lose_tx (PBegun run_id tx) = PBegun run_id (tx\<lparr>tx_aborted := True\<rparr>)"
| "lose_tx (PRows run_id tx rs n m) = PRows run_id (tx\<lparr>tx_aborted := True\<rparr>) rs n m"

text \<open>
  A pass that fails before its run is inserted changes nothing and is no step; waiting for the
  lock is a state in which \<open>begin_pass\<close> is not enabled. Every step chooses its own environment.
\<close>

inductive sync_step :: "(sync_env \<Rightarrow> bool) \<Rightarrow> syncer \<Rightarrow> conc \<Rightarrow> conc \<Rightarrow> bool"
  for E :: "sync_env \<Rightarrow> bool" and s :: syncer where
  begin_pass:
    "E env \<Longrightarrow> se_begin env = None \<Longrightarrow> cc_proc c p = PIdle \<Longrightarrow> cc_lock c = None \<Longrightarrow>
     tx_exec env TxLock Inr (tx_begin (cc_db c)) = (None, tx1) \<Longrightarrow>
     tx_exec env TxInsertRun (insert_run run_id (sy_resource s) (se_started env)) tx1 = (None, tx2) \<Longrightarrow>
     sync_step E s c (c\<lparr>cc_lock := Some p, cc_proc := (cc_proc c)(p := PBegun run_id tx2)\<rparr>)"
| read_batch:
    "E env \<Longrightarrow> cc_proc c p = PBegun run_id tx \<Longrightarrow> read_watermark env (sy_resource s) (cc_db c) = Inr wm \<Longrightarrow>
     se_fetch env wm = (rs, None) \<Longrightarrow>
     sync_step E s c (c\<lparr>cc_proc := (cc_proc c)(p := PRows run_id tx rs 0 wm)\<rparr>)"
| read_fails:
    "E env \<Longrightarrow> cc_proc c p = PBegun run_id tx \<Longrightarrow>
     read_watermark env (sy_resource s) (cc_db c) = Inl e \<and> cause = ErrWrap ''read watermark'' e
     \<or> read_watermark env (sy_resource s) (cc_db c) = Inr wm \<and> se_fetch env wm = (rs, Some e)
       \<and> cause = ErrWrap ''fetch from source'' e \<Longrightarrow>
     sync_step E s c (end_tx p PIdle (snd (fail_run env s run_id cause tx (cc_db c))) c)"
| upsert_row:
    "E env \<Longrightarrow> cc_proc c p = PRows run_id tx (r # rs) n m \<Longrightarrow> json_marshal (raw_payload r) = Inr raw \<Longrightarrow>
     repo_upsert (se_pg env) (se_server_now env) (to_karyawan r raw) (db_kar (cc_db c)) = (Inr u, kar) \<Longrightarrow>
     sync_step E s c
       (c\<lparr>cc_db := (cc_db c)\<lparr>db_kar := kar\<rparr>,
          cc_proc := (cc_proc c)(p := PRows run_id tx rs (n + 1) (if vr_updated_at r > m then vr_updated_at r else m))\<rparr>)"
| row_fails:
    "E env \<Longrightarrow> cc_proc c p = PRows run_id tx (r # rs) n m \<Longrightarrow>
     sync_rows env [r] n m (db_kar (cc_db c)) = (Inl cause, kar) \<Longrightarrow>
     sync_step E s c (end_tx p PIdle (snd (fail_run env s run_id cause tx ((cc_db c)\<lparr>db_kar := kar\<rparr>))) c)"
| finish:
    "E env \<Longrightarrow> cc_proc c p = PRows run_id tx [] n m \<Longrightarrow>
     sync_step E s c (end_tx p PIdle (snd (sync_finish env s run_id n m tx (cc_db c))) c)"
| lose:
    "sync_step E s c (end_tx p (lose_tx (cc_proc c p)) (cc_db c) c)"
| crash:
    "sync_step E s c (end_tx p PIdle (cc_db c) c)"
| cleanup:
    "sync_step E s c (c\<lparr>cc_db := (cc_db c)\<lparr>db_runs :=
       snd (cleanup_stale_runs fault now0 now1 (sy_resource s) stale (db_runs (cc_db c)))\<rparr>\<rparr>)"

inductive sync_reachable :: "(sync_env \<Rightarrow> bool) \<Rightarrow> syncer \<Rightarrow> syncdb \<Rightarrow> conc \<Rightarrow> bool"
  for E :: "sync_env \<Rightarrow> bool" and s :: syncer and db0 :: syncdb where
  start: "sync_reachable E s db0 (conc_idle db0)"
| step: "sync_reachable E s db0 c \<Longrightarrow> sync_step E s c c' \<Longrightarrow> sync_reachable E s db0 c'"

section \<open>A pass is a sequence of steps\<close>

text \<open>An undisturbed process, and the rest of its batch in one go.\<close>

definition solo :: "nat \<Rightarrow> proc \<Rightarrow> syncdb \<Rightarrow> conc" where
  "solo p pr db = \<lparr>cc_db = db, cc_lock = Some p, cc_proc = (\<lambda>_. PIdle)(p := pr)\<rparr>"

lemma solo_simps [simp]:
  "cc_db (solo p pr db) = db" "cc_lock (solo p pr db) = Some p" "cc_proc (solo p pr db) p = pr"
  "end_tx p PIdle db' (solo p pr db) = conc_idle db'"
  "(solo p pr db)\<lparr>cc_proc := (cc_proc (solo p pr db))(p := pr')\<rparr> = solo p pr' db"
  "(solo p pr db)\<lparr>cc_db := db', cc_proc := (cc_proc (solo p pr db))(p := pr')\<rparr> = solo p pr' db'"
  by (simp_all add: solo_def end_tx_def conc_idle_def fun_eq_iff)

lemma solo_rows:
  assumes "E env"
  shows "case sync_rows env rs n m (db_kar db) of
      (Inr (n', m'), kar) \<Rightarrow> (sync_step E s)\<^sup>*\<^sup>* (solo p (PRows run_id tx rs n m) db)
        (solo p (PRows run_id tx [] n' m') (db\<lparr>db_kar := kar\<rparr>))
    | (Inl cause, kar) \<Rightarrow> (sync_step E s)\<^sup>*\<^sup>* (solo p (PRows run_id tx rs n m) db)
        (conc_idle (snd (fail_run env s run_id cause tx (db\<lparr>db_kar := kar\<rparr>))))"
proof (induction rs arbitrary: n m db)
  case Nil
  then show ?case by simp
next
  case (Cons r rs)
  have fails: "(sync_step E s)\<^sup>*\<^sup>* (solo p (PRows run_id tx (r # rs) n m) db)
      (conc_idle (snd (fail_run env s run_id cause tx (db\<lparr>db_kar := kar\<rparr>))))"
    if "sync_rows env [r] n m (db_kar db) = (Inl cause, kar)" for cause kar
    using sync_step.row_fails [where E = E and s = s and c = "solo p (PRows run_id tx (r # rs) n m) db" and p = p,
        OF assms solo_simps(3)] that by (auto intro!: r_into_rtranclp)
  show ?case
  proof (cases "json_marshal (raw_payload r)")
    case (Inl e)
    then show ?thesis using fails by simp
  next
    case raw: (Inr raw)
    obtain x kar where u: "repo_upsert (se_pg env) (se_server_now env) (to_karyawan r raw) (db_kar db) = (x, kar)"
      by (cases "repo_upsert (se_pg env) (se_server_now env) (to_karyawan r raw) (db_kar db)")
    show ?thesis
    proof (cases x)
      case (Inl e)
      then show ?thesis using fails raw u by simp
    next
      case (Inr y)
      let ?m = "if vr_updated_at r > m then vr_updated_at r else m"
      have "sync_step E s (solo p (PRows run_id tx (r # rs) n m) db)
          (solo p (PRows run_id tx rs (n + 1) ?m) (db\<lparr>db_kar := kar\<rparr>))"
        using sync_step.upsert_row [where E = E and s = s and c = "solo p (PRows run_id tx (r # rs) n m) db" and p = p,
            OF assms solo_simps(3) raw] u Inr by simp
      with Cons.IH [of "n + 1" ?m "db\<lparr>db_kar := kar\<rparr>"] raw u Inr show ?thesis
        by (auto split: sum.splits prod.splits intro: converse_rtranclp_into_rtranclp)
    qed
  qed
qed

lemma pass_is_steps:
  assumes "E env"
  shows "(sync_step E s)\<^sup>*\<^sup>* (conc_idle db) (conc_idle (snd (sync_karyawan env s run_id db)))"
proof (cases "\<exists>tx1 tx2. se_begin env = None \<and> tx_exec env TxLock Inr (tx_begin db) = (None, tx1)
    \<and> tx_exec env TxInsertRun (insert_run run_id (sy_resource s) (se_started env)) tx1 = (None, tx2)")
  case False
  then have "snd (sync_karyawan env s run_id db) = db"
    by (auto simp: sync_karyawan_def split: option.splits prod.splits)
  then show ?thesis by simp
next
  case True
  then obtain tx1 tx where tx: "se_begin env = None" "tx_exec env TxLock Inr (tx_begin db) = (None, tx1)"
    "tx_exec env TxInsertRun (insert_run run_id (sy_resource s) (se_started env)) tx1 = (None, tx)" by blast
  then have pass: "sync_karyawan env s run_id db = sync_body env s run_id tx db" by (simp add: sync_karyawan_def)
  have "sync_step E s (conc_idle db) (solo 0 (PBegun run_id tx) db)"
    using sync_step.begin_pass [where E = E and s = s and c = "conc_idle db" and p = 0, OF assms tx(1) _ _ _ tx(3)] tx(2)
    by (simp add: conc_idle_def solo_def)
  moreover have "(sync_step E s)\<^sup>*\<^sup>* (solo 0 (PBegun run_id tx) db) (conc_idle (snd (sync_body env s run_id tx db)))"
  proof (cases "\<exists>wm rs. read_watermark env (sy_resource s) db = Inr wm \<and> se_fetch env wm = (rs, None)")
    case False
    then obtain e wm rs cause where "(read_watermark env (sy_resource s) db = Inl e \<and> cause = ErrWrap ''read watermark'' e
       \<or> read_watermark env (sy_resource s) db = Inr wm \<and> se_fetch env wm = (rs, Some e)
       \<and> cause = ErrWrap ''fetch from source'' e)"
      by (metis sum.exhaust option.exhaust prod.exhaust)
    then show ?thesis
      using sync_step.read_fails [where E = E and s = s and c = "solo 0 (PBegun run_id tx) db" and p = 0,
          OF assms solo_simps(3), of e cause wm rs]
      by (auto simp: sync_body_def intro!: r_into_rtranclp)
  next
    case True
    then obtain wm rs where b: "read_watermark env (sy_resource s) db = Inr wm" "se_fetch env wm = (rs, None)" by blast
    have first: "sync_step E s (solo 0 (PBegun run_id tx) db) (solo 0 (PRows run_id tx rs 0 wm) db)"
      using sync_step.read_batch [where E = E and s = s and c = "solo 0 (PBegun run_id tx) db" and p = 0,
          OF assms solo_simps(3)] b by simp
    have last: "sync_step E s (solo 0 (PRows run_id tx [] n m) db')
        (conc_idle (snd (sync_finish env s run_id n m tx db')))" for n m db'
      using sync_step.finish [where E = E and s = s and c = "solo 0 (PRows run_id tx [] n m) db'" and p = 0,
          OF assms solo_simps(3)] by simp
    have "(sync_step E s)\<^sup>*\<^sup>* (solo 0 (PRows run_id tx rs 0 wm) db) (conc_idle (snd (sync_body env s run_id tx db)))"
      using solo_rows [where E = E and s = s and p = 0 and rs = rs and n = 0 and m = wm and db = db
          and run_id = run_id and tx = tx, OF assms] b
        rtranclp.rtrancl_into_rtrancl [where r = "sync_step E s" and a = "solo 0 (PRows run_id tx rs 0 wm) db", OF _ last]
      by (auto simp: sync_body_def split: sum.splits prod.splits)
    with first show ?thesis by (rule converse_rtranclp_into_rtranclp)
  qed
  ultimately show ?thesis by (simp add: pass converse_rtranclp_into_rtranclp)
qed

section \<open>The lock and the log\<close>

fun open_tx :: "proc \<Rightarrow> (string \<times> pgtx) option" where
  "open_tx PIdle = None"
| "open_tx (PBegun run_id tx) = (if tx_aborted tx then None else Some (run_id, tx))"
| "open_tx (PRows run_id tx rs n m) = (if tx_aborted tx then None else Some (run_id, tx))"

text \<open>An open transaction is up to date: it has seen all that is committed, and its own run.\<close>

definition tx_current :: "syncer \<Rightarrow> syncdb \<Rightarrow> string \<Rightarrow> pgtx \<Rightarrow> bool" where
  "tx_current s db run_id tx \<longleftrightarrow>
     run_id \<notin> rr_id ` set (db_runs db) \<and> (\<exists>env. tx = running_tx env s run_id db)"

definition no_running :: "run_row list \<Rightarrow> bool" where
  "no_running runs \<longleftrightarrow> list_all (\<lambda>r. rr_status r \<noteq> ''running'') runs"

definition lock_inv :: "syncer \<Rightarrow> conc \<Rightarrow> bool" where
  "lock_inv s c \<longleftrightarrow> no_running (db_runs (cc_db c))
     \<and> (\<forall>p run_id tx. open_tx (cc_proc c p) = Some (run_id, tx) \<longrightarrow>
          cc_lock c = Some p \<and> tx_current s (cc_db c) run_id tx)"

lemma lock_invD:
  "lock_inv s c \<Longrightarrow> open_tx (cc_proc c p) = Some (run_id, tx) \<Longrightarrow> cc_lock c = Some p \<and> tx_current s (cc_db c) run_id tx"
  by (simp add: lock_inv_def)

lemma tx_current_kar [simp]: "tx_current s (db\<lparr>db_kar := kar\<rparr>) run_id tx = tx_current s db run_id tx"
  by (simp add: tx_current_def running_tx_def)

lemma lose_tx_closed [simp]: "open_tx (lose_tx pr) = None"
  by (cases pr) simp_all

lemma tx_current_open: "tx_current s db run_id tx \<Longrightarrow> \<not> tx_aborted tx"
  by (auto simp: tx_current_def running_tx_def)

text \<open>What the end of a pass leaves in the database, by a commit of one new run or not at all.\<close>

definition tx_effect :: "syncer \<Rightarrow> pgtx \<Rightarrow> micros \<Rightarrow> syncdb \<Rightarrow> syncdb \<Rightarrow> bool" where
  "tx_effect s tx m db db' \<longleftrightarrow> db' = db
     \<or> \<not> tx_aborted tx \<and> (\<exists>st run. rr_status run \<noteq> ''running''
         \<and> db' = db\<lparr>db_state := st, db_runs := db_runs db @ [run]\<rparr>
         \<and> (wm_state (sy_resource s) st = wm_state (sy_resource s) (db_state db) \<or> wm_state (sy_resource s) st = m))"

lemma tx_effectI:
  "\<not> tx_aborted tx \<Longrightarrow> rr_status run \<noteq> ''running'' \<Longrightarrow>
   wm_state (sy_resource s) st = wm_state (sy_resource s) (db_state db) \<or> wm_state (sy_resource s) st = m \<Longrightarrow>
   tx_effect s tx m db (db\<lparr>db_state := st, db_runs := db_runs db @ [run]\<rparr>)"
  unfolding tx_effect_def by blast

lemma tx_effect_wm: "tx_effect s tx (wm_of (sy_resource s) db) db db' \<Longrightarrow>
   wm_of (sy_resource s) db' = wm_of (sy_resource s) db \<and> db_kar db' = db_kar db"
  by (auto simp: tx_effect_def wm_of_def)

lemma fail_run_effect:
  assumes "tx_aborted tx \<or> tx_current s db run_id tx"
  shows "tx_effect s tx (wm_of (sy_resource s) db) db (snd (fail_run env s run_id cause tx db))"
proof -
  let ?tx = "mark_run_failed env s run_id cause tx"
  from tx_commit_cases [of env ?tx db] show ?thesis
  proof
    assume c: "\<not> tx_aborted ?tx \<and> snd (tx_commit env ?tx db) = db\<lparr>db_state := tx_state ?tx, db_runs := tx_runs ?tx\<rparr>"
    then have "\<not> tx_aborted tx" using mark_aborted by metis
    with assms obtain env0 where fresh: "run_id \<notin> rr_id ` set (db_runs db)" and tx: "tx = running_tx env0 s run_id db"
      by (auto simp: tx_current_def)
    have "?tx = tx\<lparr>tx_state := sql_upsert st_resource merge_failed (failed_state env s cause) (db_state db),
        tx_runs := db_runs db @ [fail_run_row (se_now env TxFailRun) (err_text cause) (new_run env0 s run_id)]\<rparr>"
      using c tx
      by (auto simp: mark_run_failed_def tx_exec_def running_tx_def update_run_def put_failed_def
          update_new_run [OF fresh] failed_state_def split: option.splits)
    with c tx show ?thesis
      by (simp add: fail_run_def) (rule tx_effectI; simp add: running_tx_def fail_run_row_def)
  qed (simp add: fail_run_def tx_effect_def)
qed

lemma sync_finish_effect:
  assumes "tx_aborted tx \<or> tx_current s db run_id tx"
  shows "tx_effect s tx m db (snd (sync_finish env s run_id n m tx db))"
proof (cases "tx_aborted tx")
  case True
  then show ?thesis
    by (simp add: sync_finish_def tx_exec_def fail_run_def mark_aborted tx_commit_aborted tx_effect_def)
next
  case False
  with assms obtain env0 where fresh: "run_id \<notin> rr_id ` set (db_runs db)" and tx: "tx = running_tx env0 s run_id db"
    by (auto simp: tx_current_def)
  let ?st = "sql_upsert st_resource merge_success (success_state env s m) (db_state db)"
  let ?tx2 = "tx\<lparr>tx_state := ?st, tx_runs := db_runs db @ [finish_run_row (se_now env TxFinishRun) n (new_run env0 s run_id)]\<rparr>"
  have put: "put_success (sy_resource s) m (se_now env TxPutState) tx = Inr (tx\<lparr>tx_state := ?st\<rparr>)"
    by (simp add: put_success_def success_state_def tx running_tx_def)
  have fin: "update_run run_id (finish_run_row (se_now env TxFinishRun) n) (tx\<lparr>tx_state := ?st\<rparr>) = Inr ?tx2"
    by (simp add: update_run_def update_new_run [OF fresh] tx running_tx_def)
  have "snd (sync_finish env s run_id n m tx db) = db
      \<or> snd (sync_finish env s run_id n m tx db) = snd (tx_commit env ?tx2 db)"
  proof (cases "se_fault env TxPutState")
    case (Some e)
    then show ?thesis
      using False by (simp add: sync_finish_def tx_exec_def fail_run_def mark_aborted tx_commit_aborted)
  next
    case None
    then show ?thesis
      using False by (auto simp: sync_finish_def tx_exec_def put fin tx_commit_aborted split: option.split prod.split)
  qed
  then consider "snd (sync_finish env s run_id n m tx db) = db"
    | "snd (sync_finish env s run_id n m tx db) = db\<lparr>db_state := tx_state ?tx2, db_runs := tx_runs ?tx2\<rparr>"
    using tx_commit_cases [of env ?tx2 db] by auto
  then show ?thesis
  proof cases
    case 2
    then show ?thesis using False by simp (rule tx_effectI; simp add: finish_run_row_def)
  qed (simp add: tx_effect_def)
qed

lemma no_running_append [simp]: "no_running (xs @ ys) \<longleftrightarrow> no_running xs \<and> no_running ys"
  by (simp add: no_running_def)

lemma no_running_cleanup:
  "no_running runs \<Longrightarrow> snd (cleanup_stale_runs fault now0 now1 resource stale runs) = runs"
proof -
  assume "no_running runs"
  then have "sql_update (stale_run resource cutoff) (recover_run now1) runs = runs" for cutoff
    by (intro sql_update_none) (auto simp: no_running_def list_all_iff stale_run_def)
  then show ?thesis by (auto simp: cleanup_stale_runs_def Let_def split: option.split)
qed

lemma tx_effect_no_running: "tx_effect s tx m db db' \<Longrightarrow> no_running (db_runs db) \<Longrightarrow> no_running (db_runs db')"
  by (auto simp: tx_effect_def no_running_def)

lemma open_tx_unique:
  "lock_inv s c \<Longrightarrow> open_tx (cc_proc c p) = Some x \<Longrightarrow> open_tx (cc_proc c q) = Some y \<Longrightarrow> p = q"
  using lock_invD [of s c p "fst x" "snd x"] lock_invD [of s c q "fst y" "snd y"] by simp

lemma lock_inv_end:
  assumes inv: "lock_inv s c"
    and eff: "tx_effect s tx m (cc_db c) db" and tx: "tx_aborted tx \<or> open_tx (cc_proc c p) = Some (run_id, tx)"
  shows "lock_inv s (end_tx p PIdle db c)"
proof -
  have "cc_lock (end_tx p PIdle db c) = Some q \<and> tx_current s db i t"
    if q: "open_tx (cc_proc (end_tx p PIdle db c) q) = Some (i, t)" for q i t
  proof -
    have ne: "q \<noteq> p" and o: "open_tx (cc_proc c q) = Some (i, t)" using q by (auto simp: end_tx_def split: if_splits)
    have "open_tx (cc_proc c p) = None" using open_tx_unique [OF inv o] ne by (cases "open_tx (cc_proc c p)") auto
    then have "db = cc_db c" using eff tx by (auto simp: tx_effect_def)
    then show ?thesis using lock_invD [OF inv o] ne by (auto simp: end_tx_def)
  qed
  then show ?thesis
    using tx_effect_no_running [OF eff] inv by (simp add: lock_inv_def end_tx_def)
qed

text \<open>Changes of the mirror table and of the local state of a process are invisible to the lock.\<close>

lemma lock_inv_proc:
  "lock_inv s c \<Longrightarrow> open_tx pr = open_tx (cc_proc c p) \<Longrightarrow> lock_inv s (c\<lparr>cc_proc := (cc_proc c)(p := pr)\<rparr>)"
  by (auto simp: lock_inv_def)

lemma lock_inv_kar: "lock_inv s c \<Longrightarrow> lock_inv s (c\<lparr>cc_db := (cc_db c)\<lparr>db_kar := kar\<rparr>\<rparr>)"
  by (simp add: lock_inv_def)

lemma current_tx:
  "lock_inv s c \<Longrightarrow> tx_aborted tx \<or> open_tx (cc_proc c p) = Some (run_id, tx) \<Longrightarrow>
   tx_aborted tx \<or> tx_current s (cc_db c) run_id tx"
  using lock_invD by blast

lemma lock_inv_step:
  assumes "sync_step E s c c'" and inv: "lock_inv s c"
  shows "lock_inv s c'"
  using assms(1)
proof cases
  case (begin_pass env p tx1 run_id tx2)
  have none: "open_tx (cc_proc c q) = None" for q
    using lock_invD [OF inv, of q] begin_pass(5) by (cases "open_tx (cc_proc c q)") auto
  have "run_id \<notin> rr_id ` set (db_runs (cc_db c)) \<and> tx2 = running_tx env s run_id (cc_db c)"
    using begin_pass(6,7) by (auto simp: tx_exec_def insert_run_begin split: option.splits if_splits sum.splits)
  then have "tx_current s (cc_db c) run_id tx2" by (auto simp: tx_current_def)
  then show ?thesis using begin_pass(1) inv none by (auto simp: lock_inv_def tx_current_open)
next
  case (read_batch env p run_id tx wm rs)
  show ?thesis unfolding read_batch(1) by (rule lock_inv_proc [OF inv]) (simp add: read_batch)
next
  case (read_fails env p run_id tx e cause wm rs)
  have tx: "tx_aborted tx \<or> open_tx (cc_proc c p) = Some (run_id, tx)" using read_fails(3) by simp
  show ?thesis
    unfolding read_fails(1) by (rule lock_inv_end [OF inv fail_run_effect [OF current_tx [OF inv tx]] tx])
next
  case (upsert_row env p run_id tx r rs n m raw u kar)
  have "lock_inv s (c\<lparr>cc_db := (cc_db c)\<lparr>db_kar := kar\<rparr>\<rparr>)" by (rule lock_inv_kar [OF inv])
  from lock_inv_proc [OF this, of "PRows run_id tx rs (n + 1) (if vr_updated_at r > m then vr_updated_at r else m)" p]
  show ?thesis using upsert_row by simp
next
  case (row_fails env p run_id tx r rs n m cause kar)
  let ?c = "c\<lparr>cc_db := (cc_db c)\<lparr>db_kar := kar\<rparr>\<rparr>"
  have inv': "lock_inv s ?c" by (rule lock_inv_kar [OF inv])
  have tx: "tx_aborted tx \<or> open_tx (cc_proc ?c p) = Some (run_id, tx)" using row_fails(3) by simp
  have "end_tx p PIdle (snd (fail_run env s run_id cause tx (cc_db ?c))) ?c = c'"
    unfolding row_fails(1) by (simp add: end_tx_def)
  then show ?thesis
    using lock_inv_end [OF inv' fail_run_effect [OF current_tx [OF inv' tx]] tx, of env cause] by simp
next
  case (finish env p run_id tx n m)
  have tx: "tx_aborted tx \<or> open_tx (cc_proc c p) = Some (run_id, tx)" using finish(3) by simp
  show ?thesis
    unfolding finish(1) by (rule lock_inv_end [OF inv sync_finish_effect [OF current_tx [OF inv tx]] tx])
next
  case (lose p)
  then show ?thesis using inv open_tx_unique [OF inv] by (auto simp: lock_inv_def end_tx_def)
next
  case (crash p)
  then show ?thesis using inv by (auto simp: lock_inv_def end_tx_def)
next
  case (cleanup fault now0 now1 stale)
  have "no_running (db_runs (cc_db c))" using inv by (simp add: lock_inv_def)
  then have "c' = c" using cleanup by (simp add: no_running_cleanup)
  then show ?thesis using inv by simp
qed

lemma lock_inv_idle: "no_running (db_runs db) \<Longrightarrow> lock_inv s (conc_idle db)"
  by (simp add: lock_inv_def conc_idle_def)

lemma reachable_lock_inv:
  assumes "sync_reachable E s db0 c" and "no_running (db_runs db0)"
  shows "lock_inv s c"
  using assms(1)
proof (induction rule: sync_reachable.induct)
  case start
  show ?case by (rule lock_inv_idle [OF assms(2)])
next
  case (step c c')
  then show ?case by (blast intro: lock_inv_step)
qed

section \<open>The mirror\<close>

fun pending_rows :: "proc \<Rightarrow> vps_row list" where
  "pending_rows (PRows run_id tx rs n m) = rs"
| "pending_rows PIdle = []"
| "pending_rows (PBegun run_id tx) = []"

text \<open>How far an open pass has got: a part of the batch after the watermark is mirrored.\<close>

definition batch_at ::
  "(micros \<Rightarrow> vps_row list \<times> goerr option) \<Rightarrow> micros \<Rightarrow> kar_row list \<Rightarrow> vps_row list \<Rightarrow> micros \<Rightarrow> bool" where
  "batch_at fetch wm kar rs m \<longleftrightarrow>
     (\<exists>done. fetch wm = (done @ rs, None) \<and> m = max_time wm done \<and> list_all (\<lambda>r. mirrored r kar) done)"

fun proc_ok :: "(micros \<Rightarrow> vps_row list \<times> goerr option) \<Rightarrow> micros \<Rightarrow> kar_row list \<Rightarrow> proc \<Rightarrow> bool" where
  "proc_ok fetch wm kar (PRows run_id tx rs n m) = (tx_aborted tx \<or> batch_at fetch wm kar rs m)"
| "proc_ok fetch wm kar PIdle = True"
| "proc_ok fetch wm kar (PBegun run_id tx) = True"

definition mirror_inv ::
  "(micros \<Rightarrow> vps_row list \<times> goerr option) \<Rightarrow> vps_row list \<Rightarrow> syncer \<Rightarrow> conc \<Rightarrow> bool" where
  "mirror_inv fetch rows s c \<longleftrightarrow>
     mirror_upto (wm_of (sy_resource s) (cc_db c)) rows (db_kar (cc_db c))
     \<and> (\<forall>p. set (pending_rows (cc_proc c p)) \<subseteq> set rows)
     \<and> (\<forall>p. proc_ok fetch (wm_of (sy_resource s) (cc_db c)) (db_kar (cc_db c)) (cc_proc c p))"

lemma mirror_upto_mono:
  "mirror_upto wm rows kar \<Longrightarrow> (\<And>r. r \<in> set rows \<Longrightarrow> mirrored r kar \<Longrightarrow> mirrored r kar') \<Longrightarrow> mirror_upto wm rows kar'"
  by (auto simp: mirror_upto_def list_all_iff)

lemma proc_ok_closed: "open_tx pr = None \<Longrightarrow> proc_ok fetch wm kar pr"
  by (cases pr) (simp_all split: if_splits)

text \<open>What the invariant asks of an environment: a fetch returns the batch or fails.\<close>

definition fetches :: "(micros \<Rightarrow> vps_row list \<times> goerr option) \<Rightarrow> sync_env \<Rightarrow> bool" where
  "fetches fetch env \<longleftrightarrow> (\<forall>wm. se_fetch env wm = fetch wm \<or> snd (se_fetch env wm) \<noteq> None) \<and> read_faults_proper env"

lemma fetchesI: "se_fetch env = fetch \<and> read_faults_proper env \<Longrightarrow> fetches fetch env"
  by (simp add: fetches_def)

context source
begin

lemma proc_ok_mono:
  "proc_ok fetch wm kar pr \<Longrightarrow> (\<And>r. r \<in> set rows \<Longrightarrow> mirrored r kar \<Longrightarrow> mirrored r kar') \<Longrightarrow> proc_ok fetch wm kar' pr"
proof (induction pr)
  case (PRows run_id tx rs n m)
  show ?case
  proof (cases "tx_aborted tx")
    case False
    with PRows obtain out where out: "fetch wm = (out @ rs, None)" "m = max_time wm out" "list_all (\<lambda>r. mirrored r kar) out"
      by (auto simp: batch_at_def)
    have "list_all (\<lambda>r. mirrored r kar') out"
      using out(3) PRows.prems(2) fetch_sound [OF out(1)] by (auto simp: list_all_iff)
    with out show ?thesis by (auto simp: batch_at_def)
  qed simp
qed simp_all

lemma upsert_keeps:
  assumes "keyed vr_nik_hris rows" and "r \<in> set rows" and "x \<in> set rows" and "mirrored x kar"
    and "kar' = kar \<or> kar' = kar_upsert_row (mirror_row env r) kar"
  shows "mirrored x kar'"
  using mirrored_upsert_all [OF assms(1) _ assms(3), of "[r]" kar env] assms(2,4,5) by auto

text \<open>The end of a pass that did not commit a new watermark, and the end of any other pass.\<close>

lemma mirror_inv_end:
  assumes inv: "mirror_inv fetch rows s c" and lock: "lock_inv s c"
    and tx: "tx_aborted tx \<or> open_tx (cc_proc c p) = Some (run_id, tx)"
    and eff: "tx_effect s tx m (cc_db c) db"
    and wm: "mirror_upto (wm_of (sy_resource s) db) rows (db_kar (cc_db c))"
  shows "mirror_inv fetch rows s (end_tx p PIdle db c)"
proof -
  have kar: "db_kar db = db_kar (cc_db c)" using eff by (auto simp: tx_effect_def)
  have "proc_ok fetch (wm_of (sy_resource s) db) (db_kar db) (cc_proc c q)" if "q \<noteq> p" for q
  proof (cases "open_tx (cc_proc c q)")
    case None
    then show ?thesis by (rule proc_ok_closed)
  next
    case (Some x)
    have "open_tx (cc_proc c p) = None"
      using open_tx_unique [OF lock Some] that by (cases "open_tx (cc_proc c p)") auto
    with tx eff have "db = cc_db c" by (auto simp: tx_effect_def)
    then show ?thesis using inv by (simp add: mirror_inv_def)
  qed
  then show ?thesis using inv wm kar by (simp add: mirror_inv_def end_tx_def)
qed

lemma mirror_inv_fail:
  assumes inv: "mirror_inv fetch rows s c" and lock: "lock_inv s c"
    and tx: "tx_aborted tx \<or> open_tx (cc_proc c p) = Some (run_id, tx)"
  shows "mirror_inv fetch rows s (end_tx p PIdle (snd (fail_run env s run_id cause tx (cc_db c))) c)"
proof -
  have eff: "tx_effect s tx (wm_of (sy_resource s) (cc_db c)) (cc_db c) (snd (fail_run env s run_id cause tx (cc_db c)))"
    by (rule fail_run_effect [OF current_tx [OF lock tx]])
  show ?thesis
    using tx_effect_wm [OF eff] inv by (intro mirror_inv_end [OF inv lock tx eff]) (simp add: mirror_inv_def)
qed

lemma batch_done_mirror:
  assumes "batch_at fetch wm kar [] m" and ties: "tie_free fetch rows" and "mirror_upto wm rows kar"
  shows "mirror_upto m rows kar"
proof -
  obtain out where f: "fetch wm = (out, None)" and m: "m = max_time wm out" and out: "list_all (\<lambda>r. mirrored r kar) out"
    using assms(1) by (auto simp: batch_at_def)
  have "mirrored r kar" if r: "r \<in> set rows" "vr_updated_at r \<le> m" for r
  proof (cases "wm < vr_updated_at r")
    case True
    with skipped_only_ties [OF f r(1) True] ties f r m have "r \<in> set out" by (auto simp: tie_free_def)
    with out show ?thesis by (simp add: list_all_iff)
  next
    case False
    with assms(3) r(1) show ?thesis by (auto simp: mirror_upto_def list_all_iff)
  qed
  then show ?thesis unfolding mirror_upto_def list_all_iff by (meson not_le)
qed

lemma mirror_inv_kar:
  assumes inv: "mirror_inv fetch rows s c" and keyed: "keyed vr_nik_hris rows" and r: "r \<in> set rows"
    and kar: "kar = db_kar (cc_db c) \<or> kar = kar_upsert_row (mirror_row env r) (db_kar (cc_db c))"
  shows "mirror_inv fetch rows s (c\<lparr>cc_db := (cc_db c)\<lparr>db_kar := kar\<rparr>\<rparr>)"
proof -
  have keep: "mirrored x kar" if "x \<in> set rows" "mirrored x (db_kar (cc_db c))" for x
    by (rule upsert_keeps [OF keyed r that kar])
  let ?wm = "wm_of (sy_resource s) (cc_db c)"
  have "mirror_upto ?wm rows kar"
    by (rule mirror_upto_mono [OF _ keep]) (use inv in \<open>simp_all add: mirror_inv_def\<close>)
  moreover have "proc_ok fetch ?wm kar (cc_proc c q)" for q
    by (rule proc_ok_mono [OF _ keep]) (use inv in \<open>simp_all add: mirror_inv_def\<close>)
  ultimately show ?thesis using inv by (simp add: mirror_inv_def wm_of_def)
qed

lemma mirror_inv_proc:
  "mirror_inv fetch rows s c \<Longrightarrow> set (pending_rows pr) \<subseteq> set rows \<Longrightarrow>
   proc_ok fetch (wm_of (sy_resource s) (cc_db c)) (db_kar (cc_db c)) pr \<Longrightarrow>
   mirror_inv fetch rows s (c\<lparr>cc_proc := (cc_proc c)(p := pr)\<rparr>)"
  by (simp add: mirror_inv_def)

text \<open>One upsert, successful or not, of the next row.\<close>

lemma next_row_kar:
  "json_marshal (raw_payload r) = Inr raw \<Longrightarrow>
   repo_upsert (se_pg env) (se_server_now env) (to_karyawan r raw) t = (x, kar) \<Longrightarrow>
   kar = t \<or> kar = kar_upsert_row (mirror_row env r) t"
  using repo_upsert_cases [of "se_pg env" "se_server_now env" "to_karyawan r raw" t]
  by (simp add: mirror_row_def raw_text_def)

lemma mirror_inv_step:
  assumes "sync_step E s c c'" and env: "\<And>env. E env \<Longrightarrow> fetches fetch env"
    and keyed: "keyed vr_nik_hris rows" and ties: "tie_free fetch rows"
    and inv: "mirror_inv fetch rows s c" and lock: "lock_inv s c"
  shows "mirror_inv fetch rows s c'"
  using assms(1)
proof cases
  case (begin_pass env p tx1 run_id tx2)
  then show ?thesis using inv by (simp add: mirror_inv_def)
next
  case (read_batch env p run_id tx wm rs)
  have wm: "wm = wm_of (sy_resource s) (cc_db c)" and f: "fetch wm = (rs, None)"
    using env [OF read_batch(2)] read_watermark_wm read_batch(4,5) by (auto simp: fetches_def) (metis option.distinct(1) snd_conv)
  have "batch_at fetch wm kar rs wm" for kar
    using f by (auto simp: batch_at_def max_time_def intro!: exI [of _ "[]"])
  then show ?thesis
    unfolding read_batch(1) using fetch_sound [OF f] wm by (intro mirror_inv_proc [OF inv]) auto
next
  case (read_fails env p run_id tx e cause wm rs)
  then show ?thesis using mirror_inv_fail [OF inv lock, of tx p run_id] by simp
next
  case (upsert_row env p run_id tx r rs n m raw u kar)
  have pend: "r \<in> set rows" "set rs \<subseteq> set rows"
    using inv upsert_row(3) unfolding mirror_inv_def by (metis list.set_intros pending_rows.simps(1) set_subset_Cons subset_iff)+
  have kar: "kar = kar_upsert_row (mirror_row env r) (db_kar (cc_db c))"
    using upsert_row(4,5) by (auto simp: mirror_row_def raw_text_def dest: repo_upsert_ok)
  let ?c = "c\<lparr>cc_db := (cc_db c)\<lparr>db_kar := kar\<rparr>\<rparr>"
  let ?m = "if vr_updated_at r > m then vr_updated_at r else m"
  have inv': "mirror_inv fetch rows s ?c"
    by (rule mirror_inv_kar [OF inv keyed pend(1)]) (rule disjI2 [OF kar])
  have "proc_ok fetch (wm_of (sy_resource s) (cc_db c)) kar (PRows run_id tx rs (n + 1) ?m)"
  proof (cases "tx_aborted tx")
    case False
    have "proc_ok fetch (wm_of (sy_resource s) (cc_db c)) kar (PRows run_id tx (r # rs) n m)"
      using inv' upsert_row(3) [symmetric] by (simp add: mirror_inv_def wm_of_def)
    with False obtain out where "fetch (wm_of (sy_resource s) (cc_db c)) = (out @ r # rs, None)"
      "m = max_time (wm_of (sy_resource s) (cc_db c)) out" "list_all (\<lambda>r. mirrored r kar) out"
      by (auto simp: batch_at_def)
    moreover have "mirrored r kar"
      using mirrored_upsert_all [OF keyed _ pend(1), where out = "[r]" and env = env and t = "db_kar (cc_db c)"] pend(1) kar by simp
    ultimately have "batch_at fetch (wm_of (sy_resource s) (cc_db c)) kar rs ?m"
      by (auto simp: batch_at_def max_time_def max_def intro!: exI [of _ "out @ [r]"])
    then show ?thesis by simp
  qed simp
  with mirror_inv_proc [OF inv', of "PRows run_id tx rs (n + 1) ?m" p] pend(2) show ?thesis
    unfolding upsert_row(1) by (simp add: wm_of_def)
next
  case (row_fails env p run_id tx r rs n m cause kar)
  have r: "r \<in> set rows"
    using inv row_fails(3) unfolding mirror_inv_def by (metis list.set_intros(1) pending_rows.simps(1) subset_iff)
  have kar: "kar = db_kar (cc_db c) \<or> kar = kar_upsert_row (mirror_row env r) (db_kar (cc_db c))"
    using row_fails(4) next_row_kar by (auto split: sum.splits prod.splits)
  let ?c = "c\<lparr>cc_db := (cc_db c)\<lparr>db_kar := kar\<rparr>\<rparr>"
  have tx: "tx_aborted tx \<or> open_tx (cc_proc ?c p) = Some (run_id, tx)" using row_fails(3) by simp
  have "end_tx p PIdle (snd (fail_run env s run_id cause tx (cc_db ?c))) ?c = c'"
    unfolding row_fails(1) by (simp add: end_tx_def)
  with mirror_inv_fail [OF mirror_inv_kar [OF inv keyed r kar] lock_inv_kar [OF lock] tx, of env cause]
  show ?thesis by simp
next
  case (finish env p run_id tx n m)
  have tx: "tx_aborted tx \<or> open_tx (cc_proc c p) = Some (run_id, tx)" using finish(3) by simp
  let ?db = "snd (sync_finish env s run_id n m tx (cc_db c))" and ?wm = "wm_of (sy_resource s) (cc_db c)"
  have eff: "tx_effect s tx m (cc_db c) ?db" by (rule sync_finish_effect [OF current_tx [OF lock tx]])
  have old: "mirror_upto ?wm rows (db_kar (cc_db c))" using inv by (simp add: mirror_inv_def)
  have "mirror_upto (wm_of (sy_resource s) ?db) rows (db_kar (cc_db c))"
  proof (cases "tx_aborted tx")
    case True
    then have "?db = cc_db c" using eff by (simp add: tx_effect_def)
    then show ?thesis using old by simp
  next
    case False
    have "proc_ok fetch ?wm (db_kar (cc_db c)) (cc_proc c p)" using inv by (simp add: mirror_inv_def)
    then have "batch_at fetch ?wm (db_kar (cc_db c)) [] m" using finish(3) False by simp
    from batch_done_mirror [OF this ties old] old eff show ?thesis
      by (auto simp: tx_effect_def wm_of_def)
  qed
  then show ?thesis unfolding finish(1) by (rule mirror_inv_end [OF inv lock tx eff])
next
  case (lose p)
  have "set (pending_rows (lose_tx pr)) = set (pending_rows pr)" for pr by (cases pr) simp_all
  then show ?thesis using lose inv by (auto simp: mirror_inv_def end_tx_def proc_ok_closed)
next
  case (crash p)
  then show ?thesis using inv by (simp add: mirror_inv_def end_tx_def)
next
  case (cleanup fault now0 now1 stale)
  have "no_running (db_runs (cc_db c))" using lock by (simp add: lock_inv_def)
  then have "c' = c" using cleanup by (simp add: no_running_cleanup)
  then show ?thesis using inv by simp
qed

lemma mirror_inv_idle: "mirror_upto (wm_of (sy_resource s) db) rows (db_kar db) \<Longrightarrow> mirror_inv fetch rows s (conc_idle db)"
  by (simp add: mirror_inv_def conc_idle_def)

lemma reachable_mirror_inv:
  assumes "sync_reachable E s db0 c" and env: "\<And>env. E env \<Longrightarrow> fetches fetch env"
    and rows: "keyed vr_nik_hris rows" "tie_free fetch rows"
    and start: "no_running (db_runs db0)" "mirror_upto (wm_of (sy_resource s) db0) rows (db_kar db0)"
  shows "mirror_inv fetch rows s c"
  using assms(1)
proof (induction rule: sync_reachable.induct)
  case start
  show ?case by (rule mirror_inv_idle [OF assms(6)])
next
  case (step c c')
  from reachable_lock_inv [OF step.hyps(1) assms(5)] mirror_inv_step [OF step.hyps(2) env rows step.IH]
  show ?case by blast
qed

end

lemma reachable_steps: "(sync_step E s)\<^sup>*\<^sup>* c c' \<Longrightarrow> sync_reachable E s db0 c \<Longrightarrow> sync_reachable E s db0 c'"
  by (induction rule: rtranclp_induct) (auto intro: sync_reachable.step)

lemma wm_step:
  assumes "sync_step E s c c'" and lock: "lock_inv s c"
    and ok: "\<And>p. proc_ok fetch (wm_of (sy_resource s) (cc_db c)) (db_kar (cc_db c)) (cc_proc c p)"
  shows "wm_of (sy_resource s) (cc_db c) \<le> wm_of (sy_resource s) (cc_db c')"
proof -
  have fails: "wm_of (sy_resource s) db \<le> wm_of (sy_resource s) (snd (fail_run env s run_id cause tx db))"
    if "lock_inv s (c\<lparr>cc_db := db\<rparr>)" "tx_aborted tx \<or> open_tx (cc_proc c p) = Some (run_id, tx)"
    for db env run_id cause tx p
  proof -
    have "tx_aborted tx \<or> tx_current s db run_id tx"
      using current_tx [OF that(1), of tx p run_id] that(2) by simp
    from tx_effect_wm [OF fail_run_effect [OF this]] show ?thesis by simp
  qed
  from assms(1) show ?thesis
  proof cases
    case (read_fails env p run_id tx e cause wm rs)
    then show ?thesis using fails [of "cc_db c" tx p run_id] lock by (simp add: end_tx_def)
  next
    case (row_fails env p run_id tx r rs n m cause kar)
    then show ?thesis
      using fails [of "(cc_db c)\<lparr>db_kar := kar\<rparr>" tx p run_id] lock_inv_kar [OF lock, of kar]
      by (simp add: end_tx_def wm_of_def)
  next
    case (finish env p run_id tx n m)
    have tx: "tx_aborted tx \<or> open_tx (cc_proc c p) = Some (run_id, tx)" using finish(3) by simp
    have "tx_aborted tx \<or> wm_of (sy_resource s) (cc_db c) \<le> m"
      using ok [of p] finish(3) max_time_ge by (auto simp: batch_at_def)
    with sync_finish_effect [OF current_tx [OF lock tx], of m env n] show ?thesis
      using finish(1) by (auto simp: end_tx_def tx_effect_def wm_of_def)
  qed (auto simp: end_tx_def wm_of_def)
qed

section \<open>Properties\<close>

text \<open>
  \<open>SyncKaryawan\<close> is one schedule of the step relation: the undisturbed steps of a
  process, from begin to commit, lead from an idle system over the database to an idle system
  over the database that the function leaves, whatever faults the environment holds.
\<close>

theorem pass_refines_steps:
  "(sync_step (\<lambda>e. e = env) s)\<^sup>*\<^sup>* (conc_idle db) (conc_idle (snd (sync_karyawan env s run_id db)))"
  by (rule pass_is_steps) simp

text \<open>
  Property C9. The advisory lock serialises the passes, and no schedule shows a running run. In
  every state that any number of processes reach, with crashes and lost transactions anywhere:
  at most one has an open transaction, and it holds the lock; no committed row of \<open>sync_runs\<close> is
  "running", so that \<open>CleanupStaleRuns\<close> finds nothing to recover, whatever its cut-off.
\<close>

theorem one_open_pass:
  assumes "sync_reachable E s db0 c" and "no_running (db_runs db0)"
  shows "(\<forall>p q. open_tx (cc_proc c p) \<noteq> None \<and> open_tx (cc_proc c q) \<noteq> None \<longrightarrow> p = q \<and> cc_lock c = Some p)
    \<and> no_running (db_runs (cc_db c))
    \<and> cleanup_stale_runs None now0 now1 (sy_resource s) stale (db_runs (cc_db c)) = (Inr 0, db_runs (cc_db c))"
proof -
  have inv: "lock_inv s c" by (rule reachable_lock_inv [OF assms])
  then have run: "no_running (db_runs (cc_db c))" by (simp add: lock_inv_def)
  then have "filter (stale_run (sy_resource s) cutoff) (db_runs (cc_db c)) = []" for cutoff
    by (auto simp: filter_empty_conv no_running_def list_all_iff stale_run_def)
  then have "fst (cleanup_stale_runs None now0 now1 (sy_resource s) stale (db_runs (cc_db c))) = Inr 0"
    by (simp add: cleanup_stale_runs_def Let_def)
  with no_running_cleanup [OF run] have "cleanup_stale_runs None now0 now1 (sy_resource s) stale (db_runs (cc_db c)) = (Inr 0, db_runs (cc_db c))"
    by (simp add: prod_eq_iff)
  moreover have "\<forall>p q. open_tx (cc_proc c p) \<noteq> None \<and> open_tx (cc_proc c q) \<noteq> None \<longrightarrow> p = q \<and> cc_lock c = Some p"
    using open_tx_unique [OF inv] lock_invD [OF inv] by fastforce
  ultimately show ?thesis using run by blast
qed

lemma one_open_pass_witness:
  "\<exists>c. sync_reachable (\<lambda>e. True) kar_syncer empty_db c \<and> open_tx (cc_proc c 3) \<noteq> None \<and> cc_lock c = Some 3
     \<and> open_tx (cc_proc c 4) = None"
proof -
  let ?env = "sync_ref (\<lambda>_. ([], None))"
  let ?tx = "running_tx ?env kar_syncer ''r1'' empty_db"
  let ?c = "(conc_idle empty_db)\<lparr>cc_lock := Some 3, cc_proc := (cc_proc (conc_idle empty_db))(3 := PBegun ''r1'' ?tx)\<rparr>"
  have "sync_step (\<lambda>e. True) kar_syncer (conc_idle empty_db) ?c"
    by (rule sync_step.begin_pass [where env = ?env and ?tx1.0 = "tx_begin empty_db" and c = "conc_idle empty_db" and p = 3
          and run_id = "''r1''" and ?tx2.0 = ?tx])
      (simp_all add: conc_idle_def tx_exec_def sync_ref_def insert_run_def running_tx_def new_run_def tx_begin_def empty_db_def)
  then have r: "sync_reachable (\<lambda>e. True) kar_syncer empty_db ?c" by (rule sync_reachable.step [OF sync_reachable.start])
  have "no_running (db_runs empty_db)" by (simp add: no_running_def empty_db_def)
  note once = conjunct1 [OF one_open_pass [OF r this, of 0 0 0]]
  have "open_tx (cc_proc ?c 3) \<noteq> None" by (simp add: conc_idle_def running_tx_def)
  with once have "open_tx (cc_proc ?c 4) = None" by (metis numeral_eq_iff semiring_norm(89))
  with r show ?thesis by (auto simp: running_tx_def intro!: exI [of _ ?c])
qed

text \<open>
  Property C2. Concurrency and crashes cost no row. From a database whose mirror is complete up to
  its watermark, in every state that any number of processes reach over an unchanging source
  with unique NIKs and timestamps, whatever statements fail, transactions are lost and
  processes crash in the middle of a batch, the mirror is complete up to the committed
  watermark, and no step moves the watermark back.
\<close>

theorem concurrent_mirror_invariant:
  assumes "sync_reachable E s db0 c"
    and "\<And>env. E env \<Longrightarrow> se_fetch env = fetch_karyawan_updated_since my cl t \<and> read_faults_proper env"
    and "keyed my_nik_hris t" and "inj_on vr_updated_at (set (vps_rows t))"
    and "no_running (db_runs db0)"
    and "mirror_upto (wm_of (sy_resource s) db0) (vps_rows t) (db_kar db0)"
  shows "mirror_upto (wm_of (sy_resource s) (cc_db c)) (vps_rows t) (db_kar (cc_db c))
    \<and> (\<forall>c'. sync_step E s c c' \<longrightarrow> wm_of (sy_resource s) (cc_db c) \<le> wm_of (sy_resource s) (cc_db c'))"
proof -
  have inv: "mirror_inv (fetch_karyawan_updated_since my cl t) (vps_rows t) s c"
    by (rule vps.reachable_mirror_inv [OF assms(1) fetchesI [OF assms(2)] keyed_vps_rows [OF assms(3)] vps.unique_times_tie_free [OF assms(4)] assms(5,6)])
  have lock: "lock_inv s c" by (rule reachable_lock_inv [OF assms(1,5)])
  have ok: "proc_ok (fetch_karyawan_updated_since my cl t) (wm_of (sy_resource s) (cc_db c)) (db_kar (cc_db c)) (cc_proc c p)" for p
    using inv by (simp add: mirror_inv_def)
  show ?thesis using inv wm_step [OF _ lock ok] by (auto simp: mirror_inv_def)
qed

lemma concurrent_mirror_invariant_witness:
  "let rows = [sample_src ''B2'' 2000000, sample_src ''A1'' 1000000];
       env = sync_ref (fetch_karyawan_updated_since my_ref \<lparr>vc_batch_size = 1\<rparr> rows);
       db = snd (sync_karyawan env kar_syncer ''r1'' empty_db)
   in mirror_upto (wm_of ''karyawan'' db) (vps_rows rows) (db_kar db)"
proof -
  let ?rows = "[sample_src ''B2'' 2000000, sample_src ''A1'' 1000000]"
  let ?env = "sync_ref (fetch_karyawan_updated_since my_ref \<lparr>vc_batch_size = 1\<rparr> ?rows)"
  have r: "sync_reachable (\<lambda>e. e = ?env) kar_syncer empty_db
      (conc_idle (snd (sync_karyawan ?env kar_syncer ''r1'' empty_db)))"
    by (rule reachable_steps [OF pass_is_steps sync_reachable.start]) simp
  have "inj_on vr_updated_at (set (vps_rows ?rows))" "keyed my_nik_hris ?rows"
    by (auto simp: vps_rows_def map_filter_def sample_scan keyed_def) (simp add: sample_src_def)
  from concurrent_mirror_invariant [OF r, of my_ref "\<lparr>vc_batch_size = 1\<rparr>" ?rows, OF _ this(2,1)] show ?thesis
    by (simp add: healthy_proper sync_ref_healthy conc_idle_def empty_db_def no_running_def wm_of_def wm_state_def
        mirror_upto_def vps_rows_def map_filter_def sample_scan)
qed

end
