(* ===== verification/ApiKey.thy ===== *)
theory ApiKey
  imports Karyawan GoSha256 GoEncoding
begin

text \<open>
  \<open>internal/apikey/store.go\<close>, the key table, and the two functions of \<open>internal/setup/setup.go\<close>
  that make a key and its hash, with \<open>insertAPIKey\<close> of \<open>cmd/setup/apikey_insert.go\<close>. The table
  holds only hashes; a lookup hashes the presented key.
\<close>

section \<open>The table\<close>

record key_row =
  kk_id :: string
  kk_hash :: string
  kk_description :: "string option"
  kk_created_at :: micros
  kk_last_used_at :: "micros option"
  kk_revoked :: bool

record key_entry =
  en_id :: string
  en_hash :: string
  en_description :: string
  en_created_at :: micros
  en_last_used_at :: "micros option"
  en_revoked :: bool

definition hash_api_key :: "string \<Rightarrow> string" where
  "hash_api_key plain = hex_encode (sha256 (bytes_of_string plain))"

definition api_key_prefix :: string where
  "api_key_prefix = ''ssogw_''"

definition generate_api_key :: "(nat \<Rightarrow> goerr + bytes) \<Rightarrow> goerr + string" where
  "generate_api_key rnd =
     (case rnd 32 of
        Inl e \<Rightarrow> Inl (ErrWrap ''rand'' e)
      | Inr b \<Rightarrow> Inr (api_key_prefix @ base64_rawurl_encode b))"

section \<open>Store\<close>

definition create_sql :: string where
  "create_sql = nl @ ''INSERT INTO api_keys (id, key_hash, description)'' @ nl @ ''VALUES ($1, $2, $3)''"

definition new_key_row :: "micros \<Rightarrow> key_entry \<Rightarrow> key_row" where
  "new_key_row now e =
     \<lparr>kk_id = en_id e, kk_hash = en_hash e, kk_description = Some (en_description e),
      kk_created_at = now, kk_last_used_at = None, kk_revoked = False\<rparr>"

definition key_create :: "pgenv \<Rightarrow> micros \<Rightarrow> key_entry \<Rightarrow> key_row list \<Rightarrow> goerr option \<times> key_row list" where
  "key_create env now e t =
     (case pg_fault env create_sql [ArgText (en_id e), ArgText (en_hash e), ArgText (en_description e)] of
        Some (err, applied) \<Rightarrow>
          (Some err, if applied \<and> en_id e \<notin> kk_id ` set t then t @ [new_key_row now e] else t)
      | None \<Rightarrow>
          if en_id e \<in> kk_id ` set t
          then (Some (ErrNew ''duplicate key value violates unique constraint''), t)
          else (None, t @ [new_key_row now e]))"

abbreviation sql_quotes :: string where
  "sql_quotes \<equiv> [CHR 0x27, CHR 0x27]"

definition get_by_hash_sql :: string where
  "get_by_hash_sql =
     nl @ ''SELECT id, key_hash, COALESCE(description,'' @ sql_quotes @ ''), created_at, last_used_at, revoked'' @
     nl @ ''FROM api_keys'' @
     nl @ ''WHERE key_hash = $1 AND revoked = false'' @
     nl @ ''LIMIT 1''"

definition scan_key :: "key_row \<Rightarrow> key_entry" where
  "scan_key r =
     \<lparr>en_id = kk_id r, en_hash = kk_hash r, en_description = coalesce_text (kk_description r),
      en_created_at = kk_created_at r, en_last_used_at = kk_last_used_at r, en_revoked = kk_revoked r\<rparr>"

abbreviation err_key_not_found :: goerr where
  "err_key_not_found \<equiv> ErrSentinel ''api key not found''"

definition live_key :: "string \<Rightarrow> key_row \<Rightarrow> bool" where
  "live_key hash r \<longleftrightarrow> kk_hash r = hash \<and> \<not> kk_revoked r"

definition get_by_hash :: "pgenv \<Rightarrow> string \<Rightarrow> key_row list \<Rightarrow> goerr + key_entry" where
  "get_by_hash env hash t =
     (let r = (case pg_fault env get_by_hash_sql [ArgText hash] of
                 Some (e, applied) \<Rightarrow> Inl e
               | None \<Rightarrow>
                   (case find (live_key hash) t of
                      None \<Rightarrow> Inl err_no_rows
                    | Some row \<Rightarrow> Inr (scan_key row)))
      in case r of
           Inl e \<Rightarrow>
             if errors_is e ''no rows in result set'' then Inl err_key_not_found
             else Inl (ErrWrap ''get api key'' e)
         | Inr en \<Rightarrow> Inr en)"

definition mark_used_sql :: string where
  "mark_used_sql = ''UPDATE api_keys SET last_used_at = now() WHERE id = $1''"

definition mark_used :: "pgenv \<Rightarrow> micros \<Rightarrow> string \<Rightarrow> key_row list \<Rightarrow> goerr option \<times> key_row list" where
  "mark_used env now key_id t =
     (let t' = sql_update (\<lambda>r. kk_id r = key_id) (\<lambda>r. r\<lparr>kk_last_used_at := Some now\<rparr>) t
      in case pg_fault env mark_used_sql [ArgText key_id] of
           Some (e, applied) \<Rightarrow> (Some e, if applied then t' else t)
         | None \<Rightarrow> (None, t'))"

section \<open>insertAPIKey\<close>

definition insert_key_sql :: string where
  "insert_key_sql =
     nl @ ''INSERT INTO api_keys (id, key_hash, description)'' @
     nl @ ''VALUES ($1, $2, $3)'' @
     nl @ ''ON CONFLICT (id) DO UPDATE SET'' @
     nl @ ''  key_hash    = EXCLUDED.key_hash,'' @
     nl @ ''  description = EXCLUDED.description''"

definition key_merge :: "key_row \<Rightarrow> key_row \<Rightarrow> key_row" where
  "key_merge old excluded = old\<lparr>kk_hash := kk_hash excluded, kk_description := kk_description excluded\<rparr>"

definition insert_api_key ::
  "pgenv \<Rightarrow> micros \<Rightarrow> key_entry option \<Rightarrow> key_row list \<Rightarrow> goerr option \<times> key_row list" where
  "insert_api_key env now eo t =
     (case eo of
        None \<Rightarrow> (Some (ErrNew ''nil api key entry''), t)
      | Some e \<Rightarrow>
          (let t' = sql_upsert kk_id key_merge (new_key_row now e) t
           in case pg_fault env insert_key_sql [ArgText (en_id e), ArgText (en_hash e), ArgText (en_description e)] of
                Some (err, applied) \<Rightarrow> (Some (ErrWrap ''upsert api key'' err), if applied then t' else t)
              | None \<Rightarrow> (None, t')))"

section \<open>Facts\<close>

interpretation key_table: keyed_table kk_id key_merge
  by unfold_locales (simp add: key_merge_def)

lemma hash_api_key_length: "length (hash_api_key k) = 64"
  by (simp add: hash_api_key_def length_hex_encode)

lemma get_by_hash_ok:
  "get_by_hash env hash t = Inr en \<Longrightarrow>
   \<exists>r \<in> set t. live_key hash r \<and> en = scan_key r \<and> find (live_key hash) t = Some r
     \<and> pg_fault env get_by_hash_sql [ArgText hash] = None"
  by (auto simp: get_by_hash_def Let_def dest: find_SomeD split: option.splits if_splits)

lemma get_by_hash_lookup:
  "pg_fault env get_by_hash_sql [ArgText hash] = None \<Longrightarrow>
   get_by_hash env hash t =
     (case find (live_key hash) t of None \<Rightarrow> Inl err_key_not_found | Some r \<Rightarrow> Inr (scan_key r))"
  by (auto simp: get_by_hash_def split: option.split)

lemma get_by_hash_fault:
  "pg_fault env get_by_hash_sql [ArgText hash] = Some (e, b) \<Longrightarrow> \<not> errors_is e ''no rows in result set'' \<Longrightarrow>
   get_by_hash env hash t = Inl (ErrWrap ''get api key'' e)"
  by (simp add: get_by_hash_def)

lemma mark_used_live: "map (live_key h) (snd (mark_used env now i t)) = map (live_key h) t"
proof -
  have "map (live_key h) (sql_update (\<lambda>r. kk_id r = i) (\<lambda>r. r\<lparr>kk_last_used_at := Some now\<rparr>) t) = map (live_key h) t"
    by (simp add: sql_update_def live_key_def)
  then show ?thesis by (simp add: mark_used_def Let_def split: option.split)
qed

lemma insert_api_key_cases:
  "snd (insert_api_key env now eo t) = t
   \<or> (\<exists>e. eo = Some e \<and> snd (insert_api_key env now eo t) = sql_upsert kk_id key_merge (new_key_row now e) t)"
  by (auto simp: insert_api_key_def Let_def split: option.splits)

section \<open>Properties\<close>

text \<open>
  Re-running setup never un-revokes a key: whatever entry is upserted and whether the
  statement fails or not, a row that was in the table keeps its revoked flag, its creation time
  and its last use, and a row under another id is not touched at all.
\<close>

theorem insert_api_key_keeps_revoked:
  "case sql_find kk_id i t of
     None \<Rightarrow> True
   | Some r \<Rightarrow>
       (case sql_find kk_id i (snd (insert_api_key env now eo t)) of
          None \<Rightarrow> False
        | Some r' \<Rightarrow> kk_revoked r' = kk_revoked r \<and> kk_created_at r' = kk_created_at r
            \<and> kk_last_used_at r' = kk_last_used_at r
            \<and> (r' = r \<or> (\<exists>e. eo = Some e \<and> en_id e = i \<and> kk_hash r' = en_hash e)))"
proof -
  consider "snd (insert_api_key env now eo t) = t"
    | e where "eo = Some e" "snd (insert_api_key env now eo t) = sql_upsert kk_id key_merge (new_key_row now e) t"
    using insert_api_key_cases by metis
  then show ?thesis
  proof cases
    case 2
    then show ?thesis
      by (auto simp: key_table.find_upsert key_merge_def new_key_row_def split: option.split)
  qed (simp split: option.split)
qed

lemma new_key_row_simps [simp]:
  "kk_id (new_key_row now e) = en_id e"
  "live_key (en_hash e) (new_key_row now e)"
  "live_key (en_hash e) (key_merge x (new_key_row now e)) = (\<not> kk_revoked x)"
  by (simp_all add: new_key_row_def live_key_def key_merge_def)

lemma find_live_upsert:
  assumes "\<And>r. r \<in> set t \<Longrightarrow> kk_hash r \<noteq> en_hash e" and "keyed kk_id t"
  shows "find (live_key (en_hash e)) (sql_upsert kk_id key_merge (new_key_row now e) t) =
    (case sql_find kk_id (en_id e) t of
       None \<Rightarrow> Some (new_key_row now e)
     | Some r \<Rightarrow> if kk_revoked r then None else Some (key_merge r (new_key_row now e)))"
  using assms
proof (induction t)
  case Nil
  then show ?case by simp
next
  case (Cons x t)
  have none: "find (live_key (en_hash e)) t = None"
    using Cons.prems by (auto simp: find_None_iff live_key_def)
  have "\<not> live_key (en_hash e) x" using Cons.prems by (simp add: live_key_def)
  with Cons none show ?case
    by (auto simp: keyed_def sql_find_None_iff [THEN iffD2])
qed

lemma inserted_key_found:
  assumes "insert_api_key env now (Some e) t = (None, t')" and "keyed kk_id t"
    and "\<And>r. r \<in> set t \<Longrightarrow> kk_hash r \<noteq> en_hash e"
    and "pg_fault env' get_by_hash_sql [ArgText (en_hash e)] = None"
  shows "case get_by_hash env' (en_hash e) t' of
      Inr en \<Rightarrow> en_id en = en_id e \<and> \<not> (\<exists>r \<in> set t. kk_id r = en_id e \<and> kk_revoked r)
    | Inl err \<Rightarrow> err = err_key_not_found \<and> (\<exists>r \<in> set t. kk_id r = en_id e \<and> kk_revoked r)"
proof -
  have t': "t' = sql_upsert kk_id key_merge (new_key_row now e) t"
    using assms(1) by (auto simp: insert_api_key_def Let_def split: option.splits)
  show ?thesis
  proof (cases "sql_find kk_id (en_id e) t")
    case None
    then show ?thesis
      using find_live_upsert [OF assms(3,2), of now] get_by_hash_lookup [OF assms(4)]
        sql_find_None_iff [THEN iffD1, OF None]
      by (auto simp add: t' None image_iff) (simp add: scan_key_def)
  next
    case (Some r)
    then have r: "r \<in> set t" "kk_id r = en_id e" using sql_find_SomeD by fastforce+
    then have uniq: "x = r" if "x \<in> set t" "kk_id x = en_id e" for x
      using assms(2) that r by (metis keyed_def distinct_map inj_onD)
    then have "(\<exists>x \<in> set t. kk_id x = en_id e \<and> kk_revoked x) = kk_revoked r" using r by blast
    moreover have "en_id (scan_key (key_merge r (new_key_row now e))) = en_id e"
      using r by (simp add: scan_key_def key_merge_def)
    ultimately show ?thesis
      using find_live_upsert [OF assms(3,2), of now] by (simp add: t' Some get_by_hash_lookup [OF assms(4)])
  qed
qed

text \<open>
  The key that setup hands to the operator authenticates, unless its id was revoked:
  after a successful \<open>insertAPIKey\<close> of an entry whose hash no row has yet, a lookup of the hash
  finds the entry's id, whether the row is new or replaced; under a revoked id it finds nothing.
\<close>

theorem inserted_key_lookup:
  assumes "insert_api_key env now (Some e) t = (None, t')" and "keyed kk_id t"
    and "\<And>r. r \<in> set t \<Longrightarrow> kk_hash r \<noteq> en_hash e"
    and "pg_fault env' get_by_hash_sql [ArgText (en_hash e)] = None"
  shows "case get_by_hash env' (en_hash e) t' of
      Inr en \<Rightarrow> en_id en = en_id e \<and> \<not> (\<exists>r \<in> set t. kk_id r = en_id e \<and> kk_revoked r)
    | Inl err \<Rightarrow> err = err_key_not_found \<and> (\<exists>r \<in> set t. kk_id r = en_id e \<and> kk_revoked r)"
  using assms by (rule inserted_key_found)

definition sample_entry :: "string \<Rightarrow> string \<Rightarrow> key_entry" where
  "sample_entry i h =
     \<lparr>en_id = i, en_hash = h, en_description = ''generated by setup'', en_created_at = 0,
      en_last_used_at = None, en_revoked = False\<rparr>"

lemma inserted_key_lookup_witness:
  "map_sum id en_id (get_by_hash pg_ref ''h2'' [(new_key_row 5 (sample_entry ''default'' ''h1''))\<lparr>kk_hash := ''h2''\<rparr>])
     = Inr ''default''"
proof -
  let ?t = "[new_key_row 5 (sample_entry ''default'' ''h1'')]"
  have params: "sql_params insert_key_sql = 3" "sql_params get_by_hash_sql = 1" by code_simp+
  have ins: "insert_api_key pg_ref 9 (Some (sample_entry ''default'' ''h2'')) ?t =
      (None, [(new_key_row 5 (sample_entry ''default'' ''h1''))\<lparr>kk_hash := ''h2''\<rparr>])"
    by (simp add: insert_api_key_def pg_ref_def params key_merge_def new_key_row_def sample_entry_def)
  have "case get_by_hash pg_ref ''h2'' [(new_key_row 5 (sample_entry ''default'' ''h1''))\<lparr>kk_hash := ''h2''\<rparr>] of
      Inr en \<Rightarrow> en_id en = ''default'' | Inl err \<Rightarrow> False"
    using inserted_key_lookup [OF ins, of pg_ref]
    by (simp add: keyed_def sample_entry_def new_key_row_def pg_ref_def params split: sum.splits)
  then show ?thesis by (simp split: sum.splits)
qed

text \<open>
  A generated key is as long as its format says and carries all of its randomness:
  it has 49 bytes after the prefix \<open>ssogw_\<close> is counted in, and two generated keys are equal
  exactly when the 32 random bytes are.
\<close>

theorem generated_keys_distinct:
  assumes "generate_api_key r1 = Inr k1" and "generate_api_key r2 = Inr k2"
    and "r1 32 = Inr b1" and "r2 32 = Inr b2" and "length b1 = 32" and "length b2 = 32"
  shows "(k1 = k2 \<longleftrightarrow> b1 = b2) \<and> length k1 = 49 \<and> take 6 k1 = ''ssogw_''"
proof -
  have "k1 = ''ssogw_'' @ base64_rawurl_encode b1" "k2 = ''ssogw_'' @ base64_rawurl_encode b2"
    using assms by (simp_all add: generate_api_key_def api_key_prefix_def)
  then show ?thesis
    using assms(5,6) base64_rawurl_inject [of b1 b2] by (auto simp: length_base64_rawurl)
qed

lemma generated_keys_distinct_witness:
  "generate_api_key (\<lambda>n. Inr (replicate n 1)) \<noteq> generate_api_key (\<lambda>n. Inr (replicate n 2))"
proof -
  let ?r = "\<lambda>b n. Inr (replicate n (b :: byte)) :: goerr + bytes"
  obtain k1 k2 where k: "generate_api_key (?r 1) = Inr k1" "generate_api_key (?r 2) = Inr k2"
    by (simp add: generate_api_key_def)
  have "k1 \<noteq> k2"
    using generated_keys_distinct [OF k refl refl] by (simp del: replicate.simps)
  with k show ?thesis by simp
qed

end
