(* ===== verification/RateLimit.thy ===== *)
theory RateLimit
  imports Prelude GoStrconv
begin

text \<open>
  \<open>internal/redisx\<close>: the fixed-window rate limiter over Redis, its Lua script included. A Redis
  keyspace maps a key to a counter and its expiry in milliseconds; a key whose expiry has passed
  reads as absent. What the server does to a script call otherwise (an error, possibly after the
  script ran, or a reply that is not an integer) is a parameter. The locale \<open>limiter\<close> is the
  contract of an admission decision per key that the accounting theorems rest on.
\<close>

section \<open>The keyspace\<close>

type_synonym keyspace = "string \<rightharpoonup> int \<times> int option"

definition ks_get :: "int \<Rightarrow> string \<Rightarrow> keyspace \<Rightarrow> (int \<times> int option) option" where
  "ks_get now k ks =
     (case ks k of
        None \<Rightarrow> None
      | Some (n, None) \<Rightarrow> Some (n, None)
      | Some (n, Some ex) \<Rightarrow> if ex < now then None else Some (n, Some ex))"

text \<open>\<open>INCR\<close> keeps the expiry of a live key; on an absent one it starts from 0 without one.\<close>

definition redis_incr :: "int \<Rightarrow> string \<Rightarrow> keyspace \<Rightarrow> int \<times> keyspace" where
  "redis_incr now k ks =
     (case ks_get now k ks of
        None \<Rightarrow> (1, ks(k \<mapsto> (1, None)))
      | Some (n, ex) \<Rightarrow> (n + 1, ks(k \<mapsto> (n + 1, ex))))"

definition redis_pexpire :: "int \<Rightarrow> string \<Rightarrow> int \<Rightarrow> keyspace \<Rightarrow> keyspace" where
  "redis_pexpire now k ttl ks =
     (case ks k of
        None \<Rightarrow> ks
      | Some (n, ex) \<Rightarrow> if ttl \<le> 0 then ks(k := None) else ks(k \<mapsto> (n, Some (now + ttl))))"

text \<open>The script \<open>luaIncrExpire\<close>, which Redis runs atomically.\<close>

definition lua_incr_expire :: "int \<Rightarrow> string \<Rightarrow> int \<Rightarrow> keyspace \<Rightarrow> int \<times> keyspace" where
  "lua_incr_expire now k ttl ks =
     (let (c, ks1) = redis_incr now k ks;
          ks2 = (if c = 1 then redis_pexpire now k ttl ks1 else ks1)
      in (c, ks2))"

section \<open>Allow\<close>

record redis_env =
  rd_fault :: "(goerr \<times> bool) option"
  rd_reply_type :: "string option"

record rl_metrics =
  rm_script_errors :: nat
  rm_reply_errors :: nat
  rm_denied :: nat

datatype allow_result =
    AllowPanic
  | AllowReturns bool "goerr option"

text \<open>Go's integer division truncates.\<close>

definition go_quot :: "int \<Rightarrow> int \<Rightarrow> int" where
  "go_quot x y = sgn x * sgn y * (\<bar>x\<bar> div \<bar>y\<bar>)"

text \<open>A window is a \<open>time.Duration\<close>, in nanoseconds.\<close>

definition duration_millis :: "int \<Rightarrow> int" where
  "duration_millis d = go_quot d 1000000"

definition minute :: int where
  "minute = 60000000000"

definition rl_key :: "string \<Rightarrow> int \<Rightarrow> string" where
  "rl_key key bucket = ''rl:'' @ key @ '':'' @ fmt_d bucket"

definition allow ::
  "redis_env \<Rightarrow> int \<Rightarrow> int \<Rightarrow> string \<Rightarrow> int \<Rightarrow> int \<Rightarrow> keyspace \<Rightarrow> rl_metrics
   \<Rightarrow> allow_result \<times> keyspace \<times> rl_metrics" where
  "allow env now rnow key limit window ks ms =
     (if window \<le> 0 then (AllowReturns False (Some (ErrNew ''ratelimit: window must be > 0'')), ks, ms)
      else if duration_millis window = 0 then (AllowPanic, ks, ms)
      else
        let bucket = go_quot now (duration_millis window);
            redis_key = rl_key key bucket;
            (count, ks') = lua_incr_expire rnow redis_key (duration_millis window) ks
        in case rd_fault env of
             Some (e, applied) \<Rightarrow>
               (AllowReturns False (Some e), if applied then ks' else ks,
                ms\<lparr>rm_script_errors := rm_script_errors ms + 1\<rparr>)
           | None \<Rightarrow>
               (case rd_reply_type env of
                  Some ty \<Rightarrow>
                    (AllowReturns False (Some (ErrNew (''ratelimit: unexpected redis reply type '' @ ty))), ks',
                     ms\<lparr>rm_reply_errors := rm_reply_errors ms + 1\<rparr>)
                | None \<Rightarrow>
                    if count > limit then (AllowReturns False None, ks', ms\<lparr>rm_denied := rm_denied ms + 1\<rparr>)
                    else (AllowReturns True None, ks', ms)))"

definition redis_ok :: redis_env where
  "redis_ok = \<lparr>rd_fault = None, rd_reply_type = None\<rparr>"

section \<open>The client\<close>

text \<open>\<open>NewClient\<close>: the second component counts open clients; a failed ping leaves one behind.\<close>

definition redis_new_client :: "goerr option \<Rightarrow> string \<Rightarrow> int \<Rightarrow> goerr option \<times> int" where
  "redis_new_client ping addr handles =
     (if addr = [] then (Some (ErrNew ''redis addr is required''), handles)
      else case ping of
          Some e \<Rightarrow> (Some (ErrWrap ''ping redis'' e), handles + 1)
        | None \<Rightarrow> (None, handles + 1))"

section \<open>The contract of a limiter\<close>

text \<open>A run of events through a state, with the outputs.\<close>

fun run_events :: "('e \<Rightarrow> 's \<Rightarrow> 'o \<times> 's) \<Rightarrow> 'e list \<Rightarrow> 's \<Rightarrow> 'o list \<times> 's" where
  "run_events step [] s = ([], s)"
| "run_events step (e # es) s =
     (let (d, s1) = step e s; (ds, s2) = run_events step es s1 in (d # ds, s2))"

lemma length_run_events [simp]: "length (fst (run_events step es s)) = length es"
  by (induction es arbitrary: s) (simp_all add: split_beta Let_def)

text \<open>
  Every event falls into a slot; a slot admits while its count stays within the limit, and an
  event counts in its own slot only.
\<close>

locale limiter =
  fixes step :: "'e \<Rightarrow> 's \<Rightarrow> bool \<times> 's"
    and slot :: "'e \<Rightarrow> 'k"
    and cnt :: "'s \<Rightarrow> 'k \<Rightarrow> int"
    and limit :: int
    and inv :: "'s \<Rightarrow> bool"
  assumes step_admits: "inv s \<Longrightarrow> fst (step e s) \<longleftrightarrow> cnt s (slot e) + 1 \<le> limit"
    and step_counts: "inv s \<Longrightarrow> cnt (snd (step e s)) k = cnt s k + (if k = slot e then 1 else 0)"
    and step_inv: "inv s \<Longrightarrow> inv (snd (step e s))"
begin

lemma decisions:
  "inv s \<Longrightarrow> i < length es \<Longrightarrow>
   fst (run_events step es s) ! i \<longleftrightarrow>
     cnt s (slot (es ! i)) + int (length (filter (\<lambda>e. slot e = slot (es ! i)) (take (Suc i) es))) \<le> limit"
proof (induction es arbitrary: s i)
  case Nil
  then show ?case by simp
next
  case (Cons e es)
  show ?case
  proof (cases i)
    case 0
    with Cons.prems show ?thesis by (simp add: split_beta Let_def step_admits)
  next
    case (Suc j)
    with Cons.prems Cons.IH [OF step_inv [OF Cons.prems(1)], of j e] show ?thesis
      by (auto simp: split_beta Let_def step_counts algebra_simps)
  qed
qed

definition admitted :: "'k \<Rightarrow> 'e list \<Rightarrow> 's \<Rightarrow> nat" where
  "admitted k es s = length (filter (\<lambda>(e, d). slot e = k \<and> d) (zip es (fst (run_events step es s))))"

lemma admitted_exact:
  "inv s \<Longrightarrow> admitted k es s = min (length (filter (\<lambda>e. slot e = k) es)) (nat (limit - cnt s k))"
proof (induction es arbitrary: s)
  case Nil
  then show ?case by (simp add: admitted_def)
next
  case (Cons e es)
  have ih: "admitted k es (snd (step e s)) =
      min (length (filter (\<lambda>e. slot e = k) es)) (nat (limit - cnt s k - (if slot e = k then 1 else 0)))"
    using Cons.IH [OF step_inv [OF Cons.prems]] Cons.prems by (simp add: step_counts algebra_simps)
  have "admitted k (e # es) s = (if slot e = k \<and> fst (step e s) then 1 else 0) + admitted k es (snd (step e s))"
    by (simp add: admitted_def split_beta Let_def)
  then show ?case using ih step_admits [OF Cons.prems, of e] by (auto simp: min_def nat_diff_distrib')
qed

end

section \<open>Keys of buckets\<close>

lemma digit_char_inject: "0 \<le> a \<Longrightarrow> a \<le> 9 \<Longrightarrow> 0 \<le> b \<Longrightarrow> b \<le> 9 \<Longrightarrow> digit_char a = digit_char b \<Longrightarrow> a = b"
  by (metis digit_val_char)

lemma itoa_loop_inject: "0 \<le> i \<Longrightarrow> 0 \<le> j \<Longrightarrow> itoa_loop i [] = itoa_loop j [] \<Longrightarrow> i = j"
proof (induction "nat i" arbitrary: i j rule: less_induct)
  case less
  show ?case
  proof (cases "i = 0 \<or> j = 0")
    case True
    then show ?thesis using less.prems itoa_loop_pos [of i] itoa_loop_pos [of j] itoa_loop_nonpos by force
  next
    case False
    with less.prems have pos: "0 < i" "0 < j" by simp_all
    with less.prems(3) have "itoa_loop (i div 10) [] = itoa_loop (j div 10) []"
      and d: "digit_char (i mod 10) = digit_char (j mod 10)"
      by (simp_all add: itoa_loop_step)
    then have "i div 10 = j div 10" using pos by (intro less(1)) simp_all
    moreover have "i mod 10 = j mod 10"
    proof (rule digit_char_inject [OF _ _ _ _ d])
      show "i mod 10 \<le> 9" "j mod 10 \<le> 9"
        using pos_mod_bound [of 10 i] pos_mod_bound [of 10 j] by linarith+
    qed simp_all
    ultimately show ?thesis by (metis mult_div_mod_eq)
  qed
qed

lemma fmt_d_no_colon: "CHR '':'' \<notin> set (fmt_d b)"
proof -
  have digits: "CHR '':'' \<notin> set (itoa_loop i [])" for i
    using itoa_loop_digits [of i] by (auto simp: list_all_iff is_digit_def digit_val_def)
  show ?thesis by (auto simp: fmt_d_def digits)
qed

lemma fmt_d_inject: "0 \<le> i \<Longrightarrow> 0 \<le> j \<Longrightarrow> fmt_d i = fmt_d j \<Longrightarrow> i = j"
proof -
  have "fmt_d x = itoa_loop x [] \<or> x = 0 \<and> fmt_d x = ''0''" if "0 \<le> x" for x
    using that by (simp add: fmt_d_def)
  moreover have "itoa_loop x [] \<noteq> ''0''" if "0 \<le> x" for x
  proof (cases "x = 0")
    case False
    then have x: "0 < x" using that by simp
    show ?thesis
    proof
      assume z: "itoa_loop x [] = ''0''"
      then have e: "itoa_loop (x div 10) [] = []" and d: "digit_char (x mod 10) = CHR ''0''"
        using x by (auto simp: itoa_loop_step append_eq_Cons_conv)
      have "\<not> 0 < x div 10" using e itoa_loop_pos [of "x div 10"] by blast
      moreover have "0 \<le> x div 10" using x by simp
      ultimately have "x div 10 = 0" by (rule order_antisym [OF leI])
      moreover have "digit_val (digit_char (x mod 10)) = x mod 10"
      proof (rule digit_val_char)
        show "x mod 10 \<le> 9" using pos_mod_bound [of 10 x] by linarith
      qed simp
      then have "x mod 10 = 0" using d by (simp add: digit_val_def)
      ultimately show False using x by (metis add_0 mult_div_mod_eq mult_zero_right less_irrefl)
    qed
  qed (simp add: itoa_loop_nonpos)
  ultimately show "0 \<le> i \<Longrightarrow> 0 \<le> j \<Longrightarrow> fmt_d i = fmt_d j \<Longrightarrow> i = j"
    using itoa_loop_inject by metis
qed

lemma split_last:
  assumes "xs @ c # s = ys @ c # t" and "c \<notin> set s" and "c \<notin> set t"
  shows "xs = ys \<and> s = t"
proof -
  have "rev s @ c # rev xs = rev t @ c # rev ys" using arg_cong [OF assms(1), of rev] by simp
  moreover have "takeWhile (\<lambda>x. x \<noteq> c) (rev u @ c # v) = rev u" if "c \<notin> set u" for u v
    using that by (subst takeWhile_append2) auto
  ultimately have "rev s = rev t" using assms(2,3) by metis
  with assms(1) show ?thesis by simp
qed

text \<open>Different keys or different buckets never share a counter.\<close>

lemma rl_key_inject: "0 \<le> b \<Longrightarrow> 0 \<le> b' \<Longrightarrow> rl_key k b = rl_key k' b' \<longleftrightarrow> k = k' \<and> b = b'"
proof
  assume b: "0 \<le> b" "0 \<le> b'" and "rl_key k b = rl_key k' b'"
  then have "k @ CHR '':'' # fmt_d b = k' @ CHR '':'' # fmt_d b'" by (simp add: rl_key_def)
  then have "k = k' \<and> fmt_d b = fmt_d b'" by (rule split_last) (rule fmt_d_no_colon)+
  with fmt_d_inject [OF b] show "k = k' \<and> b = b'" by blast
qed auto

section \<open>Allow is a limiter\<close>

text \<open>A request is a key and the time in milliseconds, on one clock for the service and Redis.\<close>

type_synonym rl_request = "string \<times> nat"

abbreviation no_metrics :: rl_metrics where
  "no_metrics \<equiv> \<lparr>rm_script_errors = 0, rm_reply_errors = 0, rm_denied = 0\<rparr>"

definition rl_step :: "int \<Rightarrow> int \<Rightarrow> rl_request \<Rightarrow> keyspace \<Rightarrow> bool \<times> keyspace" where
  "rl_step limit window q ks =
     (case allow redis_ok (int (snd q)) (int (snd q)) (fst q) limit window ks no_metrics of
        (r, ks', ms) \<Rightarrow> (r = AllowReturns True None, ks'))"

definition rl_slot :: "int \<Rightarrow> rl_request \<Rightarrow> string \<times> nat" where
  "rl_slot window q = (fst q, snd q div nat (duration_millis window))"

definition rl_count :: "keyspace \<Rightarrow> string \<times> nat \<Rightarrow> int" where
  "rl_count ks kb = (case ks (rl_key (fst kb) (int (snd kb))) of None \<Rightarrow> 0 | Some (n, ex) \<Rightarrow> n)"

text \<open>Every counter of a bucket outlives the bucket.\<close>

definition ks_ok :: "int \<Rightarrow> keyspace \<Rightarrow> bool" where
  "ks_ok window ks \<longleftrightarrow> 1000000 \<le> window
     \<and> (\<forall>k b n ex. ks (rl_key k (int b)) = Some (n, ex) \<longrightarrow>
          (case ex of None \<Rightarrow> False | Some e \<Rightarrow> (int b + 1) * duration_millis window \<le> e))"

lemma duration_millis_pos: "0 \<le> d \<Longrightarrow> duration_millis d = d div 1000000"
  by (cases "d = 0") (simp_all add: duration_millis_def go_quot_def)

lemma rl_step_effect:
  assumes "ks_ok window ks"
  shows "\<exists>e. rl_step limit window q ks =
      (rl_count ks (rl_slot window q) + 1 \<le> limit,
       ks(rl_key (fst q) (int (snd (rl_slot window q))) \<mapsto> (rl_count ks (rl_slot window q) + 1, Some e)))
    \<and> (int (snd (rl_slot window q)) + 1) * duration_millis window \<le> e"
proof -
  obtain k t where q: "q = (k, t)" by (cases q)
  define W where "W = duration_millis window"
  have W: "1 \<le> W"
    using assms zdiv_mono1 [of 1000000 window 1000000] by (simp add: W_def ks_ok_def duration_millis_pos)
  define b where "b = t div nat W"
  define K where "K = rl_key k (int b)"
  have bucket: "go_quot (int t) W = int b"
    using W by (cases "t = 0") (simp_all add: go_quot_def b_def zdiv_int)
  have "int b * W + int t mod W = int t" using W by (simp add: b_def zdiv_int)
  moreover have "int t mod W < W" "0 \<le> int t mod W" using W by simp_all
  ultimately have lo: "int b * W \<le> int t" and hi: "int t < (int b + 1) * W"
    by (simp_all add: algebra_simps)
  have slot: "rl_slot window (k, t) = (k, b)" by (simp add: rl_slot_def b_def W_def)
  have run: "rl_step limit window q ks =
      (let (c, ks') = lua_incr_expire (int t) K W ks in (c \<le> limit, ks'))"
    using W assms bucket
    by (auto simp: rl_step_def q allow_def redis_ok_def Let_def split_beta K_def W_def ks_ok_def)
  have cnt: "rl_count ks (k, b) = (case ks K of None \<Rightarrow> 0 | Some (n, ex) \<Rightarrow> n)"
    by (simp add: rl_count_def K_def)
  show ?thesis
  proof (cases "ks K")
    case None
    have "lua_incr_expire (int t) K W ks = (1, ks(K \<mapsto> (1, Some (int t + W))))"
      using None W by (simp add: lua_incr_expire_def redis_incr_def ks_get_def redis_pexpire_def Let_def)
    moreover have "(int b + 1) * W \<le> int t + W" using lo by (simp add: algebra_simps)
    ultimately show ?thesis using run cnt None by (auto simp: q slot K_def W_def)
  next
    case (Some nex)
    then obtain n e where e: "ks K = Some (n, Some e)" "(int b + 1) * W \<le> e"
      using assms by (cases nex) (fastforce simp: ks_ok_def K_def W_def split: option.splits)
    then have live: "ks_get (int t) K ks = Some (n, Some e)" using hi by (simp add: ks_get_def)
    show ?thesis
    proof (cases "n + 1 = 1")
      case True
      then have "lua_incr_expire (int t) K W ks = (n + 1, ks(K \<mapsto> (n + 1, Some (int t + W))))"
        using live W by (simp add: lua_incr_expire_def redis_incr_def redis_pexpire_def Let_def)
      moreover have "(int b + 1) * W \<le> int t + W" using lo by (simp add: algebra_simps)
      ultimately show ?thesis using run cnt e by (auto simp: q slot K_def W_def)
    next
      case False
      then have "lua_incr_expire (int t) K W ks = (n + 1, ks(K \<mapsto> (n + 1, Some e)))"
        using live by (simp add: lua_incr_expire_def redis_incr_def Let_def)
      then show ?thesis using run cnt e by (auto simp: q slot K_def W_def)
    qed
  qed
qed

interpretation fixed_window: limiter "rl_step limit window" "rl_slot window" rl_count limit "ks_ok window"
  for limit window
proof
  fix q ks kb
  assume ok: "ks_ok window ks"
  from rl_step_effect [OF ok, of limit q] obtain e
    where eff: "rl_step limit window q ks =
      (rl_count ks (rl_slot window q) + 1 \<le> limit,
       ks(rl_key (fst q) (int (snd (rl_slot window q))) \<mapsto> (rl_count ks (rl_slot window q) + 1, Some e)))"
      and e: "(int (snd (rl_slot window q)) + 1) * duration_millis window \<le> e" by blast
  then show "fst (rl_step limit window q ks) = (rl_count ks (rl_slot window q) + 1 \<le> limit)" by simp
  have fst_slot: "fst (rl_slot window q) = fst q" by (simp add: rl_slot_def)
  show "rl_count (snd (rl_step limit window q ks)) kb = rl_count ks kb + (if kb = rl_slot window q then 1 else 0)"
    using eff fst_slot by (auto simp: rl_count_def rl_key_inject prod_eq_iff)
  show "ks_ok window (snd (rl_step limit window q ks))"
    using ok eff e by (auto simp: ks_ok_def rl_key_inject split: option.split)
qed

section \<open>Properties\<close>

lemma ks_ok_empty: "1000000 \<le> window \<Longrightarrow> ks_ok window Map.empty"
  by (simp add: ks_ok_def)

lemma length_filter_le_two:
  "(\<And>x. P x \<Longrightarrow> Q x \<or> R x) \<Longrightarrow> length (filter P xs) \<le> length (filter Q xs) + length (filter R xs)"
proof (induction xs)
  case (Cons x xs)
  then have "length (filter P xs) \<le> length (filter Q xs) + length (filter R xs)" by simp
  with Cons.prems [of x] show ?case by auto
qed simp

text \<open>What the script does to a counter.\<close>

lemma lua_script:
  "0 < ttl \<Longrightarrow> lua_incr_expire now k ttl ks = (case ks_get now k ks of
     None \<Rightarrow> (1, ks(k \<mapsto> (1, Some (now + ttl))))
   | Some (n, ex) \<Rightarrow> (n + 1, ks(k \<mapsto> (n + 1, if n = 0 then Some (now + ttl) else ex))))"
  by (simp add: lua_incr_expire_def redis_incr_def redis_pexpire_def Let_def split: option.split prod.split)

text \<open>
  Property C14. The limit is exact and per key. From an empty keyspace, on a Redis without faults,
  with the service and Redis on one clock and a window of at least a millisecond, whatever
  requests of whatever keys are interleaved: a request is allowed exactly when, itself
  included, at most \<open>limit\<close> requests of its key have fallen into its window so far. No counter
  expires within its window, and no other key or window interferes.
\<close>

theorem rate_limit_exact:
  assumes "1000000 \<le> window" and "i < length qs"
  shows "fst (run_events (rl_step limit window) qs Map.empty) ! i \<longleftrightarrow>
    int (length (filter (\<lambda>q. fst q = fst (qs ! i)
        \<and> snd q div nat (window div 1000000) = snd (qs ! i) div nat (window div 1000000)) (take (Suc i) qs))) \<le> limit"
proof -
  have "(\<lambda>q. rl_slot window q = rl_slot window (qs ! i)) = (\<lambda>q. fst q = fst (qs ! i)
        \<and> snd q div nat (window div 1000000) = snd (qs ! i) div nat (window div 1000000))"
    using assms(1) by (simp add: fun_eq_iff rl_slot_def duration_millis_pos)
  then show ?thesis
    using fixed_window.decisions [OF ks_ok_empty [OF assms(1)] assms(2), of limit] by (simp add: rl_count_def)
qed

lemma rate_limit_exact_witness:
  "fst (run_events (rl_step 1 minute) [(''a'', 59999), (''b'', 59999), (''a'', 59999), (''a'', 60000)] Map.empty) ! 2 = False"
  using rate_limit_exact [of minute 2 "[(''a'', 59999), (''b'', 59999), (''a'', 59999), (''a'', 60000)]" 1]
  by (simp add: minute_def)

text \<open>
  Property C31. A fixed window lets at most twice the limit through in any span of its length. In any history of
  requests of any keys, in any order, from an empty keyspace on: of the requests of one key that fall
  into \<open>[t0, t0 + window)\<close>, wherever \<open>t0\<close> lies, at most \<open>2 * limit\<close> are allowed, however many came
  before and after the span.
\<close>

theorem rate_limit_two_windows:
  assumes "1000000 \<le> window" and "0 \<le> limit"
  shows "int (length (filter (\<lambda>(q, d). fst q = k \<and> t0 \<le> snd q \<and> snd q < t0 + nat (window div 1000000) \<and> d)
      (zip qs (fst (run_events (rl_step limit window) qs Map.empty))))) \<le> 2 * limit"
proof -
  define W where "W = nat (window div 1000000)"
  let ?ds = "fst (run_events (rl_step limit window) qs Map.empty)"
  have W: "0 < W" using assms(1) zdiv_mono1 [of 1000000 window 1000000] by (simp add: W_def)
  have slot: "rl_slot window q = (fst q, snd q div W)" for q
    using assms(1) by (simp add: rl_slot_def duration_millis_pos W_def)
  have le: "fixed_window.admitted limit window (k, b) qs Map.empty \<le> nat limit" for b
    using fixed_window.admitted_exact [OF ks_ok_empty [OF assms(1)], of limit "(k, b)" qs]
    by (simp add: rl_count_def)
  have two: "t div W = t0 div W \<or> t div W = Suc (t0 div W)" if "t0 \<le> t" "t < t0 + W" for t
  proof -
    have "t0 div W \<le> t div W" "t div W \<le> (t0 + W) div W" using that by (simp_all add: div_le_mono)
    moreover have "(t0 + W) div W = Suc (t0 div W)"
      using div_add_self2 [of W t0] W by (simp only: Suc_eq_plus1)
    ultimately show ?thesis by linarith
  qed
  have "length (filter (\<lambda>(q, d). fst q = k \<and> t0 \<le> snd q \<and> snd q < t0 + W \<and> d) (zip qs ?ds))
    \<le> length (filter (\<lambda>(q, d). rl_slot window q = (k, t0 div W) \<and> d) (zip qs ?ds))
      + length (filter (\<lambda>(q, d). rl_slot window q = (k, Suc (t0 div W)) \<and> d) (zip qs ?ds))"
    by (rule length_filter_le_two) (use two in \<open>auto simp: slot\<close>)
  also have "\<dots> \<le> nat limit + nat limit"
    using le [of "t0 div W"] le [of "Suc (t0 div W)"] by (simp add: fixed_window.admitted_def)
  finally show ?thesis using assms(2) by (simp add: W_def)
qed

lemma rate_limit_two_windows_witness:
  "int (length (filter (\<lambda>(q, d). fst q = ''a'' \<and> 59000 \<le> snd q \<and> snd q < 59000 + 60000 \<and> d)
      (zip [(''a'', 100 :: nat), (''b'', 59999), (''a'', 59999), (''a'', 60000), (''a'', 200000)]
        (fst (run_events (rl_step 1 minute) [(''a'', 100), (''b'', 59999), (''a'', 59999), (''a'', 60000), (''a'', 200000)] Map.empty))))) \<le> 2"
  using rate_limit_two_windows [of minute 1 "''a''" 59000 "[(''a'', 100), (''b'', 59999), (''a'', 59999), (''a'', 60000), (''a'', 200000)]"]
  by (simp add: minute_def)

text \<open>
  Property C32. Every outcome of \<open>Allow\<close>, on every input. It panics exactly for a window above zero and under a
  millisecond, whose milliseconds are zero, since the guard only asks for a positive window. Otherwise
  it counts in the bucket's key: an absent or expired counter starts at 1 and expires a window later,
  a live one is incremented and keeps its expiry. A script error increments the counter of script
  errors, with the count made or not; a reply of another type increments that of reply types; a count
  above the limit is denied and increments that of denials; and a count up to the limit is allowed
  and increments none. Nothing else changes.
\<close>

theorem allow_outcomes:
  "let W = window div 1000000; K = rl_key key (go_quot now W);
       (c, counted) = (case ks_get rnow K ks of
          None \<Rightarrow> (1, ks(K \<mapsto> (1, Some (rnow + W))))
        | Some (n, ex) \<Rightarrow> (n + 1, ks(K \<mapsto> (n + 1, if n = 0 then Some (rnow + W) else ex))))
   in case allow env now rnow key limit window ks ms of
     (AllowPanic, ks', ms') \<Rightarrow> 0 < window \<and> window < 1000000 \<and> ks' = ks \<and> ms' = ms
   | (AllowReturns ok (Some e), ks', ms') \<Rightarrow> \<not> ok
       \<and> (window \<le> 0 \<and> ks' = ks \<and> ms' = ms
          \<or> 1000000 \<le> window \<and> ms' = ms\<lparr>rm_script_errors := rm_script_errors ms + 1\<rparr>
            \<and> (rd_fault env = Some (e, True) \<and> ks' = counted \<or> rd_fault env = Some (e, False) \<and> ks' = ks)
          \<or> 1000000 \<le> window \<and> ms' = ms\<lparr>rm_reply_errors := rm_reply_errors ms + 1\<rparr> \<and> ks' = counted
            \<and> rd_fault env = None \<and> rd_reply_type env \<noteq> None)
   | (AllowReturns ok None, ks', ms') \<Rightarrow> 1000000 \<le> window \<and> rd_fault env = None \<and> rd_reply_type env = None
       \<and> ks' = counted \<and> ok = (c \<le> limit)
       \<and> ms' = (if ok then ms else ms\<lparr>rm_denied := rm_denied ms + 1\<rparr>)"
proof (cases "window < 1000000")
  case True
  then show ?thesis
    by (cases "window \<le> 0") (auto simp: allow_def duration_millis_pos Let_def split: prod.split)
next
  case False
  then have W: "0 < window div 1000000" using zdiv_mono1 [of 1000000 window 1000000] by simp
  have m: "duration_millis window = window div 1000000" "\<not> window \<le> 0" using False by (simp_all add: duration_millis_pos)
  show ?thesis
    using False W m
    by (auto simp: allow_def lua_script Let_def split: option.split prod.split)
qed

end
