(* ===== verification/Api.thy ===== *)
theory Api
  imports KarList Json ApiKey RateLimit
begin

text \<open>
  The HTTP side: \<open>internal/api/handlers.go\<close>, \<open>internal/api/middleware.go\<close> and the router of
  \<open>internal/server/server.go\<close>. A handler maps the services' behaviour, the API key id in the
  request context, a request and the gateway's state to a response and the new state; a
  middleware maps handlers to handlers, as in the code. The goroutine that records the last use
  of a key is a pending write of the state, performed by \<open>run_pending\<close> at any later point.
\<close>

section \<open>Requests, responses, state\<close>

text \<open>\<open>rq_header\<close> and \<open>rq_query\<close> hold the parsed header and query in order of appearance.\<close>

record request =
  rq_method :: string
  rq_path :: string
  rq_header :: "(string \<times> string) list"
  rq_query :: "(string \<times> string) list"
  rq_params :: "(string \<times> string) list"

record response =
  rs_status :: int
  rs_content_type :: string
  rs_body :: string

record gateway =
  gw_kar :: "kar_row list"
  gw_keys :: "key_row list"
  gw_redis :: keyspace
  gw_metrics :: rl_metrics
  gw_pending :: "string list"

record api_env =
  ae_pg :: pgenv
  ae_redis :: redis_env
  ae_now :: int
  ae_redis_now :: int
  ae_server_now :: micros

type_synonym handler = "api_env \<Rightarrow> string option \<Rightarrow> request \<Rightarrow> gateway \<Rightarrow> response \<times> gateway"

text \<open>\<open>Header.Get\<close>, \<open>Values.Get\<close> and \<open>chi.URLParam\<close>: the first value, or the empty string.\<close>

definition get_first :: "(string \<times> string) list \<Rightarrow> string \<Rightarrow> string" where
  "get_first kvs k = (case map_of kvs k of None \<Rightarrow> [] | Some v \<Rightarrow> v)"

section \<open>Replies\<close>

text \<open>\<open>json.NewEncoder(w).Encode(v)\<close> writes the value and a newline, or nothing on an error.\<close>

definition write_json :: "int \<Rightarrow> jval \<Rightarrow> response" where
  "write_json status v =
     \<lparr>rs_status = status, rs_content_type = ''application/json'',
      rs_body = (case json_marshal v of Inl e \<Rightarrow> [] | Inr s \<Rightarrow> s @ nl)\<rparr>"

definition write_err :: "int \<Rightarrow> string \<Rightarrow> response" where
  "write_err status code = write_json status (json_map [(''error'', JStr code)])"

section \<open>Handlers\<close>

record kar_view =
  v_nik_hris :: string
  v_nik_santos :: string
  v_nama_karyawan :: string
  v_nama_departemen :: string
  v_nama_jabatan :: string
  v_tgl_bergabung :: "string option"
  v_tgl_keluar :: "string option"
  v_lokasi :: string
  v_gender :: string

definition to_view :: "karyawan \<Rightarrow> kar_view" where
  "to_view k =
     \<lparr>v_nik_hris = k_nik_hris k, v_nik_santos = k_nik_santos k, v_nama_karyawan = k_nama_karyawan k,
      v_nama_departemen = k_nama_departemen k, v_nama_jabatan = k_nama_jabatan k,
      v_tgl_bergabung = map_option format_date (k_tgl_bergabung k),
      v_tgl_keluar = map_option format_date (k_tgl_keluar k),
      v_lokasi = k_lokasi k, v_gender = k_gender k\<rparr>"

definition json_opt :: "string option \<Rightarrow> jval" where
  "json_opt s = (case s of None \<Rightarrow> JNull | Some x \<Rightarrow> JStr x)"

definition view_json :: "kar_view \<Rightarrow> jval" where
  "view_json v = JObj
     [(''nik_hris'', JStr (v_nik_hris v)),
      (''nik_santos'', JStr (v_nik_santos v)),
      (''nama_karyawan'', JStr (v_nama_karyawan v)),
      (''nama_departemen'', JStr (v_nama_departemen v)),
      (''nama_jabatan'', JStr (v_nama_jabatan v)),
      (''tgl_bergabung'', json_opt (v_tgl_bergabung v)),
      (''tgl_keluar'', json_opt (v_tgl_keluar v)),
      (''lokasi'', JStr (v_lokasi v)),
      (''gender'', JStr (v_gender v))]"

definition list_json :: "kar_view list \<Rightarrow> int \<Rightarrow> int \<Rightarrow> int \<Rightarrow> jval" where
  "list_json views cnt limit offset = JObj
     [(''data'', JArr (map view_json views)), (''total'', JInt cnt),
      (''limit'', JInt limit), (''offset'', JInt offset)]"

definition default_limit :: int where
  "default_limit = 50"

definition max_limit :: int where
  "max_limit = 500"

definition clamp_limit :: "int \<Rightarrow> int" where
  "clamp_limit i = (if i \<le> 0 \<or> i > max_limit then default_limit else i)"

definition status_param :: "string \<Rightarrow> bool option" where
  "status_param sa = (if sa \<noteq> [] then Some (sa = ''true'' \<or> sa = ''1'') else None)"

definition request_filter :: "request \<Rightarrow> kar_filter" where
  "request_filter rq =
     (let q = get_first (rq_query rq)
      in \<lparr>f_nik_hris = q ''nik_hris'', f_nik_santos = q ''nik_santos'',
          f_nama_karyawan = q ''nama_karyawan'', f_departemen = q ''departemen'',
          f_jabatan = q ''jabatan'', f_lokasi = q ''lokasi'',
          f_status_aktif = status_param (q ''status_aktif''),
          f_limit = fst (atoi (q ''limit'')), f_offset = fst (atoi (q ''offset''))\<rparr>)"

text \<open>\<open>ListKaryawan\<close>, its count having been taken on \<open>t0\<close>; and undisturbed, as one call.\<close>

definition handle_list_at :: "kar_row list \<Rightarrow> handler" where
  "handle_list_at t0 env ctx rq w =
     (let f = request_filter rq
      in case repo_list_at (ae_pg env) f t0 (gw_kar w) of
           (rows, cnt, Some e) \<Rightarrow> (write_err 500 ''query_error'', w)
         | (rows, cnt, None) \<Rightarrow>
             (write_json 200 (list_json (map to_view rows) cnt (clamp_limit (f_limit f)) (f_offset f)), w))"

definition handle_list :: handler where
  "handle_list env ctx rq w = handle_list_at (gw_kar w) env ctx rq w"

lemma handle_list_alt:
  "handle_list env ctx rq w =
     (let f = request_filter rq
      in case repo_list (ae_pg env) f (gw_kar w) of
           (rows, cnt, Some e) \<Rightarrow> (write_err 500 ''query_error'', w)
         | (rows, cnt, None) \<Rightarrow>
             (write_json 200 (list_json (map to_view rows) cnt (clamp_limit (f_limit f)) (f_offset f)), w))"
  by (simp add: handle_list_def handle_list_at_def repo_list_def)

definition handle_get :: handler where
  "handle_get env ctx rq w =
     (let nik = get_first (rq_params rq) ''nik_hris''
      in if nik = [] then (write_err 400 ''missing_nik'', w)
         else case repo_get_by_nik (ae_pg env) nik (gw_kar w) of
             Inl e \<Rightarrow>
               if errors_is e ''karyawan not found'' then (write_err 404 ''not_found'', w)
               else (write_err 500 ''query_error'', w)
           | Inr k \<Rightarrow> (write_json 200 (view_json (to_view k)), w))"

section \<open>Middleware\<close>

definition is_not_found_err :: "goerr \<Rightarrow> bool" where
  "is_not_found_err e \<longleftrightarrow> err_text e = ''api key not found''"

definition api_key_auth :: "handler \<Rightarrow> handler" where
  "api_key_auth next_h env ctx rq w =
     (let raw = get_first (rq_header rq) ''X-Api-Key''
      in if raw = [] then (write_err 401 ''missing_api_key'', w)
         else case get_by_hash (ae_pg env) (hash_api_key raw) (gw_keys w) of
             Inl e \<Rightarrow>
               if is_not_found_err e then (write_err 401 ''invalid_api_key'', w)
               else (write_err 503 ''auth_backend_unavailable'', w)
           | Inr entry \<Rightarrow>
               next_h env (Some (en_id entry)) rq (w\<lparr>gw_pending := gw_pending w @ [en_id entry]\<rparr>))"

text \<open>One of the goroutines started so far writes its timestamp.\<close>

definition run_pending :: "api_env \<Rightarrow> nat \<Rightarrow> gateway \<Rightarrow> gateway" where
  "run_pending env i w =
     (if i < length (gw_pending w)
      then w\<lparr>gw_keys := snd (mark_used (ae_pg env) (ae_server_now env) (gw_pending w ! i) (gw_keys w)),
             gw_pending := take i (gw_pending w) @ drop (i + 1) (gw_pending w)\<rparr>
      else w)"

text \<open>A panic in the limiter would be the recoverer's 500.\<close>

definition rate_limit :: "int \<Rightarrow> handler \<Rightarrow> handler" where
  "rate_limit max_per_min next_h env ctx rq w =
     (let key_id = (case ctx of None \<Rightarrow> [] | Some i \<Rightarrow> i)
      in if key_id = [] then next_h env ctx rq w
         else case allow (ae_redis env) (ae_now env) (ae_redis_now env) (''apikey:'' @ key_id) max_per_min minute
                (gw_redis w) (gw_metrics w) of
             (r, ks, ms) \<Rightarrow>
               (let w' = w\<lparr>gw_redis := ks, gw_metrics := ms\<rparr>
                in case r of
                     AllowPanic \<Rightarrow> (\<lparr>rs_status = 500, rs_content_type = [], rs_body = []\<rparr>, w')
                   | AllowReturns allowed (Some e) \<Rightarrow> next_h env ctx rq w'
                   | AllowReturns allowed None \<Rightarrow>
                       if \<not> allowed then (write_err 429 ''rate_limited'', w')
                       else next_h env ctx rq w'))"

section \<open>Router\<close>

text \<open>
  \<open>chi\<close> decides which registered route a request matches, and with which path parameters: the
  parameter \<open>chi\<close> of the router, a function of the registered routes and the request.
\<close>

datatype route = RHealthz | RMetrics | RList | RGet

datatype chi_result = ChiRoute route "(string \<times> string) list" | ChiNotFound | ChiMethodNotAllowed

record server_config =
  sv_rate_limit_rpm :: int
  sv_has_api :: bool
  sv_has_redis :: bool

text \<open>\<open>Handlers.Routes\<close>.\<close>

definition api_routes :: "(string \<times> string \<times> route) list" where
  "api_routes =
     [(''GET'', ''/api/v1/karyawan'', RList), (''GET'', ''/api/v1/karyawan/{nik_hris}'', RGet)]"

definition server_routes :: "server_config \<Rightarrow> (string \<times> string \<times> route) list" where
  "server_routes cfg =
     [(''GET'', ''/healthz'', RHealthz), (''*'', ''/metrics'', RMetrics)] @
     (if sv_has_api cfg then api_routes else [])"

definition api_chain :: "server_config \<Rightarrow> handler \<Rightarrow> handler" where
  "api_chain cfg h =
     api_key_auth
       (if sv_has_redis cfg \<and> sv_rate_limit_rpm cfg > 0 then rate_limit (sv_rate_limit_rpm cfg) h else h)"

type_synonym chi = "(string \<times> string \<times> route) list \<Rightarrow> request \<Rightarrow> chi_result"

definition router :: "server_config \<Rightarrow> chi \<Rightarrow> (rl_metrics \<Rightarrow> response) \<Rightarrow> handler" where
  "router cfg chi prom env ctx rq w =
     (case chi (server_routes cfg) rq of
        ChiNotFound \<Rightarrow> (\<lparr>rs_status = 404, rs_content_type = ''text/plain'', rs_body = ''404 page not found'' @ nl\<rparr>, w)
      | ChiMethodNotAllowed \<Rightarrow> (\<lparr>rs_status = 405, rs_content_type = [], rs_body = []\<rparr>, w)
      | ChiRoute r params \<Rightarrow>
          (let rq' = rq\<lparr>rq_params := params\<rparr>
           in case r of
                RHealthz \<Rightarrow> (\<lparr>rs_status = 200, rs_content_type = [], rs_body = ''ok''\<rparr>, w)
              | RMetrics \<Rightarrow> (prom (gw_metrics w), w)
              | RList \<Rightarrow> api_chain cfg handle_list env ctx rq' w
              | RGet \<Rightarrow> api_chain cfg handle_get env ctx rq' w))"

section \<open>Facts\<close>

text \<open>Every reply the handlers build can be encoded.\<close>

lemma list_all_id_map: "list_all id (map f xs) = list_all f xs"
  by (induction xs) simp_all

lemma view_timeless: "json_timeless (view_json v)"
  by (simp add: view_json_def json_opt_def split: option.split)

lemma list_json_timeless: "json_timeless (list_json vs n l k)"
  by (simp add: list_json_def list_all_id_map list_all_iff view_timeless)

lemma clamp_limit_eff: "clamp_limit i = eff_limit i"
  by (simp add: clamp_limit_def eff_limit_def max_limit_def default_limit_def)

lemma is_not_found_lookup:
  assumes "\<And>e b. pg_fault env get_by_hash_sql [ArgText hash] = Some (e, b) \<Longrightarrow> \<not> errors_is e ''no rows in result set''"
  shows "get_by_hash env hash t = Inl e \<Longrightarrow>
    is_not_found_err e \<longleftrightarrow> pg_fault env get_by_hash_sql [ArgText hash] = None \<and> \<not> (\<exists>r \<in> set t. live_key hash r)"
proof (cases "pg_fault env get_by_hash_sql [ArgText hash]")
  case None
  assume "get_by_hash env hash t = Inl e"
  then have "find (live_key hash) t = None \<and> e = err_key_not_found"
    by (simp add: get_by_hash_lookup [OF None] split: option.splits)
  with None show ?thesis by (auto simp: is_not_found_err_def find_None_iff)
next
  case (Some eb)
  obtain e' b where eb: "eb = (e', b)" by (cases eb)
  assume "get_by_hash env hash t = Inl e"
  then have "e = ErrWrap ''get api key'' e'"
    using get_by_hash_fault [of env hash e' b t] assms Some eb by simp
  with Some show ?thesis by (simp add: is_not_found_err_def)
qed

lemma auth_passes:
  "get_by_hash (ae_pg env) (hash_api_key (get_first (rq_header rq) ''X-Api-Key'')) (gw_keys w) = Inr en \<Longrightarrow>
   get_first (rq_header rq) ''X-Api-Key'' \<noteq> [] \<Longrightarrow>
   api_key_auth h env ctx rq w = h env (Some (en_id en)) rq (w\<lparr>gw_pending := gw_pending w @ [en_id en]\<rparr>)"
  by (simp add: api_key_auth_def)

lemma auth_refuses:
  assumes "get_by_hash (ae_pg env) (hash_api_key (get_first (rq_header rq) ''X-Api-Key'')) (gw_keys w) = Inl e"
  shows "\<exists>resp. rs_status resp \<in> {401, 503}
    \<and> (\<forall>h ctx w'. gw_keys w' = gw_keys w \<longrightarrow> api_key_auth h env ctx rq w' = (resp, w'))"
proof -
  define resp where "resp =
    (if get_first (rq_header rq) ''X-Api-Key'' = [] then write_err 401 ''missing_api_key''
     else if is_not_found_err e then write_err 401 ''invalid_api_key''
     else write_err 503 ''auth_backend_unavailable'')"
  have "rs_status resp \<in> {401, 503}" by (simp add: resp_def write_err_def write_json_def)
  moreover have "api_key_auth h env ctx rq w' = (resp, w')" if "gw_keys w' = gw_keys w" for h ctx w'
    using assms that by (simp add: api_key_auth_def resp_def Let_def)
  ultimately show ?thesis by blast
qed

lemma find_map_cong:
  assumes "list_all2 (\<lambda>r r'. P r = P r' \<and> f r = f r') xs ys"
  shows "map_option f (find P xs) = map_option f (find P ys)"
  using assms by (induction rule: list_all2_induct) auto

lemma mark_used_auth:
  "map_option kk_id (find (live_key h) (snd (mark_used env now i t))) = map_option kk_id (find (live_key h) t)"
proof (rule find_map_cong)
  have "list_all2 (\<lambda>r r'. live_key h r = live_key h r' \<and> kk_id r = kk_id r')
      (sql_update (\<lambda>r. kk_id r = i) (\<lambda>r. r\<lparr>kk_last_used_at := Some now\<rparr>) t) t"
    by (induction t) (auto simp: sql_update_def live_key_def)
  moreover have "list_all2 (\<lambda>r r'. live_key h r = live_key h r' \<and> kk_id r = kk_id r') t t"
    by (rule list.rel_refl_strong) simp
  ultimately show "list_all2 (\<lambda>r r'. live_key h r = live_key h r' \<and> kk_id r = kk_id r')
      (snd (mark_used env now i t)) t"
    by (simp add: mark_used_def Let_def split: option.split)
qed

section \<open>Properties\<close>

text \<open>
  Property C5. Without a live key a request reaches no handler and learns nothing. For every route
  of the API, if no unrevoked row has the hash of the presented key (or none is presented), the
  reply is 401 or 503, the state is unchanged, no last-use write is started, and the reply is
  the same whatever the employee table holds.
\<close>

theorem unauthenticated_learns_nothing:
  assumes "\<not> (\<exists>r \<in> set (gw_keys w). live_key (hash_api_key (get_first (rq_header rq) ''X-Api-Key'')) r)"
    and "chi (server_routes cfg) rq = ChiRoute r params" and "r = RList \<or> r = RGet"
  shows "rs_status (fst (router cfg chi prom env ctx rq w)) \<in> {401, 503}
    \<and> snd (router cfg chi prom env ctx rq w) = w
    \<and> fst (router cfg chi prom env ctx rq (w\<lparr>gw_kar := any\<rparr>)) = fst (router cfg chi prom env ctx rq w)"
proof -
  have "\<exists>e. get_by_hash (ae_pg env) (hash_api_key (get_first (rq_header rq) ''X-Api-Key'')) (gw_keys w) = Inl e"
    using assms(1) get_by_hash_ok by (cases "get_by_hash (ae_pg env) (hash_api_key (get_first (rq_header rq) ''X-Api-Key'')) (gw_keys w)") blast+
  then obtain e where "get_by_hash (ae_pg env)
      (hash_api_key (get_first (rq_header (rq\<lparr>rq_params := params\<rparr>)) ''X-Api-Key'')) (gw_keys w) = Inl e"
    by auto
  from auth_refuses [OF this] obtain resp where resp: "rs_status resp \<in> {401, 503}"
    and refused: "\<And>h w'. gw_keys w' = gw_keys w \<Longrightarrow>
      api_key_auth h env ctx (rq\<lparr>rq_params := params\<rparr>) w' = (resp, w')"
    by metis
  have "router cfg chi prom env ctx rq w' = (resp, w')" if "gw_keys w' = gw_keys w" for w'
    using assms(2,3) refused [OF that] by (auto simp: router_def api_chain_def)
  with resp show ?thesis by simp
qed

text \<open>A gateway with one employee and one key, and a chi that routes the listing.\<close>

definition sample_gateway :: "bool \<Rightarrow> gateway" where
  "sample_gateway revoked =
     \<lparr>gw_kar = sample_table,
      gw_keys = [(new_key_row 5 (sample_entry ''k1'' (hash_api_key ''secret'')))\<lparr>kk_revoked := revoked\<rparr>],
      gw_redis = Map.empty, gw_metrics = no_metrics, gw_pending = []\<rparr>"

definition sample_request :: "string \<Rightarrow> (string \<times> string) list \<Rightarrow> request" where
  "sample_request key query =
     \<lparr>rq_method = ''GET'', rq_path = ''/api/v1/karyawan'', rq_header = [(''X-Api-Key'', key)],
      rq_query = query, rq_params = []\<rparr>"

definition sample_chi :: chi where
  "sample_chi routes rq = (if rq_path rq = ''/healthz'' then ChiRoute RHealthz [] else ChiRoute RList [])"

definition api_ref :: api_env where
  "api_ref = \<lparr>ae_pg = pg_ref, ae_redis = redis_ok, ae_now = 0, ae_redis_now = 0, ae_server_now = 0\<rparr>"

abbreviation server_ref :: server_config where
  "server_ref \<equiv> \<lparr>sv_rate_limit_rpm = 300, sv_has_api = True, sv_has_redis = True\<rparr>"

lemma unauthenticated_learns_nothing_witness:
  "rs_status (fst (router server_ref sample_chi (\<lambda>_. write_err 200 []) api_ref None
     (sample_request ''secret'' []) (sample_gateway True))) \<in> {401, 503}"
  using unauthenticated_learns_nothing
    [of "sample_gateway True" "sample_request ''secret'' []" sample_chi server_ref RList "[]"]
  by (simp add: sample_gateway_def sample_request_def sample_chi_def live_key_def new_key_row_def)

text \<open>
  Property C20. A failing database is never taken for a bad key. On a driver that does not report
  its failures as an empty result: 401 "missing" exactly for an empty header, 401 "invalid"
  exactly when the lookup ran and no live row has the hash, 503 exactly when the lookup failed,
  and otherwise the next handler runs, once, with the id of a live row with this hash. The
  comparison of error texts in \<open>isNotFoundErr\<close> is exact although it is not by identity.
\<close>

theorem auth_classification:
  assumes "\<And>h e b. pg_fault (ae_pg env) get_by_hash_sql [ArgText h] = Some (e, b) \<Longrightarrow> \<not> errors_is e ''no rows in result set''"
  shows "let raw = get_first (rq_header rq) ''X-Api-Key''; h = hash_api_key raw;
             failed = (pg_fault (ae_pg env) get_by_hash_sql [ArgText h] \<noteq> None)
    in if raw = [] then api_key_auth next_h env ctx rq w = (write_err 401 ''missing_api_key'', w)
       else if failed then api_key_auth next_h env ctx rq w = (write_err 503 ''auth_backend_unavailable'', w)
       else if \<not> (\<exists>r \<in> set (gw_keys w). kk_hash r = h \<and> \<not> kk_revoked r)
         then api_key_auth next_h env ctx rq w = (write_err 401 ''invalid_api_key'', w)
       else (\<exists>r \<in> set (gw_keys w). kk_hash r = h \<and> \<not> kk_revoked r \<and>
              api_key_auth next_h env ctx rq w =
                next_h env (Some (kk_id r)) rq (w\<lparr>gw_pending := gw_pending w @ [kk_id r]\<rparr>))"
proof -
  define raw where "raw = get_first (rq_header rq) ''X-Api-Key''"
  define res where "res = get_by_hash (ae_pg env) (hash_api_key raw) (gw_keys w)"
  have auth: "api_key_auth next_h env ctx rq w =
      (if raw = [] then (write_err 401 ''missing_api_key'', w)
       else case res of
           Inl e \<Rightarrow> (if is_not_found_err e then (write_err 401 ''invalid_api_key'', w)
                     else (write_err 503 ''auth_backend_unavailable'', w))
         | Inr en \<Rightarrow> next_h env (Some (en_id en)) rq (w\<lparr>gw_pending := gw_pending w @ [en_id en]\<rparr>))"
    by (simp add: api_key_auth_def raw_def res_def Let_def)
  show ?thesis
  proof (cases res)
    case (Inl e)
    have "is_not_found_err e \<longleftrightarrow> pg_fault (ae_pg env) get_by_hash_sql [ArgText (hash_api_key raw)] = None
        \<and> \<not> (\<exists>r \<in> set (gw_keys w). live_key (hash_api_key raw) r)"
      using is_not_found_lookup [OF assms Inl [unfolded res_def]] .
    moreover have "pg_fault (ae_pg env) get_by_hash_sql [ArgText (hash_api_key raw)] = None \<Longrightarrow>
        \<not> (\<exists>r \<in> set (gw_keys w). live_key (hash_api_key raw) r)"
      using Inl [unfolded res_def] by (auto simp: get_by_hash_lookup find_None_iff split: option.splits)
    ultimately show ?thesis
      using auth Inl by (auto simp: raw_def [symmetric] live_key_def Let_def)
  next
    case (Inr en)
    then obtain r where "r \<in> set (gw_keys w)" "live_key (hash_api_key raw) r" "en = scan_key r"
      "pg_fault (ae_pg env) get_by_hash_sql [ArgText (hash_api_key raw)] = None"
      using get_by_hash_ok unfolding res_def by blast
    then show ?thesis
      using auth Inr by (auto simp: raw_def [symmetric] live_key_def scan_key_def Let_def)
  qed
qed

lemma key_statement_params: "sql_params get_by_hash_sql = 1"
  by code_simp

lemma auth_classification_witness:
  "api_key_auth handle_list api_ref None (sample_request ''secret'' []) (sample_gateway False) =
     handle_list api_ref (Some ''k1'') (sample_request ''secret'' []) ((sample_gateway False)\<lparr>gw_pending := [''k1'']\<rparr>)
   \<and> api_key_auth handle_list api_ref None (sample_request ''secret'' []) (sample_gateway True) =
     (write_err 401 ''invalid_api_key'', sample_gateway True)"
proof -
  have "\<And>h e b. pg_fault (ae_pg api_ref) get_by_hash_sql [ArgText h] = Some (e, b) \<Longrightarrow> \<not> errors_is e ''no rows in result set''"
    and "\<And>h. pg_fault (ae_pg api_ref) get_by_hash_sql [ArgText h] = None"
    by (simp_all add: api_ref_def pg_ref_def key_statement_params)
  note facts = this
  note cls = auth_classification [where env = api_ref, OF facts(1), where rq = "sample_request ''secret'' []" and next_h = handle_list and ctx = None]
  from cls [where w = "sample_gateway False"] cls [where w = "sample_gateway True"] show ?thesis
    by (simp add: facts(2) Let_def sample_request_def get_first_def sample_gateway_def new_key_row_def sample_entry_def)
qed

text \<open>
  The limiter denies on evidence only. For an authenticated request: 429 exactly
  when the script ran, replied with an integer, and the counter of this key and minute exceeds
  the configured limit; on any Redis error or odd reply the request passes, as if there were
  no limiter; the window of a minute never makes \<open>Allow\<close> panic.
\<close>

theorem rate_limit_denies_on_evidence:
  assumes "key_id \<noteq> []"
  shows "\<exists>ks ms. rate_limit rpm next_h env (Some key_id) rq w =
    (if rd_fault (ae_redis env) = None \<and> rd_reply_type (ae_redis env) = None
        \<and> rpm < fst (lua_incr_expire (ae_redis_now env) (rl_key (''apikey:'' @ key_id) (go_quot (ae_now env) 60000)) 60000 (gw_redis w))
     then (write_err 429 ''rate_limited'', w\<lparr>gw_redis := ks, gw_metrics := ms\<rparr>)
     else next_h env (Some key_id) rq (w\<lparr>gw_redis := ks, gw_metrics := ms\<rparr>))"
proof -
  let ?a = "allow (ae_redis env) (ae_now env) (ae_redis_now env) (''apikey:'' @ key_id) rpm minute (gw_redis w) (gw_metrics w)"
  have min: "duration_millis minute = 60000" "\<not> minute \<le> 0" by (simp_all add: minute_def duration_millis_pos)
  have "rate_limit rpm next_h env (Some key_id) rq w =
    (if rd_fault (ae_redis env) = None \<and> rd_reply_type (ae_redis env) = None
        \<and> rpm < fst (lua_incr_expire (ae_redis_now env) (rl_key (''apikey:'' @ key_id) (go_quot (ae_now env) 60000)) 60000 (gw_redis w))
     then (write_err 429 ''rate_limited'', w\<lparr>gw_redis := fst (snd ?a), gw_metrics := snd (snd ?a)\<rparr>)
     else next_h env (Some key_id) rq (w\<lparr>gw_redis := fst (snd ?a), gw_metrics := snd (snd ?a)\<rparr>))"
    using assms by (simp add: rate_limit_def allow_def min Let_def split_beta split: option.split)
  then show ?thesis by blast
qed

lemma rate_limit_denies_on_evidence_witness:
  "\<exists>ks ms. rate_limit 300 handle_list api_ref (Some ''k1'') (sample_request ''secret'' []) (sample_gateway False) =
     handle_list api_ref (Some ''k1'') (sample_request ''secret'' []) ((sample_gateway False)\<lparr>gw_redis := ks, gw_metrics := ms\<rparr>)"
  using rate_limit_denies_on_evidence [of "''k1''" 300 handle_list api_ref "sample_request ''secret'' []" "sample_gateway False"]
  by (simp add: sample_gateway_def lua_incr_expire_def redis_incr_def ks_get_def Let_def)

text \<open>
  Property C26. The listing's reply, for a query without \<open>status_aktif\<close> on a healthy server: 200
  and a JSON object that can be encoded, with the page of the matching rows in NIK order, their
  number, the page size actually used, and the offset \<^emph>\<open>as it was sent\<close>. A malformed limit or
  offset counts as 0; a negative offset, which pages like 0, is echoed negative.
\<close>

theorem list_reply:
  assumes "pg_healthy (ae_pg env)" and "get_first (rq_query rq) ''status_aktif'' = []"
  shows "let f = request_filter rq; lim = fst (atoi (get_first (rq_query rq) ''limit''));
             off = fst (atoi (get_first (rq_query rq) ''offset''));
             size = (if lim \<le> 0 \<or> lim > 500 then 50 else lim);
             found = order_by_nik (ae_pg env) (filter (matches (ae_pg env) f) (gw_kar w));
             reply = list_json (map (\<lambda>r. to_view (scan_row r)) (take (nat size) (drop (nat off) found)))
               (int (length (filter (matches (ae_pg env) f) (gw_kar w)))) size off
    in handle_list env ctx rq w = (write_json 200 reply, w) \<and> (\<exists>s. json_marshal reply = Inr s)"
proof -
  have st: "f_status_aktif (request_filter rq) = None"
    and lim: "f_limit (request_filter rq) = fst (atoi (get_first (rq_query rq) ''limit''))"
    and off: "f_offset (request_filter rq) = fst (atoi (get_first (rq_query rq) ''offset''))"
    using assms(2) by (simp_all add: request_filter_def status_param_def Let_def)
  have "nat (eff_offset k) = nat k" for k by (simp add: eff_offset_def)
  then show ?thesis
    using repo_list_healthy [OF assms(1) st, of "gw_kar w"]
    by (simp add: handle_list_alt clamp_limit_eff Let_def lim off eff_limit_def selected_def o_def
        json_marshal_timeless list_json_timeless)
qed

lemma list_reply_witness:
  "handle_list api_ref None (sample_request ''secret'' [(''lokasi'', ''BDG''), (''offset'', ''-3'')]) (sample_gateway False) =
     (write_json 200 (list_json [] 0 50 (- 3)), sample_gateway False)"
proof -
  let ?rq = "sample_request ''secret'' [(''lokasi'', ''BDG''), (''offset'', ''-3'')]"
  have num: "fst (atoi ''-3'') = - 3" "fst (atoi []) = 0" by code_simp+
  have q: "get_first (rq_query ?rq) ''status_aktif'' = []" "get_first (rq_query ?rq) ''limit'' = []"
    "get_first (rq_query ?rq) ''offset'' = ''-3''" "f_lokasi (request_filter ?rq) = ''BDG''"
    by (simp_all add: sample_request_def get_first_def request_filter_def Let_def)
  have none: "filter (matches pg_ref (request_filter ?rq)) sample_table = []"
    using q(4) sample_table_rows(2)
    by (simp add: sample_table_def matches_def matches_text_def opt_eq_def upsert_row_def sample_kar_def)
  have "gw_kar (sample_gateway False) = sample_table" "ae_pg api_ref = pg_ref"
    by (simp_all add: sample_gateway_def api_ref_def)
  then show ?thesis
    using list_reply [of api_ref ?rq "sample_gateway False" None] pg_ref_healthy
    by (simp add: q num none order_by_nik_def Let_def)
qed

text \<open>
  Property C34. Every listing with a \<open>status_aktif\<close> parameter, whatever its value and the rest of
  the query, is answered 500 "query_error": the filter's condition adds an argument that the
  statement has no placeholder for, and the driver refuses the count query.
\<close>

theorem status_query_fails:
  assumes "pgx_arity (ae_pg env)" and "get_first (rq_query rq) ''status_aktif'' \<noteq> []"
  shows "handle_list env ctx rq w = (write_err 500 ''query_error'', w)"
proof -
  obtain b where "f_status_aktif (request_filter rq) = Some b"
    using assms(2) by (simp add: request_filter_def status_param_def Let_def)
  from repo_list_status_fails [OF assms(1) this, of "gw_kar w"] show ?thesis
    by (auto simp: handle_list_alt Let_def)
qed

lemma status_query_fails_witness:
  "handle_list api_ref None (sample_request ''secret'' [(''status_aktif'', ''true'')]) (sample_gateway False) =
     (write_err 500 ''query_error'', sample_gateway False)"
  by (rule status_query_fails) (simp_all add: api_ref_def pg_ref_arity sample_request_def get_first_def)

text \<open>
  The single lookup's reply on a healthy server: 400 without a NIK, 404 exactly for
  a NIK without a row, and otherwise 200 with the row's fields, NULLs as empty strings, dates
  as \<open>YYYY-MM-DD\<close> or null.
\<close>

theorem get_reply:
  assumes "pg_healthy (ae_pg env)"
  shows "let nik = get_first (rq_params rq) ''nik_hris''
    in handle_get env ctx rq w =
      (if nik = [] then write_err 400 ''missing_nik''
       else case sql_find kr_nik_hris nik (gw_kar w) of
           None \<Rightarrow> write_err 404 ''not_found''
         | Some r \<Rightarrow> write_json 200 (view_json
             \<lparr>v_nik_hris = kr_nik_hris r, v_nik_santos = coalesce_text (kr_nik_santos r),
              v_nama_karyawan = kr_nama_karyawan r, v_nama_departemen = coalesce_text (kr_nama_departemen r),
              v_nama_jabatan = coalesce_text (kr_nama_jabatan r),
              v_tgl_bergabung = map_option (\<lambda>d. format_date (time_of_day d)) (kr_tgl_bergabung r),
              v_tgl_keluar = map_option (\<lambda>d. format_date (time_of_day d)) (kr_tgl_keluar r),
              v_lokasi = coalesce_text (kr_lokasi r), v_gender = coalesce_text (kr_gender r)\<rparr>), w)"
  by (simp add: handle_get_def repo_get_healthy [OF assms] Let_def to_view_def scan_row_def option.map_comp o_def
      split: option.split)

lemma get_reply_witness:
  "handle_get api_ref None ((sample_request ''secret'' [])\<lparr>rq_params := [(''nik_hris'', ''Z9'')]\<rparr>) (sample_gateway False) =
     (write_err 404 ''not_found'', sample_gateway False)"
  using get_reply [of api_ref "(sample_request ''secret'' [])\<lparr>rq_params := [(''nik_hris'', ''Z9'')]\<rparr>" None "sample_gateway False"]
  by (simp add: api_ref_def pg_ref_healthy sample_request_def get_first_def sample_gateway_def sample_table_def
      upsert_row_def sample_kar_def)

text \<open>
  The detached last-use writes never change an authentication decision: after any
  sequence of them, in any order and whichever fail, every hash is still answered by the same
  key id or none, and nothing but the key table and the list of writes has changed.
\<close>

theorem audit_writes_harmless:
  "let w' = fold (\<lambda>(env, i). run_pending env i) writes w
   in map_option kk_id (find (live_key h) (gw_keys w')) = map_option kk_id (find (live_key h) (gw_keys w))
     \<and> gw_kar w' = gw_kar w \<and> gw_redis w' = gw_redis w \<and> gw_metrics w' = gw_metrics w"
proof -
  have step: "map_option kk_id (find (live_key h) (gw_keys (run_pending env i w))) = map_option kk_id (find (live_key h) (gw_keys w))
     \<and> gw_kar (run_pending env i w) = gw_kar w \<and> gw_redis (run_pending env i w) = gw_redis w
     \<and> gw_metrics (run_pending env i w) = gw_metrics w" for env i w
    by (simp add: run_pending_def mark_used_auth)
  show ?thesis
    by (induction writes arbitrary: w) (auto simp: step Let_def split: prod.split)
qed

end
