(* ===== verification/Setup.thy ===== *)
theory Setup
  imports VpsMysql ApiKey GoOs
begin

text \<open>
  \<open>internal/setup/setup.go\<close>: the configuration flow. It asks for the source credentials, checks
  that they connect, resolves the master key, encrypts the password, merges the result into the
  configuration file and writes the dotenv file first and the configuration second. The
  prompts, the source's dial, the random sources, the file system's faults and the YAML library
  are parameters (\<open>flow_env\<close>); the three uses of randomness are separate sources, as they are
  separate reads.
\<close>

section \<open>Prompts\<close>

record question =
  q_name :: string
  q_prompt :: string
  q_default :: string
  q_help :: string

type_synonym prompter = "question list \<Rightarrow> goerr + string list"

definition env_default :: "(string \<Rightarrow> string) \<Rightarrow> string \<Rightarrow> string \<Rightarrow> string" where
  "env_default getenv k d = (let v = getenv k in if v = [] then d else v)"

definition env_answer :: "(string \<Rightarrow> string) \<Rightarrow> string \<Rightarrow> string" where
  "env_answer getenv name =
     (if name = ''host'' then getenv ''SETUP_HOST''
      else if name = ''port'' then env_default getenv ''SETUP_PORT'' ''3306''
      else if name = ''database'' then env_default getenv ''SETUP_DATABASE'' ''sja''
      else if name = ''username'' then env_default getenv ''SETUP_USERNAME'' ''sso_replicator''
      else if name = ''password'' then getenv ''SETUP_PASSWORD''
      else if name = ''apiKey'' then getenv ''SETUP_API_KEY''
      else [])"

text \<open>\<open>EnvPrompter.Ask\<close>; the error quotes the question's name.\<close>

fun env_prompter :: "(string \<Rightarrow> string) \<Rightarrow> prompter" where
  "env_prompter getenv [] = Inr []"
| "env_prompter getenv (q # qs) =
     (let v = env_answer getenv (q_name q)
      in if v = [] \<and> q_name q \<noteq> ''apiKey''
         then Inl (ErrNew (''required env var for '' @ [CHR 0x22] @ q_name q @ [CHR 0x22] @ '' not set''))
         else case env_prompter getenv qs of
             Inl e \<Rightarrow> Inl e
           | Inr vs \<Rightarrow> Inr (v # vs))"

text \<open>
  \<open>SurveyPrompter.Ask\<close>: the questions go to the survey library with the address of a struct whose
  only field is \<open>Out\<close>, and the answers are read from this field. The library is the parameter
  \<open>ask\<close>; it sees the destination through reflection, so the names of its fields are an argument.
\<close>

record survey_question =
  sq_name :: string
  sq_message :: string
  sq_default :: string
  sq_help :: string

record answer_sheet =
  as_out :: "string list"

type_synonym survey_ask = "survey_question list \<Rightarrow> string list \<Rightarrow> answer_sheet \<Rightarrow> goerr option \<times> answer_sheet"

definition survey_question_of :: "question \<Rightarrow> survey_question" where
  "survey_question_of q =
     \<lparr>sq_name = q_name q, sq_message = q_prompt q, sq_default = q_default q, sq_help = q_help q\<rparr>"

definition survey_prompter :: "survey_ask \<Rightarrow> prompter" where
  "survey_prompter ask qs =
     (let sqs = map survey_question_of qs;
          answers = \<lparr>as_out = replicate (length qs) []\<rparr>
      in case ask sqs [''Out''] answers of
           (Some e, _) \<Rightarrow> Inl e
         | (None, answers') \<Rightarrow> Inr (as_out answers'))"

text \<open>
  What the library documents: the answer to a question is written to the field of the struct
  whose name is the name of the question, whatever the case, and a question without such a
  field is an error.
\<close>

definition survey_by_field_name :: "survey_ask \<Rightarrow> bool" where
  "survey_by_field_name ask \<longleftrightarrow>
     (\<forall>qs fields sheet. (\<exists>q \<in> set qs. to_lower (sq_name q) \<notin> to_lower ` set fields) \<longrightarrow> fst (ask qs fields sheet) \<noteq> None)"

definition questions :: "question list" where
  "questions =
     [\<lparr>q_name = ''host'', q_prompt = ''VPS MySQL host'', q_default = [], q_help = []\<rparr>,
      \<lparr>q_name = ''port'', q_prompt = ''VPS MySQL port'', q_default = ''3306'', q_help = []\<rparr>,
      \<lparr>q_name = ''database'', q_prompt = ''Database name'', q_default = ''sja'', q_help = []\<rparr>,
      \<lparr>q_name = ''username'', q_prompt = ''Username'', q_default = ''sso_replicator'', q_help = []\<rparr>,
      \<lparr>q_name = ''password'', q_prompt = ''Password'', q_default = [],
       q_help = ''Stored encrypted at rest with the master key.''\<rparr>,
      \<lparr>q_name = ''apiKey'', q_prompt = ''API key (leave blank to auto-generate)'', q_default = [], q_help = []\<rparr>]"

section \<open>The dotenv file\<close>

definition master_key_prefix :: string where
  "master_key_prefix = ''GATEWAY_MASTER_KEY=''"

definition key_line :: "string \<Rightarrow> bool" where
  "key_line line \<longleftrightarrow>
     length line > length master_key_prefix \<and> take (length master_key_prefix) line = master_key_prefix"

definition dotenv_value :: "string \<Rightarrow> string" where
  "dotenv_value b =
     (case find key_line (split_lines b) of
        None \<Rightarrow> []
      | Some line \<Rightarrow> drop (length master_key_prefix) line)"

definition read_master_key_from_dotenv :: "osenv \<Rightarrow> string \<Rightarrow> fs \<Rightarrow> goerr + string" where
  "read_master_key_from_dotenv env path fs =
     (case os_read_file env path fs of
        Inl e \<Rightarrow> if errors_is e ''file does not exist'' then Inr [] else Inl e
      | Inr b \<Rightarrow> Inr (dotenv_value b))"

definition dotenv_contents :: "string \<Rightarrow> string" where
  "dotenv_contents master_b64 = master_key_prefix @ master_b64 @ nl"

definition write_dotenv :: "osenv \<Rightarrow> string \<Rightarrow> string \<Rightarrow> fs \<Rightarrow> goerr option \<times> fs" where
  "write_dotenv env path master_b64 fs =
     (case os_mkdir env path of
        Some e \<Rightarrow> (Some e, fs)
      | None \<Rightarrow> write_and_rename env path (dotenv_contents master_b64) fs)"

interpretation dotenv_file: atomic_file "write_dotenv env path" path "\<lambda>m. Some (dotenv_contents m)" for env path
proof
  fix m :: string and fs fs' :: fs
  assume "write_dotenv env path m fs = (None, fs')"
  then show "Some (dotenv_contents m) \<noteq> None \<and> fs' path = Some (dotenv_contents m)"
    by (auto simp: write_dotenv_def dest: write_and_rename_ok split: option.splits)
next
  fix m :: string and fs fs' :: fs and e :: goerr
  assume "write_dotenv env path m fs = (Some e, fs')"
  then show "fs' path = fs path"
    by (auto simp: write_dotenv_def dest: write_and_rename_err split: option.splits)
next
  fix m :: string and fs :: fs and p :: string
  assume "p \<noteq> path" and "p \<noteq> tmp_path path"
  then show "snd (write_dotenv env path m fs) p = fs p"
    by (auto simp: write_dotenv_def write_and_rename_frame split: option.splits)
qed

section \<open>RunPromptFlow\<close>

record flow_env =
  fe_prompt :: prompter
  fe_format_dsn :: format_dsn
  fe_dial :: mysql_dial
  fe_rand_api :: rand_source
  fe_rand_master :: rand_source
  fe_rand_nonce :: rand_source
  fe_os :: osenv
  fe_marshal :: yaml_marshal
  fe_unmarshal :: yaml_unmarshal

text \<open>The API key: the operator's answer, or a generated one.\<close>

definition flow_api_key :: "flow_env \<Rightarrow> string \<Rightarrow> goerr + string" where
  "flow_api_key env answer =
     (if answer = [] then wrap_err ''generate api key'' (generate_api_key (fe_rand_api env)) else Inr answer)"

text \<open>The text of the master key before a fresh one is made: a failed read counts as no value.\<close>

definition resolve_master_b64 :: "flow_env \<Rightarrow> string \<Rightarrow> string \<Rightarrow> fs \<Rightarrow> string" where
  "resolve_master_b64 env dotenv_path existing fs =
     (if existing = []
      then case read_master_key_from_dotenv (fe_os env) dotenv_path fs of Inl e \<Rightarrow> [] | Inr v \<Rightarrow> v
      else existing)"

definition flow_master_key :: "flow_env \<Rightarrow> string \<Rightarrow> goerr + bytes \<times> string" where
  "flow_master_key env master_b64 =
     (if master_b64 = []
      then case new_random_key (fe_rand_master env) of
          Inl e \<Rightarrow> Inl (ErrWrap ''generate master key'' e)
        | Inr k \<Rightarrow> Inr (k, key_to_base64 k)
      else case base64_to_key master_b64 of
          Inl e \<Rightarrow> Inl (ErrWrap ''decode master key'' e)
        | Inr k \<Rightarrow> Inr (k, master_b64))"

text \<open>Replace the first entry with the id "default", or append one.\<close>

fun put_default_key :: "api_key_entry \<Rightarrow> api_key_entry list \<Rightarrow> api_key_entry list" where
  "put_default_key new_key [] = [new_key]"
| "put_default_key new_key (k # ks) =
     (if ke_id k = ''default'' then new_key # ks else k # put_default_key new_key ks)"

definition default_key :: "string \<Rightarrow> api_key_entry" where
  "default_key plain =
     \<lparr>ke_id = ''default'', ke_key_hash = hash_api_key plain, ke_description = ''generated by setup''\<rparr>"

definition fill_sync :: "sync_config \<Rightarrow> sync_config" where
  "fill_sync s =
     \<lparr>sc_interval = (if sc_interval s = [] then ''5m'' else sc_interval s),
      sc_batch_size = (if sc_batch_size s = 0 then 500 else sc_batch_size s),
      sc_watermark_column = (if sc_watermark_column s = [] then ''updated_at'' else sc_watermark_column s)\<rparr>"

text \<open>The configuration the flow saves, from the one on disk.\<close>

definition merge_config :: "store_config \<Rightarrow> vps_config \<Rightarrow> string \<Rightarrow> store_config" where
  "merge_config old v plain =
     \<lparr>cfg_vps = v,
      cfg_api = \<lparr>ac_keys = put_default_key (default_key plain) (ac_keys (cfg_api old))\<rparr>,
      cfg_sync = fill_sync (cfg_sync old)\<rparr>"

definition existing_config :: "flow_env \<Rightarrow> string \<Rightarrow> fs \<Rightarrow> store_config" where
  "existing_config env config_path fs =
     (case store_load (fe_os env) (fe_unmarshal env) config_path fs of Inl e \<Rightarrow> zero_config | Inr c \<Rightarrow> c)"

text \<open>The two writes.\<close>

definition flow_persist ::
  "flow_env \<Rightarrow> string \<Rightarrow> string \<Rightarrow> store_config \<Rightarrow> string \<Rightarrow> string \<Rightarrow> fs
   \<Rightarrow> (goerr + store_config \<times> string \<times> string) \<times> fs" where
  "flow_persist env config_path dotenv_path cfg plain master_b64 fs =
     (case write_dotenv (fe_os env) dotenv_path master_b64 fs of
        (Some e, fs1) \<Rightarrow> (Inl (ErrWrap ''write dotenv'' e), fs1)
      | (None, fs1) \<Rightarrow>
          (case store_save (fe_os env) (fe_marshal env) config_path cfg fs1 of
             (Some e, fs2) \<Rightarrow> (Inl (ErrWrap ''save config'' e), fs2)
           | (None, fs2) \<Rightarrow> (Inr (cfg, plain, master_b64), fs2)))"

text \<open>The text of a \<open>strconv.NumError\<close>, with the input between quotes.\<close>

definition atoi_error :: "string \<Rightarrow> num_error \<Rightarrow> goerr" where
  "atoi_error s ne = ErrNew (''strconv.Atoi: parsing '' @ [CHR 0x22] @ s @ [CHR 0x22] @ '': '' @
     (case ne of NumSyntax \<Rightarrow> ''invalid syntax'' | NumRange \<Rightarrow> ''value out of range''))"

text \<open>From the answers to the writes; nothing here touches the file system.\<close>

definition flow_prepare ::
  "flow_env \<Rightarrow> string \<Rightarrow> string \<Rightarrow> string \<Rightarrow> fs \<Rightarrow> goerr + store_config \<times> string \<times> string" where
  "flow_prepare env config_path dotenv_path existing fs =
     (case fe_prompt env questions of
        Inl e \<Rightarrow> Inl (ErrWrap ''prompt'' e)
      | Inr answers \<Rightarrow>
          if length answers \<noteq> length questions
          then Inl (ErrNew (''expected '' @ fmt_d (int (length questions)) @ '' answers, got '' @ fmt_d (int (length answers))))
          else
            let host = answers ! 0; port_str = answers ! 1; database = answers ! 2;
                username = answers ! 3; password = answers ! 4; api_key_answer = answers ! 5
            in case atoi port_str of
                 (port, Some ne) \<Rightarrow>
                   Inl (ErrWrap (''invalid port '' @ [CHR 0x22] @ port_str @ [CHR 0x22]) (atoi_error port_str ne))
               | (port, None) \<Rightarrow>
                   (case fst (new_client (fe_dial env)
                           (build_dsn (fe_format_dsn env) host port database username password) 1 0) of
                      Inl e \<Rightarrow> Inl (ErrWrap ''vps connection'' e)
                    | Inr client \<Rightarrow>
                        (case flow_api_key env api_key_answer of
                           Inl e \<Rightarrow> Inl e
                         | Inr plain \<Rightarrow>
                             (case flow_master_key env (resolve_master_b64 env dotenv_path existing fs) of
                                Inl e \<Rightarrow> Inl e
                              | Inr (master, master_b64) \<Rightarrow>
                                  (case set_encrypted_password (fe_rand_nonce env) password master
                                          \<lparr>vps_host = host, vps_port = port, vps_database = database,
                                           vps_username = username, vps_password_encrypted = []\<rparr> of
                                     Inl e \<Rightarrow> Inl (ErrWrap ''encrypt vps password'' e)
                                   | Inr v \<Rightarrow>
                                       Inr (merge_config (existing_config env config_path fs) v plain, plain, master_b64))))))"

definition run_prompt_flow ::
  "flow_env \<Rightarrow> string \<Rightarrow> string \<Rightarrow> string \<Rightarrow> fs \<Rightarrow> (goerr + store_config \<times> string \<times> string) \<times> fs" where
  "run_prompt_flow env config_path dotenv_path existing fs =
     (case flow_prepare env config_path dotenv_path existing fs of
        Inl e \<Rightarrow> (Inl e, fs)
      | Inr (cfg, plain, master_b64) \<Rightarrow>
          flow_persist env config_path dotenv_path cfg plain master_b64 fs)"

section \<open>Facts\<close>

lemma length_questions: "length questions = 6"
  by (simp add: questions_def)

text \<open>What a prepared flow has gone through, in order.\<close>

lemma flow_prepareD:
  assumes "flow_prepare env config_path dotenv_path existing fs = Inr (cfg, plain, master_b64)"
  shows "\<exists>answers port master v.
    fe_prompt env questions = Inr answers \<and> length answers = 6 \<and> atoi (answers ! 1) = (port, None)
    \<and> fe_dial env (build_dsn (fe_format_dsn env) (answers ! 0) port (answers ! 2) (answers ! 3) (answers ! 4)) = DialOk
    \<and> flow_api_key env (answers ! 5) = Inr plain
    \<and> flow_master_key env (resolve_master_b64 env dotenv_path existing fs) = Inr (master, master_b64)
    \<and> set_encrypted_password (fe_rand_nonce env) (answers ! 4) master
        \<lparr>vps_host = answers ! 0, vps_port = port, vps_database = answers ! 2, vps_username = answers ! 3,
         vps_password_encrypted = []\<rparr> = Inr v
    \<and> cfg = merge_config (existing_config env config_path fs) v plain"
proof -
  obtain answers where a: "fe_prompt env questions = Inr answers" "length answers = 6"
    using assms by (auto simp: flow_prepare_def length_questions split: sum.splits if_splits)
  obtain port where p: "atoi (answers ! 1) = (port, None)"
    using assms a by (auto simp: flow_prepare_def length_questions Let_def split: prod.splits option.splits)
  obtain client where c: "fst (new_client (fe_dial env)
      (build_dsn (fe_format_dsn env) (answers ! 0) port (answers ! 2) (answers ! 3) (answers ! 4)) 1 0) = Inr client"
    using assms a p by (auto simp: flow_prepare_def length_questions Let_def split: sum.splits)
  then have d: "fe_dial env (build_dsn (fe_format_dsn env) (answers ! 0) port (answers ! 2) (answers ! 3) (answers ! 4)) = DialOk"
    by (simp add: new_client_def split: dial_result.splits)
  show ?thesis
    using assms a p c d
    by (auto simp: flow_prepare_def length_questions Let_def split: sum.splits prod.splits)
qed

lemma run_prompt_flow_ok:
  assumes "run_prompt_flow env config_path dotenv_path existing fs = (Inr (cfg, plain, master_b64), fs')"
  shows "flow_prepare env config_path dotenv_path existing fs = Inr (cfg, plain, master_b64)
    \<and> (\<exists>fs1. write_dotenv (fe_os env) dotenv_path master_b64 fs = (None, fs1)
        \<and> store_save (fe_os env) (fe_marshal env) config_path cfg fs1 = (None, fs'))"
  using assms by (auto simp: run_prompt_flow_def flow_persist_def split: sum.splits prod.splits option.splits)

lemma flow_master_key_reads_back:
  assumes "flow_master_key env b = Inr (master, master_b64)" and "rand_fills (fe_rand_master env)"
  shows "base64_to_key master_b64 = Inr master"
  using assms by (auto simp: flow_master_key_def new_random_key_def rand_fills_def base64_to_key_ok
      split: if_splits sum.splits)

text \<open>And conversely.\<close>

lemma flow_prepareI:
  assumes "fe_prompt env questions = Inr [host, port_str, database, username, password, answer]"
    and "atoi port_str = (port, None)"
    and "fe_dial env (build_dsn (fe_format_dsn env) host port database username password) = DialOk"
    and "flow_api_key env answer = Inr plain"
    and "flow_master_key env (resolve_master_b64 env dotenv_path existing fs) = Inr (master, m)"
    and "set_encrypted_password (fe_rand_nonce env) password master
        \<lparr>vps_host = host, vps_port = port, vps_database = database, vps_username = username,
         vps_password_encrypted = []\<rparr> = Inr v"
  shows "flow_prepare env config_path dotenv_path existing fs =
    Inr (merge_config (existing_config env config_path fs) v plain, plain, m)"
  using assms by (simp add: flow_prepare_def length_questions new_client_def Let_def)

text \<open>The dotenv file reads back.\<close>

lemma split_lines_no_nl: "l \<in> set (split_lines b) \<Longrightarrow> CHR 0x0A \<notin> set l"
  using split_lines_loop_no_nl [of "[]" l b] by (simp add: split_lines_def)

lemma dotenv_value_no_nl: "CHR 0x0A \<notin> set (dotenv_value b)"
proof (cases "find key_line (split_lines b)")
  case (Some line)
  from find_SomeD [OF this] have "CHR 0x0A \<notin> set line" using split_lines_no_nl [of line b] by simp
  with Some show ?thesis by (auto simp: dotenv_value_def dest: in_set_dropD)
qed (simp add: dotenv_value_def)

lemma dotenv_value_contents:
  assumes "CHR 0x0A \<notin> set m"
  shows "dotenv_value (dotenv_contents m) = m"
proof -
  have "CHR 0x0A \<notin> set (master_key_prefix @ m)" using assms by (simp add: master_key_prefix_def)
  then have "split_lines (dotenv_contents m) = [master_key_prefix @ m]"
    using split_lines_terminated [of "master_key_prefix @ m" "[]"] by (simp add: dotenv_contents_def)
  moreover have "key_line (master_key_prefix @ m) = (m \<noteq> [])" by (simp add: key_line_def)
  ultimately show ?thesis by (simp add: dotenv_value_def)
qed

text \<open>The configuration file, the dotenv file and their temporary files are four files.\<close>

definition paths_ok :: "string \<Rightarrow> string \<Rightarrow> bool" where
  "paths_ok config_path dotenv_path \<longleftrightarrow>
     distinct [config_path, tmp_path config_path, dotenv_path, tmp_path dotenv_path]"

definition dotenv_text :: "string \<Rightarrow> string option \<Rightarrow> bool" where
  "dotenv_text m f \<longleftrightarrow> (case f of None \<Rightarrow> False | Some b \<Rightarrow> dotenv_value b = m)"

lemma read_master_key_text:
  "os_read env path = None \<Longrightarrow>
   read_master_key_from_dotenv env path fs = Inr (case fs path of None \<Rightarrow> [] | Some b \<Rightarrow> dotenv_value b)"
  by (simp add: read_master_key_from_dotenv_def os_read_file_def split: option.split)

text \<open>What the two writes leave on disk, whichever of them fails.\<close>

lemma flow_persist_files:
  assumes "paths_ok config_path dotenv_path"
    and "flow_persist env config_path dotenv_path cfg plain m fs = (r, fs')"
  shows "case r of
      Inr x \<Rightarrow> x = (cfg, plain, m) \<and> fs' dotenv_path = Some (dotenv_contents m)
        \<and> (\<exists>b. fe_marshal env cfg = Inr b \<and> fs' config_path = Some b)
    | Inl e \<Rightarrow> fs' config_path = fs config_path
        \<and> (fs' dotenv_path = fs dotenv_path \<and> (\<exists>c. e = ErrWrap ''write dotenv'' c)
           \<or> fs' dotenv_path = Some (dotenv_contents m) \<and> (\<exists>c. e = ErrWrap ''save config'' c))"
proof -
  obtain e1 fs1 where w: "write_dotenv (fe_os env) dotenv_path m fs = (e1, fs1)"
    by (cases "write_dotenv (fe_os env) dotenv_path m fs")
  have ne: "config_path \<noteq> dotenv_path" "config_path \<noteq> tmp_path dotenv_path"
    "dotenv_path \<noteq> config_path" "dotenv_path \<noteq> tmp_path config_path"
    using assms(1) by (auto simp: paths_ok_def)
  have cfg1: "fs1 config_path = fs config_path"
    using dotenv_file.save_frame [OF ne(1,2), of "fe_os env" m fs] w by simp
  show ?thesis
  proof (cases e1)
    case (Some e)
    have "fs1 dotenv_path = fs dotenv_path" using dotenv_file.save_err w Some by blast
    then show ?thesis using assms(2) w Some cfg1 by (auto simp: flow_persist_def)
  next
    case None
    have dot1: "fs1 dotenv_path = Some (dotenv_contents m)" using dotenv_file.save_ok [of "fe_os env" dotenv_path m fs fs1] w None by simp
    obtain e2 fs2 where s: "store_save (fe_os env) (fe_marshal env) config_path cfg fs1 = (e2, fs2)"
      by (cases "store_save (fe_os env) (fe_marshal env) config_path cfg fs1")
    have dot2: "fs2 dotenv_path = fs1 dotenv_path"
      using config_file.save_frame [OF ne(3,4), of "fe_os env" "fe_marshal env" cfg fs1] s by simp
    show ?thesis
    proof (cases e2)
      case (Some e)
      then have "fs2 config_path = fs1 config_path" using config_file.save_err s by blast
      then show ?thesis using assms(2) w None s Some cfg1 dot1 dot2 by (auto simp: flow_persist_def)
    next
      case e2: None
      have "\<exists>b. fe_marshal env cfg = Inr b \<and> fs2 config_path = Some b"
        using config_file.save_ok [of "fe_os env" "fe_marshal env" config_path cfg fs1 fs2] s e2
        by (cases "fe_marshal env cfg") simp_all
      then show ?thesis using assms(2) w None s e2 dot1 dot2 by (auto simp: flow_persist_def)
    qed
  qed
qed

lemma flow_prepare_err: "flow_prepare env config_path dotenv_path existing fs \<noteq> Inl (ErrWrap ''save config'' c)"
proof -
  have "flow_api_key env a \<noteq> Inl (ErrWrap ''save config'' c)" for a
    by (simp add: flow_api_key_def wrap_err_def split: sum.split)
  moreover have "flow_master_key env b \<noteq> Inl (ErrWrap ''save config'' c)" for b
    by (simp add: flow_master_key_def split: sum.split)
  ultimately show ?thesis by (auto simp: flow_prepare_def Let_def split: sum.splits prod.splits option.splits)
qed

lemma run_prompt_flow_err_files:
  assumes "paths_ok config_path dotenv_path"
    and "run_prompt_flow env config_path dotenv_path existing fs = (Inl e, fs')"
  shows "fs' config_path = fs config_path
    \<and> (fs' dotenv_path = fs dotenv_path
       \<or> (\<exists>cfg plain m c. flow_prepare env config_path dotenv_path existing fs = Inr (cfg, plain, m)
           \<and> fs' dotenv_path = Some (dotenv_contents m) \<and> e = ErrWrap ''save config'' c))"
proof (cases "flow_prepare env config_path dotenv_path existing fs")
  case (Inl e')
  then show ?thesis using assms(2) by (simp add: run_prompt_flow_def)
next
  case (Inr x)
  obtain cfg plain m where x: "x = (cfg, plain, m)" by (cases x)
  with Inr assms(2) have "flow_persist env config_path dotenv_path cfg plain m fs = (Inl e, fs')"
    by (simp add: run_prompt_flow_def)
  from flow_persist_files [OF assms(1) this] Inr x show ?thesis by auto
qed

section \<open>Properties\<close>

text \<open>
  Setup writes nothing before it has connected: whenever the file system is not as
  before, the prompts gave six answers, the port is a number, and the source accepted a
  connection with exactly the host, port, database, user and password that were answered.
\<close>

theorem flow_writes_only_after_connecting:
  "snd (run_prompt_flow env config_path dotenv_path existing fs) = fs
   \<or> (\<exists>answers port. fe_prompt env questions = Inr answers \<and> length answers = 6
        \<and> atoi (answers ! 1) = (port, None)
        \<and> fe_dial env (build_dsn (fe_format_dsn env) (answers ! 0) port (answers ! 2) (answers ! 3) (answers ! 4)) = DialOk)"
proof (cases "flow_prepare env config_path dotenv_path existing fs")
  case (Inr x)
  obtain cfg plain m where "x = (cfg, plain, m)" by (cases x)
  with Inr flow_prepareD [of env config_path dotenv_path existing fs cfg plain m] show ?thesis by blast
qed (simp add: run_prompt_flow_def)

lemma flow_end_state:
  assumes flow: "run_prompt_flow env config_path dotenv_path existing fs = (Inr (cfg, plain, m), fs')"
    and paths: "paths_ok config_path dotenv_path"
    and rnd: "rand_fills (fe_rand_nonce env)" "rand_fills (fe_rand_master env)"
    and reads: "os_read os' config_path = None" "os_read os' dotenv_path = None"
    and yaml: "\<And>b. fe_marshal env cfg = Inr b \<Longrightarrow> fe_unmarshal env b = Inr cfg"
    and line: "CHR 0x0A \<notin> set m"
  shows "store_load os' (fe_unmarshal env) config_path fs' = Inr cfg
    \<and> read_master_key_from_dotenv os' dotenv_path fs' = Inr m
    \<and> (\<exists>answers master. fe_prompt env questions = Inr answers
        \<and> base64_to_key m = Inr master \<and> get_decrypted_password master (cfg_vps cfg) = Inr (answers ! 4)
        \<and> vps_host (cfg_vps cfg) = answers ! 0 \<and> (answers ! 5 = [] \<or> plain = answers ! 5))"
proof -
  have prep: "flow_prepare env config_path dotenv_path existing fs = Inr (cfg, plain, m)"
    using run_prompt_flow_ok [OF flow] by blast
  then have "flow_persist env config_path dotenv_path cfg plain m fs = (Inr (cfg, plain, m), fs')"
    using flow by (simp add: run_prompt_flow_def)
  from flow_persist_files [OF paths this] obtain b where files: "fs' dotenv_path = Some (dotenv_contents m)"
    "fe_marshal env cfg = Inr b" "fs' config_path = Some b" by auto
  from flow_prepareD [OF prep] obtain answers port master v where a: "fe_prompt env questions = Inr answers"
    and key: "flow_api_key env (answers ! 5) = Inr plain"
    and mk: "flow_master_key env (resolve_master_b64 env dotenv_path existing fs) = Inr (master, m)"
    and v: "set_encrypted_password (fe_rand_nonce env) (answers ! 4) master
        \<lparr>vps_host = answers ! 0, vps_port = port, vps_database = answers ! 2, vps_username = answers ! 3,
         vps_password_encrypted = []\<rparr> = Inr v"
    and cfg: "cfg = merge_config (existing_config env config_path fs) v plain" by blast
  have "store_load os' (fe_unmarshal env) config_path fs' = Inr cfg"
    using files(2,3) yaml reads(1) by (simp add: store_load_def os_read_file_def)
  moreover have "read_master_key_from_dotenv os' dotenv_path fs' = Inr m"
    using files(1) dotenv_value_contents [OF line] reads(2) by (simp add: read_master_key_text)
  moreover have "base64_to_key m = Inr master" by (rule flow_master_key_reads_back [OF mk rnd(2)])
  moreover have "get_decrypted_password master (cfg_vps cfg) = Inr (answers ! 4)"
    using get_set_password [OF rnd(1) v] cfg by (simp add: merge_config_def)
  moreover have "vps_host (cfg_vps cfg) = answers ! 0"
    using set_encrypted_password_frame [OF v] cfg by (simp add: merge_config_def)
  moreover have "answers ! 5 = [] \<or> plain = answers ! 5"
    using key by (auto simp: flow_api_key_def split: if_splits)
  ultimately show ?thesis using a by blast
qed

text \<open>
  Property C17. A successful setup leaves a state the other services can start from: the
  configuration file loads as the configuration that was returned, the dotenv file yields the
  returned master key text, this text decodes to the key that decrypts the stored password to
  the one that was answered, and an answered API key is the one that was printed. It holds
  for random sources that fill their buffer, a YAML library that reads back what it wrote for
  this configuration, and a key text without a line break.
\<close>

theorem setup_end_state:
  assumes "run_prompt_flow env config_path dotenv_path existing fs = (Inr (cfg, plain, m), fs')"
    and "paths_ok config_path dotenv_path"
    and "rand_fills (fe_rand_nonce env)" and "rand_fills (fe_rand_master env)"
    and "os_read os' config_path = None" and "os_read os' dotenv_path = None"
    and "\<And>b. fe_marshal env cfg = Inr b \<Longrightarrow> fe_unmarshal env b = Inr cfg"
    and "CHR 0x0A \<notin> set m"
  shows "store_load os' (fe_unmarshal env) config_path fs' = Inr cfg
    \<and> read_master_key_from_dotenv os' dotenv_path fs' = Inr m
    \<and> (\<exists>answers master. fe_prompt env questions = Inr answers
        \<and> base64_to_key m = Inr master \<and> get_decrypted_password master (cfg_vps cfg) = Inr (answers ! 4)
        \<and> vps_host (cfg_vps cfg) = answers ! 0 \<and> (answers ! 5 = [] \<or> plain = answers ! 5))"
  using assms by (rule flow_end_state)

definition ref_getenv :: "string \<Rightarrow> string" where
  "ref_getenv k =
     (if k = ''SETUP_HOST'' then ''db'' else if k = ''SETUP_USERNAME'' then ''repl''
      else if k = ''SETUP_PASSWORD'' then ''s3cret'' else if k = ''SETUP_API_KEY'' then ''k'' else [])"

lemma ref_answers: "env_prompter ref_getenv questions = Inr [''db'', ''3306'', ''sja'', ''repl'', ''s3cret'', ''k'']"
  by code_simp

definition flow_ref :: "store_config \<Rightarrow> flow_env" where
  "flow_ref saved =
     \<lparr>fe_prompt = env_prompter ref_getenv,
      fe_format_dsn = mc_passwd, fe_dial = (\<lambda>dsn. if dsn = ''s3cret'' then DialOk else DialOpenErr (ErrNew ''denied'')),
      fe_rand_api = (\<lambda>n. Inr (replicate n 1)), fe_rand_master = (\<lambda>n. Inr (replicate n 7)),
      fe_rand_nonce = (\<lambda>n. Inr (replicate n 9)), fe_os = os_healthy,
      fe_marshal = (\<lambda>c. Inr ''yaml''), fe_unmarshal = (\<lambda>b. Inr saved)\<rparr>"

text \<open>The flow on these answers comes to its end; the encrypted password depends on the key only.\<close>

lemma flow_ref_prepared:
  assumes "length master = key_size"
  shows "\<exists>v. \<forall>saved os c d existing fs m.
    flow_master_key (flow_ref saved) (resolve_master_b64 ((flow_ref saved)\<lparr>fe_os := os\<rparr>) d existing fs) = Inr (master, m) \<longrightarrow>
    flow_prepare ((flow_ref saved)\<lparr>fe_os := os\<rparr>) c d existing fs =
      Inr (merge_config (existing_config ((flow_ref saved)\<lparr>fe_os := os\<rparr>) c fs) v ''k'', ''k'', m)"
proof -
  have port: "atoi ''3306'' = (3306, None)" by code_simp
  let ?v = "\<lparr>vps_host = ''db'', vps_port = 3306, vps_database = ''sja'', vps_username = ''repl'', vps_password_encrypted = []\<rparr>"
  have "\<exists>ct. crypto_encrypt (\<lambda>n. Inr (replicate n 9)) master ''s3cret'' = Inr ct"
    using assms by (simp add: crypto_encrypt_ok_iff key_size_def)
  then obtain v where v: "set_encrypted_password (\<lambda>n. Inr (replicate n 9)) ''s3cret'' master ?v = Inr v"
    by (auto simp: set_encrypted_password_def)
  have "flow_prepare ((flow_ref saved)\<lparr>fe_os := os\<rparr>) c d existing fs =
      Inr (merge_config (existing_config ((flow_ref saved)\<lparr>fe_os := os\<rparr>) c fs) v ''k'', ''k'', m)"
    if "flow_master_key (flow_ref saved) (resolve_master_b64 ((flow_ref saved)\<lparr>fe_os := os\<rparr>) d existing fs) = Inr (master, m)"
    for saved os c d existing fs m
  proof -
    let ?env = "(flow_ref saved)\<lparr>fe_os := os\<rparr>"
    have "fe_prompt ?env questions = Inr [''db'', ''3306'', ''sja'', ''repl'', ''s3cret'', ''k'']"
      and "fe_dial ?env (build_dsn (fe_format_dsn ?env) ''db'' 3306 ''sja'' ''repl'' ''s3cret'') = DialOk"
      and "flow_api_key ?env ''k'' = Inr ''k''"
      and "set_encrypted_password (fe_rand_nonce ?env) ''s3cret'' master ?v = Inr v"
      using v ref_answers by (simp_all add: flow_ref_def build_dsn_def dsn_config_def flow_api_key_def)
    note facts = this
    have "flow_master_key ?env b = flow_master_key (flow_ref saved) b" for b
      by (simp add: flow_master_key_def flow_ref_def)
    with that have "flow_master_key ?env (resolve_master_b64 ?env d existing fs) = Inr (master, m)" by simp
    from flow_prepareI [OF facts(1) port facts(2,3) this facts(4)] show ?thesis by simp
  qed
  then show ?thesis by blast
qed

lemma flow_ref_fresh:
  "\<exists>cfg. \<forall>saved. flow_prepare (flow_ref saved) ''c'' ''d'' [] Map.empty =
     Inr (cfg, ''k'', key_to_base64 (replicate 32 7))"
proof -
  have self: "(flow_ref s)\<lparr>fe_os := os_healthy\<rparr> = flow_ref s" for s by (simp add: flow_ref_def)
  have old: "existing_config (flow_ref s) ''c'' Map.empty = zero_config"
    and key: "flow_master_key (flow_ref s) (resolve_master_b64 (flow_ref s) ''d'' [] Map.empty) =
      Inr (replicate 32 7, key_to_base64 (replicate 32 7))" for s
    by (simp_all add: existing_config_def store_load_def os_read_file_def flow_ref_def os_healthy_def
        flow_master_key_def resolve_master_b64_def read_master_key_text new_random_key_def key_size_def)
  obtain v where v: "\<forall>saved os c d existing fs m.
    flow_master_key (flow_ref saved) (resolve_master_b64 ((flow_ref saved)\<lparr>fe_os := os\<rparr>) d existing fs) = Inr (replicate 32 7, m) \<longrightarrow>
    flow_prepare ((flow_ref saved)\<lparr>fe_os := os\<rparr>) c d existing fs =
      Inr (merge_config (existing_config ((flow_ref saved)\<lparr>fe_os := os\<rparr>) c fs) v ''k'', ''k'', m)"
    using flow_ref_prepared [of "replicate 32 7"] by (auto simp: key_size_def)
  have "flow_prepare (flow_ref s) ''c'' ''d'' [] Map.empty =
      Inr (merge_config zero_config v ''k'', ''k'', key_to_base64 (replicate 32 7))" for s
    using v [rule_format, of s os_healthy "''d''" "[]" Map.empty _ "''c''"] by (simp only: self key old)
  then show ?thesis by blast
qed

lemma os_mkdir_healthy: "os_mkdir os_healthy path = None"
  by (simp add: os_healthy_def)

lemma flow_persist_healthy:
  "fe_os env = os_healthy \<Longrightarrow> fe_marshal env cfg = Inr b \<Longrightarrow>
   fst (flow_persist env config_path dotenv_path cfg plain m fs) = Inr (cfg, plain, m)"
  using write_and_rename_healthy by (simp add: flow_persist_def write_dotenv_def store_save_def os_mkdir_healthy)

lemma setup_end_state_witness:
  "\<exists>cfg fs'. run_prompt_flow (flow_ref cfg) ''c'' ''d'' [] Map.empty = (Inr (cfg, ''k'', key_to_base64 (replicate 32 7)), fs')
    \<and> store_load os_healthy (fe_unmarshal (flow_ref cfg)) ''c'' fs' = Inr cfg
    \<and> read_master_key_from_dotenv os_healthy ''d'' fs' = Inr (key_to_base64 (replicate 32 7))"
proof -
  obtain cfg where prep: "flow_prepare (flow_ref cfg) ''c'' ''d'' [] Map.empty = Inr (cfg, ''k'', key_to_base64 (replicate 32 7))"
    using flow_ref_fresh by blast
  let ?p = "flow_persist (flow_ref cfg) ''c'' ''d'' cfg ''k'' (key_to_base64 (replicate 32 7)) Map.empty"
  have "fst ?p = Inr (cfg, ''k'', key_to_base64 (replicate 32 7))"
    by (rule flow_persist_healthy) (simp_all add: flow_ref_def)
  then have run: "run_prompt_flow (flow_ref cfg) ''c'' ''d'' [] Map.empty =
      (Inr (cfg, ''k'', key_to_base64 (replicate 32 7)), snd ?p)"
    by (simp add: run_prompt_flow_def prep prod_eq_iff)
  have "CHR 0x0A \<notin> set (key_to_base64 (replicate 32 7))"
    using key_to_base64_line [of "replicate 32 7"] by (simp add: key_size_def)
  then show ?thesis
    using setup_end_state [OF run, of os_healthy] run
    by (auto simp: flow_ref_def paths_ok_def rand_fills_def os_healthy_def)
qed

lemma read_dotenv_no_nl: "read_master_key_from_dotenv os path fs = Inr m \<Longrightarrow> CHR 0x0A \<notin> set m"
  by (auto simp: read_master_key_from_dotenv_def dotenv_value_no_nl split: sum.splits if_splits)

lemma flow_master_text:
  "flow_master_key env b = Inr (master, m) \<Longrightarrow>
   m = (if b = [] then key_to_base64 master else b) \<and> (b = [] \<longrightarrow> new_random_key (fe_rand_master env) = Inr master)"
  by (auto simp: flow_master_key_def split: if_splits sum.splits)

text \<open>
  The order in which setup looks for the master key: a non-empty
  \<open>GATEWAY_MASTER_KEY\<close> of the process wins, then a readable value of the dotenv file, and only
  when there is neither is a fresh key drawn; the key that is used decodes from the text that is
  stored. (The documentation of \<open>RunPromptFlow\<close> names the dotenv file first.)
\<close>

theorem master_key_order:
  assumes "flow_prepare env config_path dotenv_path existing fs = Inr (cfg, plain, m)"
  shows "if existing \<noteq> [] then m = existing
    else case read_master_key_from_dotenv (fe_os env) dotenv_path fs of
        Inr v \<Rightarrow> if v \<noteq> [] then m = v
            else (\<exists>k. new_random_key (fe_rand_master env) = Inr k \<and> m = key_to_base64 k)
      | Inl e \<Rightarrow> (\<exists>k. new_random_key (fe_rand_master env) = Inr k \<and> m = key_to_base64 k)"
proof -
  from flow_prepareD [OF assms] obtain master where
    "flow_master_key env (resolve_master_b64 env dotenv_path existing fs) = Inr (master, m)" by blast
  from flow_master_text [OF this] show ?thesis
    by (auto simp: resolve_master_b64_def split: sum.splits if_splits)
qed

lemma master_key_order_witness:
  "\<exists>k. new_random_key (\<lambda>n. Inr (replicate n 7)) = Inr k \<and> key_to_base64 (replicate 32 7) = key_to_base64 k"
proof -
  obtain cfg where "flow_prepare (flow_ref cfg) ''c'' ''d'' [] Map.empty = Inr (cfg, ''k'', key_to_base64 (replicate 32 7))"
    using flow_ref_fresh by blast
  from master_key_order [OF this] show ?thesis
    by (simp add: flow_ref_def read_master_key_text os_healthy_def)
qed

text \<open>
  Property C7. A setup that fails keeps the old secret usable when the environment does not
  override it: if the dotenv file yields a master key and \<open>GATEWAY_MASTER_KEY\<close> is empty, then
  after an error, wherever it occurred, the configuration file is the old one and the dotenv
  file yields the same key.
\<close>

theorem setup_failure_keeps_key:
  assumes "run_prompt_flow env config_path dotenv_path [] fs = (Inl e, fs')"
    and "paths_ok config_path dotenv_path"
    and "read_master_key_from_dotenv (fe_os env) dotenv_path fs = Inr m" and "m \<noteq> []"
  shows "fs' config_path = fs config_path \<and> read_master_key_from_dotenv (fe_os env) dotenv_path fs' = Inr m"
proof -
  have readable: "os_read (fe_os env) dotenv_path = None"
    using assms(3,4)
    by (auto simp: read_master_key_from_dotenv_def os_read_file_def split: option.splits if_splits)
  have keep: "fs' dotenv_path = fs dotenv_path \<Longrightarrow> read_master_key_from_dotenv (fe_os env) dotenv_path fs' = Inr m"
    using assms(3) by (simp add: read_master_key_text [OF readable])
  have new: "m' = m" if "flow_prepare env config_path dotenv_path [] fs = Inr (cfg, plain, m')" for cfg plain m'
    using flow_prepareD [OF that] assms(3,4) by (auto simp: resolve_master_b64_def dest: flow_master_text)
  have nl: "CHR 0x0A \<notin> set m" by (rule read_dotenv_no_nl [OF assms(3)])
  have written: "fs' dotenv_path = Some (dotenv_contents m) \<Longrightarrow>
      read_master_key_from_dotenv (fe_os env) dotenv_path fs' = Inr m"
    by (simp add: read_master_key_text [OF readable] dotenv_value_contents [OF nl])
  from run_prompt_flow_err_files [OF assms(2,1)] keep written new show ?thesis by blast
qed

text \<open>Writing the dotenv file works, saving the configuration does not.\<close>

definition os_config_fails :: osenv where
  "os_config_fails = os_healthy\<lparr>os_rename := (\<lambda>p. if p = ''c'' then Some (ErrNew ''read-only'') else None)\<rparr>"

lemma setup_failure_keeps_key_witness:
  "\<exists>e fs'. run_prompt_flow ((flow_ref zero_config)\<lparr>fe_os := os_config_fails\<rparr>) ''c'' ''d'' []
       [''d'' \<mapsto> dotenv_contents (key_to_base64 (replicate 32 3))] = (Inl e, fs')
     \<and> read_master_key_from_dotenv os_config_fails ''d'' fs' = Inr (key_to_base64 (replicate 32 3))"
proof -
  let ?m = "key_to_base64 (replicate 32 3)"
  let ?fs = "[''d'' \<mapsto> dotenv_contents ?m]"
  let ?env = "(flow_ref zero_config)\<lparr>fe_os := os_config_fails\<rparr>"
  have m: "CHR 0x0A \<notin> set ?m" "?m \<noteq> []" using key_to_base64_line [of "replicate 32 3"] by (simp_all add: key_size_def)
  have "read_master_key_from_dotenv os_config_fails ''d'' ?fs = Inr ?m"
    by (simp add: read_master_key_text os_config_fails_def os_healthy_def dotenv_value_contents [OF m(1)])
  moreover have "\<nexists>x. fst (run_prompt_flow ?env ''c'' ''d'' [] ?fs) = Inr x"
  proof
    assume "\<exists>x. fst (run_prompt_flow ?env ''c'' ''d'' [] ?fs) = Inr x"
    then obtain cfg plain m' fs' where "run_prompt_flow ?env ''c'' ''d'' [] ?fs = (Inr (cfg, plain, m'), fs')"
      by (metis prod.collapse prod_cases3)
    from run_prompt_flow_ok [OF this] show False
      by (auto simp: store_save_def write_and_rename_def os_rename_file_def os_config_fails_def split: option.splits sum.splits prod.splits)
  qed
  then obtain e where "run_prompt_flow ?env ''c'' ''d'' [] ?fs = (Inl e, snd (run_prompt_flow ?env ''c'' ''d'' [] ?fs))"
    by (cases "fst (run_prompt_flow ?env ''c'' ''d'' [] ?fs)") (auto simp: prod_eq_iff)
  ultimately show ?thesis
    using setup_failure_keeps_key [of ?env "''c''" "''d''" ?fs e _ ?m] m
    by (fastforce simp: paths_ok_def)
qed

text \<open>
  Property C35. A failed setup under a changed \<open>GATEWAY_MASTER_KEY\<close> separates key and
  configuration: when the dotenv file held another key and only the last write fails, the error
  leaves the old configuration, whose password is encrypted under the old key, beside a dotenv
  file that yields the new one. This is the case that the documentation of \<open>RunPromptFlow\<close> says
  cannot occur.
\<close>

theorem setup_failure_swaps_key:
  assumes "run_prompt_flow env config_path dotenv_path existing fs = (Inl (ErrWrap ''save config'' c), fs')"
    and "paths_ok config_path dotenv_path"
    and "existing \<noteq> []" and "CHR 0x0A \<notin> set existing" and "os_read os' dotenv_path = None"
  shows "fs' config_path = fs config_path \<and> read_master_key_from_dotenv os' dotenv_path fs' = Inr existing"
proof -
  obtain cfg plain m where prep: "flow_prepare env config_path dotenv_path existing fs = Inr (cfg, plain, m)"
    and run: "flow_persist env config_path dotenv_path cfg plain m fs = (Inl (ErrWrap ''save config'' c), fs')"
    using assms(1) by (auto simp: run_prompt_flow_def flow_prepare_err split: sum.splits prod.splits)
  have "m = existing"
    using flow_prepareD [OF prep] assms(3) by (auto simp: resolve_master_b64_def dest: flow_master_text)
  with flow_persist_files [OF assms(2) run] show ?thesis
    by (simp add: read_master_key_text [OF assms(5)] dotenv_value_contents [OF assms(4)])
qed

lemma setup_failure_swaps_key_witness:
  "\<exists>e fs'. run_prompt_flow ((flow_ref zero_config)\<lparr>fe_os := os_config_fails\<rparr>) ''c'' ''d'' (key_to_base64 (replicate 32 5))
       [''c'' \<mapsto> ''old'', ''d'' \<mapsto> dotenv_contents (key_to_base64 (replicate 32 3))] = (Inl e, fs')
     \<and> fs' ''c'' = Some ''old''
     \<and> read_master_key_from_dotenv os_healthy ''d'' fs' = Inr (key_to_base64 (replicate 32 5))"
proof -
  let ?m = "key_to_base64 (replicate 32 5)"
  let ?fs = "[''c'' \<mapsto> ''old'', ''d'' \<mapsto> dotenv_contents (key_to_base64 (replicate 32 3))]"
  let ?env = "(flow_ref zero_config)\<lparr>fe_os := os_config_fails\<rparr>"
  have k: "length (replicate 32 5 :: bytes) = key_size" by (simp add: key_size_def)
  have m: "CHR 0x0A \<notin> set ?m" "?m \<noteq> []" using key_to_base64_line [OF k] by simp_all
  have "flow_master_key (flow_ref zero_config) (resolve_master_b64 ?env ''d'' ?m ?fs) = Inr (replicate 32 5, ?m)"
    using m(2) base64_to_key_ok [OF k] by (simp add: flow_master_key_def resolve_master_b64_def)
  with flow_ref_prepared [OF k] obtain v where
    "flow_prepare ?env ''c'' ''d'' ?m ?fs = Inr (merge_config (existing_config ?env ''c'' ?fs) v ''k'', ''k'', ?m)"
    by blast
  then have "fst (run_prompt_flow ?env ''c'' ''d'' ?m ?fs) = Inl (ErrWrap ''save config'' (ErrNew ''read-only''))"
    by (simp add: run_prompt_flow_def flow_persist_def write_dotenv_def store_save_def write_and_rename_def
        os_write_file_def os_rename_file_def os_config_fails_def os_healthy_def flow_ref_def)
  then have run: "run_prompt_flow ?env ''c'' ''d'' ?m ?fs =
      (Inl (ErrWrap ''save config'' (ErrNew ''read-only'')), snd (run_prompt_flow ?env ''c'' ''d'' ?m ?fs))"
    by (simp add: prod_eq_iff)
  have "paths_ok ''c'' ''d''" and "os_read os_healthy ''d'' = None" by (simp_all add: paths_ok_def os_healthy_def)
  from setup_failure_swaps_key [OF run this(1) m(2,1) this(2)] run show ?thesis by auto
qed

lemma put_default_key_others:
  "filter (\<lambda>k. ke_id k \<noteq> ''default'') (put_default_key new ks) = filter (\<lambda>k. ke_id k \<noteq> ''default'') ks"
  if "ke_id new = ''default''"
  using that by (induction ks) simp_all

lemma put_default_key_find:
  "ke_id new = ''default'' \<Longrightarrow> find (\<lambda>k. ke_id k = ''default'') (put_default_key new ks) = Some new"
  by (induction ks) simp_all

lemma put_default_key_idem:
  "ke_id new = ''default'' \<Longrightarrow> put_default_key new (put_default_key new ks) = put_default_key new ks"
  by (induction ks) simp_all

lemma put_default_key_ids:
  "ke_id new = ''default'' \<Longrightarrow> map ke_id (put_default_key new ks) =
     (if ''default'' \<in> ke_id ` set ks then map ke_id ks else map ke_id ks @ [''default''])"
  by (induction ks) auto

text \<open>
  Property C36. Re-running setup keeps what the operator edited: every API key with another id
  stays, in order; the first entry "default" becomes the new key, in its place, or is added at the
  end; each of the three sync settings stays when it was set and is 5m, 500 or updated_at when it
  was not; the connection is the one just answered; merging twice is merging once.
\<close>

theorem merge_config_keeps_edits:
  "let c = merge_config old v plain; others = filter (\<lambda>k. ke_id k \<noteq> ''default'')
   in others (ac_keys (cfg_api c)) = others (ac_keys (cfg_api old))
    \<and> find (\<lambda>k. ke_id k = ''default'') (ac_keys (cfg_api c)) = Some (default_key plain)
    \<and> map ke_id (ac_keys (cfg_api c)) = map ke_id (ac_keys (cfg_api old))
        @ (if ''default'' \<in> ke_id ` set (ac_keys (cfg_api old)) then [] else [''default''])
    \<and> cfg_vps c = v
    \<and> sc_interval (cfg_sync c) = (if sc_interval (cfg_sync old) = [] then ''5m'' else sc_interval (cfg_sync old))
    \<and> sc_batch_size (cfg_sync c) = (if sc_batch_size (cfg_sync old) = 0 then 500 else sc_batch_size (cfg_sync old))
    \<and> sc_watermark_column (cfg_sync c) =
        (if sc_watermark_column (cfg_sync old) = [] then ''updated_at'' else sc_watermark_column (cfg_sync old))
    \<and> merge_config c v plain = c"
proof -
  have d: "ke_id (default_key plain) = ''default''" by (simp add: default_key_def)
  show ?thesis
    by (simp add: Let_def merge_config_def fill_sync_def put_default_key_others [OF d]
        put_default_key_find [OF d] put_default_key_idem [OF d] put_default_key_ids [OF d])
qed

lemma env_answers:
  "env_answer getenv ''host'' = getenv ''SETUP_HOST''"
  "env_answer getenv ''port'' = env_default getenv ''SETUP_PORT'' ''3306''"
  "env_answer getenv ''database'' = env_default getenv ''SETUP_DATABASE'' ''sja''"
  "env_answer getenv ''username'' = env_default getenv ''SETUP_USERNAME'' ''sso_replicator''"
  "env_answer getenv ''password'' = getenv ''SETUP_PASSWORD''"
  "env_answer getenv ''apiKey'' = getenv ''SETUP_API_KEY''"
  by (simp_all add: env_answer_def)

lemma env_default_eq: "env_default getenv k d = (if getenv k = [] then d else getenv k)"
  by (simp add: env_default_def Let_def)

lemma env_prompter_step:
  "env_prompter getenv (q # qs) =
     (if env_answer getenv (q_name q) = [] \<and> q_name q \<noteq> ''apiKey''
      then Inl (ErrNew (''required env var for '' @ [CHR 0x22] @ q_name q @ [CHR 0x22] @ '' not set''))
      else map_sum id (Cons (env_answer getenv (q_name q))) (env_prompter getenv qs))"
  by (simp add: Let_def split: sum.split)

lemma env_default_answered: "d \<noteq> [] \<Longrightarrow> env_default getenv k d \<noteq> []"
  by (simp add: env_default_eq)

text \<open>
  Unattended setup answers every question or names the first missing variable: only
  the host and the password are required; port, database and user have their defaults and the
  API key may be empty.
\<close>

theorem env_prompter_answers:
  "env_prompter getenv questions =
    (if getenv ''SETUP_HOST'' = []
     then Inl (ErrNew (''required env var for '' @ [CHR 0x22] @ ''host'' @ [CHR 0x22] @ '' not set''))
     else if getenv ''SETUP_PASSWORD'' = []
     then Inl (ErrNew (''required env var for '' @ [CHR 0x22] @ ''password'' @ [CHR 0x22] @ '' not set''))
     else Inr [getenv ''SETUP_HOST'',
               if getenv ''SETUP_PORT'' = [] then ''3306'' else getenv ''SETUP_PORT'',
               if getenv ''SETUP_DATABASE'' = [] then ''sja'' else getenv ''SETUP_DATABASE'',
               if getenv ''SETUP_USERNAME'' = [] then ''sso_replicator'' else getenv ''SETUP_USERNAME'',
               getenv ''SETUP_PASSWORD'', getenv ''SETUP_API_KEY''])"
  unfolding env_default_eq [symmetric] questions_def env_prompter_step question.simps env_answers
  by (simp add: env_default_answered)

end
