(* ===== verification/GoDuration.thy ===== *)
theory GoDuration
  imports GoStrconv
begin

text \<open>
  Durations of Go's \<open>time\<close> package as the configuration uses them: \<open>time.ParseDuration\<close> on
  \<open>SYNC_INTERVAL\<close> and \<open>Duration.String\<close> for the schedule of \<open>cmd/sync\<close>. A duration counts
  nanoseconds. The one step in floating point, the value of a fraction of a unit, is the
  parameter \<open>frac\<close>. A duration of whole seconds is printed to a text that parses to it.
\<close>

section \<open>Parsing\<close>

abbreviation err_duration :: goerr where
  "err_duration \<equiv> ErrNew ''time: invalid duration''"

fun leading_int :: "int \<Rightarrow> string \<Rightarrow> (int \<times> string) option" where
  "leading_int x [] = Some (x, [])"
| "leading_int x (c # s) =
     (if \<not> is_digit c then Some (x, c # s)
      else if x > 2 ^ 63 div 10 then None
      else if x * 10 + digit_val c > 2 ^ 63 then None
      else leading_int (x * 10 + digit_val c) s)"

fun leading_fraction :: "int \<Rightarrow> int \<Rightarrow> bool \<Rightarrow> string \<Rightarrow> int \<times> int \<times> string" where
  "leading_fraction x scale over [] = (x, scale, [])"
| "leading_fraction x scale over (c # s) =
     (if \<not> is_digit c then (x, scale, c # s)
      else if over \<or> x > (2 ^ 63 - 1) div 10 \<or> x * 10 + digit_val c > 2 ^ 63
      then leading_fraction x scale True s
      else leading_fraction (x * 10 + digit_val c) (scale * 10) False s)"

definition duration_unit :: "string \<Rightarrow> int option" where
  "duration_unit u =
     (if u = ''ns'' then Some 1
      else if u = ''us'' \<or> u = [CHR 0xC2, CHR 0xB5, CHR ''s''] \<or> u = [CHR 0xCE, CHR 0xBC, CHR ''s''] then Some 1000
      else if u = ''ms'' then Some 1000000
      else if u = ''s'' then Some 1000000000
      else if u = ''m'' then Some 60000000000
      else if u = ''h'' then Some 3600000000000
      else None)"

definition number_char :: "char \<Rightarrow> bool" where
  "number_char c \<longleftrightarrow> c = CHR ''.'' \<or> is_digit c"

text \<open>One number and its unit: the nanoseconds and the rest of the text.\<close>

definition duration_item :: "(int \<Rightarrow> int \<Rightarrow> int \<Rightarrow> int) \<Rightarrow> string \<Rightarrow> (int \<times> string) option" where
  "duration_item frac s =
     (if s = [] \<or> \<not> number_char (hd s) then None
      else case leading_int 0 s of
          None \<Rightarrow> None
        | Some (v, s1) \<Rightarrow>
            (let pre = length s1 \<noteq> length s;
                 dot = s1 \<noteq> [] \<and> hd s1 = CHR ''.'';
                 (f, scale, s2) = (if dot then leading_fraction 0 1 False (tl s1) else (0, 1, s1));
                 post = dot \<and> length s2 \<noteq> length (tl s1);
                 u = takeWhile (\<lambda>c. \<not> number_char c) s2;
                 s3 = dropWhile (\<lambda>c. \<not> number_char c) s2
             in if \<not> pre \<and> \<not> post then None
                else if u = [] then None
                else case duration_unit u of
                    None \<Rightarrow> None
                  | Some un \<Rightarrow>
                      if v > 2 ^ 63 div un then None
                      else
                        let w = (if f > 0 then v * un + frac f un scale else v * un)
                        in if w > 2 ^ 63 then None else Some (w, s3)))"

lemma leading_int_length: "leading_int x s = Some (v, s') \<Longrightarrow> length s' \<le> length s"
  by (induction x s rule: leading_int.induct) (auto split: if_splits)

lemma leading_fraction_length: "leading_fraction x sc ov s = (f, sc', s') \<Longrightarrow> length s' \<le> length s"
  by (induction x sc ov s rule: leading_fraction.induct) (auto split: if_splits)

lemma duration_item_shorter: "duration_item frac s = Some (w, s') \<Longrightarrow> length s' < length s"
proof -
  assume item: "duration_item frac s = Some (w, s')"
  then obtain v s1 where s1: "leading_int 0 s = Some (v, s1)"
    by (auto simp: duration_item_def split: if_splits option.splits)
  obtain f scale s2 where s2: "(if s1 \<noteq> [] \<and> hd s1 = CHR ''.'' then leading_fraction 0 1 False (tl s1) else (0, 1, s1)) = (f, scale, s2)"
    by (metis prod_cases3)
  have le: "length s2 \<le> length s1"
    using s2 leading_fraction_length [of 0 1 False "tl s1" f scale s2] by (auto split: if_splits)
  have rest: "s' = dropWhile (\<lambda>c. \<not> number_char c) s2" "takeWhile (\<lambda>c. \<not> number_char c) s2 \<noteq> []"
    using item s1 s2 by (auto simp: duration_item_def Let_def split: if_splits option.splits)
  have "length s' < length s2"
    using rest by (cases s2) (auto simp: le_imp_less_Suc length_dropWhile_le split: if_splits)
  with le leading_int_length [OF s1] show ?thesis by simp
qed

text \<open>The sum is a \<open>uint64\<close>.\<close>

function duration_items :: "(int \<Rightarrow> int \<Rightarrow> int \<Rightarrow> int) \<Rightarrow> int \<Rightarrow> string \<Rightarrow> int option" where
  "duration_items frac d s =
     (if s = [] then Some d
      else case duration_item frac s of
          None \<Rightarrow> None
        | Some (w, s') \<Rightarrow>
            if (d + w) mod 2 ^ 64 > 2 ^ 63 then None else duration_items frac ((d + w) mod 2 ^ 64) s')"
  by pat_completeness auto
termination
  by (relation "measure (\<lambda>(frac, d, s). length s)") (auto dest: duration_item_shorter)

declare duration_items.simps [simp del]

definition parse_duration :: "(int \<Rightarrow> int \<Rightarrow> int \<Rightarrow> int) \<Rightarrow> string \<Rightarrow> goerr + int" where
  "parse_duration frac s =
     (let signed = s \<noteq> [] \<and> (hd s = CHR ''-'' \<or> hd s = CHR ''+'');
          neg = signed \<and> hd s = CHR ''-'';
          body = (if signed then tl s else s)
      in if body = ''0'' then Inr 0
         else if body = [] then Inl err_duration
         else case duration_items frac 0 body of
             None \<Rightarrow> Inl err_duration
           | Some d \<Rightarrow> if neg then Inr (- d) else if d > 2 ^ 63 - 1 then Inl err_duration else Inr d)"

section \<open>Printing\<close>

text \<open>The digits after the point, without trailing zeros, in front of what is printed already.\<close>

fun fmt_frac :: "nat \<Rightarrow> bool \<Rightarrow> int \<Rightarrow> string \<Rightarrow> string \<times> int" where
  "fmt_frac 0 printing v buf = ((if printing then CHR ''.'' # buf else buf), v)"
| "fmt_frac (Suc prec) printing v buf =
     (if printing \<or> v mod 10 \<noteq> 0
      then fmt_frac prec True (v div 10) (digit_char (v mod 10) # buf)
      else fmt_frac prec False (v div 10) buf)"

definition fmt_int :: "int \<Rightarrow> string" where
  "fmt_int v = (if v = 0 then ''0'' else itoa_loop v [])"

definition duration_abs_string :: "int \<Rightarrow> string" where
  "duration_abs_string u =
     (if u < 1000000000
      then if u = 0 then ''0s''
        else if u < 1000 then fmt_int u @ ''ns''
        else if u < 1000000 then (case fmt_frac 3 False u [CHR 0xC2, CHR 0xB5, CHR ''s''] of (buf, v) \<Rightarrow> fmt_int v @ buf)
        else (case fmt_frac 6 False u ''ms'' of (buf, v) \<Rightarrow> fmt_int v @ buf)
      else case fmt_frac 9 False u ''s'' of
          (buf, secs) \<Rightarrow>
            let b1 = fmt_int (secs mod 60) @ buf; m = secs div 60
            in if m > 0
               then let b2 = fmt_int (m mod 60) @ ''m'' @ b1; h = m div 60
                 in if h > 0 then fmt_int h @ ''h'' @ b2 else b2
               else b1)"

definition duration_string :: "int \<Rightarrow> string" where
  "duration_string d = (if d < 0 then CHR ''-'' # duration_abs_string (- d) else duration_abs_string d)"

section \<open>Facts\<close>

lemma leading_int_digits:
  "0 \<le> i \<Longrightarrow> i \<le> 2 ^ 63 \<Longrightarrow> leading_int 0 (itoa_loop i [] @ r) = leading_int i r"
proof (induction "nat i" arbitrary: i r rule: less_induct)
  case less
  show ?case
  proof (cases "i = 0")
    case True
    then show ?thesis by (simp add: itoa_loop_nonpos)
  next
    case False
    with less.prems have pos: "i > 0" by simp
    have "leading_int 0 (itoa_loop (i div 10) [] @ digit_char (i mod 10) # r) =
        leading_int (i div 10) (digit_char (i mod 10) # r)"
      using less pos by simp
    moreover have "i div 10 \<le> 2 ^ 63 div 10" using less.prems by (simp add: zdiv_mono1)
    moreover have "i div 10 * 10 + i mod 10 = i" by simp
    ultimately show ?thesis using less.prems pos by (simp add: itoa_loop_step)
  qed
qed

lemma leading_fmt_int:
  assumes "0 \<le> v" and "v \<le> 2 ^ 63" and "\<not> is_digit c"
  shows "leading_int 0 (fmt_int v @ c # r) = Some (v, c # r)"
proof (cases "v = 0")
  case True
  have "is_digit (CHR ''0'')" "digit_val (CHR ''0'') = 0" by code_simp+
  with True assms show ?thesis by (simp add: fmt_int_def)
next
  case False
  with assms show ?thesis by (simp add: fmt_int_def leading_int_digits)
qed

lemma fmt_int_hd: "0 \<le> v \<Longrightarrow> fmt_int v \<noteq> [] \<and> number_char (hd (fmt_int v))"
proof (cases "v = 0")
  case True
  have "number_char (CHR ''0'')" by code_simp
  with True show ?thesis by (simp add: fmt_int_def)
next
  case False
  assume "0 \<le> v"
  with False show ?thesis using itoa_loop_pos [of v] hd_itoa_loop [of v] by (simp add: fmt_int_def number_char_def)
qed

lemma duration_item_whole:
  assumes "0 \<le> v" and "v \<le> 2 ^ 63 div un" and "duration_unit [c] = Some un" and "0 < un"
    and "\<not> number_char c" and "r = [] \<or> number_char (hd r)"
  shows "duration_item frac (fmt_int v @ c # r) = Some (v * un, r)"
proof -
  have "v * un \<le> 2 ^ 63 div un * un" using assms(2,4) by (simp add: mult_right_mono)
  also have "\<dots> \<le> 2 ^ 63" using div_mult_mod_eq [of "2 ^ 63" un] pos_mod_sign [OF assms(4), of "2 ^ 63"] by linarith
  finally have le: "v * un \<le> 2 ^ 63" .
  have "v \<le> v * un" using assms(1,4) mult_left_mono [of 1 un v] by simp
  with le have "v \<le> 2 ^ 63" by simp
  then have lead: "leading_int 0 (fmt_int v @ c # r) = Some (v, c # r)"
    using assms(1,5) by (intro leading_fmt_int) (auto simp: number_char_def)
  have stop: "takeWhile (\<lambda>c. \<not> number_char c) (c # r) = [c]" "dropWhile (\<lambda>c. \<not> number_char c) (c # r) = r"
    using assms(5,6) by (cases r; simp)+
  have "c \<noteq> CHR ''.''" using assms(5) by (auto simp: number_char_def)
  with lead stop assms(2,3) le fmt_int_hd [OF assms(1)] show ?thesis
    by (simp add: duration_item_def Let_def)
qed

lemma duration_letters:
  "duration_unit ''s'' = Some 1000000000" "duration_unit ''m'' = Some 60000000000" "duration_unit ''h'' = Some 3600000000000"
  "\<not> number_char (CHR ''s'')" "\<not> number_char (CHR ''m'')" "\<not> number_char (CHR ''h'')"
  by code_simp+

lemma fmt_frac_whole: "fmt_frac k False (n * 10 ^ k) buf = (buf, n)"
proof (induction k)
  case (Suc k)
  have "n * 10 ^ Suc k = n * 10 ^ k * 10" by simp
  then have "(n * 10 ^ Suc k) mod 10 = 0" "n * 10 ^ Suc k div 10 = n * 10 ^ k" by (simp_all only: mod_mult_self2_is_0 nonzero_mult_div_cancel_right)
  with Suc show ?case by simp
qed simp

lemma duration_items_whole:
  assumes "0 \<le> v" and "duration_unit [c] = Some un" and "0 < un" and "\<not> number_char c"
    and "r = [] \<or> number_char (hd r)" and "0 \<le> d" and "d + v * un \<le> 2 ^ 63"
  shows "duration_items frac d (fmt_int v @ c # r) = duration_items frac (d + v * un) r"
proof -
  have "v * un \<le> 2 ^ 63" using assms(6,7) by simp
  then have "v \<le> 2 ^ 63 div un"
    using assms(3) zdiv_mono1 [of "v * un" "2 ^ 63" un] by simp
  then have item: "duration_item frac (fmt_int v @ c # r) = Some (v * un, r)"
    using assms(1-5) by (intro duration_item_whole)
  have "0 \<le> v * un" using assms(1,3) by simp
  with assms(6,7) have "(d + v * un) mod 2 ^ 64 = d + v * un" by (intro mod_pos_pos_trivial) simp_all
  with item assms(7) show ?thesis by (simp add: duration_items.simps [of frac d])
qed

lemma duration_items_done: "duration_items frac d [] = Some d"
  by (simp add: duration_items.simps)

text \<open>Hours, minutes and seconds, in front of one another.\<close>

lemma duration_hms:
  assumes "0 < n" and "n * 1000000000 < 2 ^ 63"
  shows "duration_items frac 0 (duration_abs_string (n * 1000000000)) = Some (n * 1000000000)"
proof -
  define s where "s = n mod 60"
  define m where "m = n div 60"
  define h where "h = n div 60 div 60"
  have n: "n = m * 60 + s" "m = h * 60 + m mod 60" "0 \<le> s" "s < 60" "0 \<le> m" "0 \<le> h" "m mod 60 \<ge> 0"
    using assms(1) by (simp_all add: s_def m_def h_def pos_imp_zdiv_nonneg_iff)
  have frac: "fmt_frac 9 False (n * 1000000000) ''s'' = (''s'', n)"
    using fmt_frac_whole [of 9 n "''s''"] by simp
  have big: "\<not> n * 1000000000 < 1000000000" using assms(1) by simp
  have printed: "duration_abs_string (n * 1000000000) =
      (if m > 0 then if h > 0 then fmt_int h @ CHR ''h'' # fmt_int (m mod 60) @ CHR ''m'' # fmt_int s @ CHR ''s'' # []
         else fmt_int (m mod 60) @ CHR ''m'' # fmt_int s @ CHR ''s'' # []
       else fmt_int s @ CHR ''s'' # [])"
    using big frac by (simp add: duration_abs_string_def Let_def s_def m_def h_def)
  have hd: "number_char (hd (fmt_int v @ r)) = True" if "0 \<le> v" for v r
    using fmt_int_hd [OF that] by simp
  note step = duration_items_whole [where frac = frac]
  have secs: "duration_items frac d (fmt_int s @ CHR ''s'' # []) = Some (d + s * 1000000000)"
    if "0 \<le> d" "d + s * 1000000000 \<le> 2 ^ 63" for d
    using step [of s "CHR ''s''" 1000000000 "[]" d] n that by (simp add: duration_letters duration_items_done)
  have mins: "duration_items frac d (fmt_int (m mod 60) @ CHR ''m'' # fmt_int s @ CHR ''s'' # []) =
      Some (d + (m mod 60) * 60000000000 + s * 1000000000)"
    if "0 \<le> d" "d + (m mod 60) * 60000000000 + s * 1000000000 \<le> 2 ^ 63" for d
    using step [of "m mod 60" "CHR ''m''" 60000000000 "fmt_int s @ CHR ''s'' # []" d] secs [of "d + (m mod 60) * 60000000000"]
      n that hd [of s] by (simp add: duration_letters)
  have hours: "duration_items frac 0 (fmt_int h @ CHR ''h'' # fmt_int (m mod 60) @ CHR ''m'' # fmt_int s @ CHR ''s'' # []) =
      Some (h * 3600000000000 + (m mod 60) * 60000000000 + s * 1000000000)"
    using step [of h "CHR ''h''" 3600000000000 "fmt_int (m mod 60) @ CHR ''m'' # fmt_int s @ CHR ''s'' # []" 0]
      mins [of "h * 3600000000000"] n hd [of "m mod 60"] assms(2) by (simp add: duration_letters)
  show ?thesis
  proof (cases "m > 0")
    case False
    then show ?thesis using printed secs [of 0] n assms(2) by simp
  next
    case m: True
    show ?thesis
    proof (cases "h > 0")
      case True
      then show ?thesis using printed hours n m by simp
    next
      case False
      then show ?thesis using printed mins [of 0] n m assms(2) by simp
    qed
  qed
qed

lemma duration_string_roundtrip:
  assumes "0 \<le> n" and "n * 1000000000 < 2 ^ 63"
  shows "parse_duration frac (duration_string (n * 1000000000)) = Inr (n * 1000000000)"
proof (cases "n = 0")
  case True
  have "duration_items frac 0 (fmt_int 0 @ CHR ''s'' # []) = Some 0"
    using duration_items_whole [of 0 "CHR ''s''" 1000000000 "[]" 0 frac] by (simp add: duration_letters duration_items_done)
  with True show ?thesis by (simp add: parse_duration_def duration_string_def duration_abs_string_def fmt_int_def)
next
  case False
  with assms have n: "0 < n" by simp
  let ?t = "duration_abs_string (n * 1000000000)"
  have items: "duration_items frac 0 ?t = Some (n * 1000000000)" by (rule duration_hms [OF n assms(2)])
  have zero: "leading_int 0 ''0'' = Some (0, [])" by code_simp
  have "duration_items frac 0 ''0'' = None"
    by (simp add: duration_items.simps [of frac 0 "''0''"] duration_item_def zero)
  with items n have "?t \<noteq> []" "?t \<noteq> ''0''" by (auto simp: duration_items_done)
  moreover have "hd ?t \<noteq> CHR ''-'' \<and> hd ?t \<noteq> CHR ''+''"
  proof -
    have "number_char (hd ?t)"
      using items n \<open>?t \<noteq> []\<close> by (auto simp: duration_items.simps [of frac 0] duration_item_def split: if_splits option.splits)
    moreover have "\<not> number_char (CHR ''-'')" "\<not> number_char (CHR ''+'')" by code_simp+
    ultimately show ?thesis by metis
  qed
  ultimately show ?thesis
    using items n assms(2) by (simp add: parse_duration_def duration_string_def Let_def)
qed

end
