(* ===== verification/Bootstrap.thy ===== *)
theory Bootstrap
  imports GoDuration RateLimit
begin

text \<open>
  The common start of the two services: \<open>internal/config/config.go\<close>, \<open>internal/db/pg.go\<close> and
  \<open>internal/bootstrap/bootstrap.go\<close>. The \<open>viper\<close> library, which looks settings up in the
  environment and in the registered defaults, and what the Postgres pool and Redis answer are
  parameters; open pools and clients are counted, so that what an error leaves open is visible.
  Setting the log level is not modelled.
\<close>

section \<open>Configuration\<close>

datatype viper_value = VString string | VInt int

type_synonym viper_defaults = "(string \<times> viper_value) list"

record viper =
  vi_get_string :: "viper_defaults \<Rightarrow> string \<Rightarrow> string"
  vi_get_int :: "viper_defaults \<Rightarrow> string \<Rightarrow> int"

record gateway_config =
  gc_http_addr :: string
  gc_postgres_dsn :: string
  gc_redis_addr :: string
  gc_redis_password :: string
  gc_redis_db :: int
  gc_master_key :: string
  gc_sync_interval :: int
  gc_sync_batch_size :: int
  gc_api_rate_limit :: int
  gc_log_level :: string

definition config_defaults :: viper_defaults where
  "config_defaults =
     [(''GATEWAY_HTTP_ADDR'', VString '':8080''),
      (''REDIS_PASSWORD'', VString []),
      (''REDIS_DB'', VInt 0),
      (''SYNC_INTERVAL'', VString ''5m''),
      (''SYNC_BATCH_SIZE'', VInt 500),
      (''API_RATE_LIMIT_PER_MIN'', VInt 300),
      (''LOG_LEVEL'', VString ''info'')]"

definition required_settings :: "string list" where
  "required_settings = [''POSTGRES_DSN'', ''REDIS_ADDR'', ''GATEWAY_MASTER_KEY'']"

text \<open>\<open>frac\<close> is the floating-point step of \<open>time.ParseDuration\<close>.\<close>

definition config_load :: "viper \<Rightarrow> (int \<Rightarrow> int \<Rightarrow> int \<Rightarrow> int) \<Rightarrow> goerr + gateway_config" where
  "config_load vi frac =
     (let str = vi_get_string vi config_defaults; num = vi_get_int vi config_defaults
      in case find (\<lambda>k. str k = []) required_settings of
           Some k \<Rightarrow> Inl (ErrNew (''required env var missing or empty: '' @ k))
         | None \<Rightarrow>
             (case parse_duration frac (str ''SYNC_INTERVAL'') of
                Inl e \<Rightarrow> Inl (ErrWrap ''invalid SYNC_INTERVAL'' e)
              | Inr d \<Rightarrow> Inr
                  \<lparr>gc_http_addr = str ''GATEWAY_HTTP_ADDR'', gc_postgres_dsn = str ''POSTGRES_DSN'',
                   gc_redis_addr = str ''REDIS_ADDR'', gc_redis_password = str ''REDIS_PASSWORD'',
                   gc_redis_db = num ''REDIS_DB'', gc_master_key = str ''GATEWAY_MASTER_KEY'',
                   gc_sync_interval = d, gc_sync_batch_size = num ''SYNC_BATCH_SIZE'',
                   gc_api_rate_limit = num ''API_RATE_LIMIT_PER_MIN'', gc_log_level = str ''LOG_LEVEL''\<rparr>))"

section \<open>The Postgres pool\<close>

record pool_config =
  pc_dsn :: string
  pc_max_conns :: int
  pc_min_conns :: int
  pc_max_lifetime :: int
  pc_max_idle :: int

record pool_env =
  po_parse :: "string \<Rightarrow> goerr option"
  po_new :: "pool_config \<Rightarrow> goerr option"
  po_ping :: "pool_config \<Rightarrow> goerr option"

definition pool_config_of :: "string \<Rightarrow> pool_config" where
  "pool_config_of dsn =
     \<lparr>pc_dsn = dsn, pc_max_conns = 10, pc_min_conns = 1, pc_max_lifetime = 60 * minute, pc_max_idle = 30 * minute\<rparr>"

definition new_pool :: "pool_env \<Rightarrow> string \<Rightarrow> int \<Rightarrow> (goerr + pool_config) \<times> int" where
  "new_pool env dsn pools =
     (case po_parse env dsn of
        Some e \<Rightarrow> (Inl (ErrWrap ''parse pg dsn'' e), pools)
      | None \<Rightarrow>
          (let cfg = pool_config_of dsn
           in case po_new env cfg of
                Some e \<Rightarrow> (Inl (ErrWrap ''create pg pool'' e), pools)
              | None \<Rightarrow>
                  (let opened = pools + 1
                   in case po_ping env cfg of
                        Some e \<Rightarrow> (Inl (ErrWrap ''ping pg'' e), opened - 1)
                      | None \<Rightarrow> (Inr cfg, opened))))"

section \<open>Bootstrap\<close>

text \<open>Open pools and Redis clients.\<close>

record resources =
  rs_pools :: int
  rs_redis :: int

record deps =
  dp_cfg :: gateway_config
  dp_pool :: "pool_config option"
  dp_redis :: bool

definition deps_close :: "deps option \<Rightarrow> resources \<Rightarrow> resources" where
  "deps_close d rs =
     (case d of
        None \<Rightarrow> rs
      | Some x \<Rightarrow>
          (let rs1 = (case dp_pool x of None \<Rightarrow> rs | Some p \<Rightarrow> rs\<lparr>rs_pools := rs_pools rs - 1\<rparr>)
           in if dp_redis x then rs1\<lparr>rs_redis := rs_redis rs1 - 1\<rparr> else rs1))"

record boot_env =
  be_viper :: viper
  be_frac :: "int \<Rightarrow> int \<Rightarrow> int \<Rightarrow> int"
  be_pool :: pool_env
  be_redis_ping :: "string \<Rightarrow> string \<Rightarrow> int \<Rightarrow> goerr option"

definition bootstrap_run :: "boot_env \<Rightarrow> resources \<Rightarrow> (goerr + deps) \<times> resources" where
  "bootstrap_run env rs =
     (case config_load (be_viper env) (be_frac env) of
        Inl e \<Rightarrow> (Inl (ErrWrap ''config'' e), rs)
      | Inr cfg \<Rightarrow>
          (case new_pool (be_pool env) (gc_postgres_dsn cfg) (rs_pools rs) of
             (Inl e, pools) \<Rightarrow> (Inl (ErrWrap ''postgres'' e), rs\<lparr>rs_pools := pools\<rparr>)
           | (Inr pool, pools) \<Rightarrow>
               (case redis_new_client (be_redis_ping env (gc_redis_addr cfg) (gc_redis_password cfg) (gc_redis_db cfg))
                       (gc_redis_addr cfg) (rs_redis rs) of
                  (Some e, clients) \<Rightarrow>
                    (Inl (ErrWrap ''redis'' e), rs\<lparr>rs_pools := pools - 1, rs_redis := clients\<rparr>)
                | (None, clients) \<Rightarrow>
                    (Inr \<lparr>dp_cfg = cfg, dp_pool = Some pool, dp_redis = True\<rparr>,
                     rs\<lparr>rs_pools := pools, rs_redis := clients\<rparr>))))"

text \<open>\<open>MustRun\<close>: an error ends the process.\<close>

definition must_run :: "boot_env \<Rightarrow> resources \<Rightarrow> (goerr + deps) \<times> resources" where
  "must_run env rs =
     (case bootstrap_run env rs of
        (Inl e, rs') \<Rightarrow> (Inl (ErrWrap ''bootstrap'' e), rs')
      | (Inr d, rs') \<Rightarrow> (Inr d, rs'))"

section \<open>Facts\<close>

lemma bootstrap_cases:
  "case bootstrap_run env rs of
     (Inr d, rs') \<Rightarrow> config_load (be_viper env) (be_frac env) = Inr (dp_cfg d)
       \<and> dp_pool d = Some (pool_config_of (gc_postgres_dsn (dp_cfg d))) \<and> dp_redis d
       \<and> rs' = \<lparr>rs_pools = rs_pools rs + 1, rs_redis = rs_redis rs + 1\<rparr>
   | (Inl e, rs') \<Rightarrow> rs' = rs \<or>
       (\<exists>c. e = ErrWrap ''redis'' (ErrWrap ''ping redis'' c)) \<and> rs' = rs\<lparr>rs_redis := rs_redis rs + 1\<rparr>"
  by (auto simp: bootstrap_run_def new_pool_def redis_new_client_def Let_def
      split: sum.split prod.split option.split)

lemma deps_close_opened:
  "dp_pool d = Some p \<Longrightarrow> dp_redis d \<Longrightarrow>
   deps_close (Some d) \<lparr>rs_pools = n + 1, rs_redis = m + 1\<rparr> = \<lparr>rs_pools = n, rs_redis = m\<rparr>"
  by (simp add: deps_close_def)

text \<open>The viper library as documented: a non-empty variable of the environment, else the default.\<close>

definition viper_reads :: "viper \<Rightarrow> (string \<Rightarrow> string) \<Rightarrow> (string \<Rightarrow> int) \<Rightarrow> bool" where
  "viper_reads vi getenv to_int \<longleftrightarrow>
     (\<forall>d k. vi_get_string vi d k =
        (if getenv k \<noteq> [] then getenv k else case map_of d k of Some (VString s) \<Rightarrow> s | _ \<Rightarrow> []))
     \<and> (\<forall>d k. vi_get_int vi d k =
        (if getenv k \<noteq> [] then to_int (getenv k) else case map_of d k of Some (VInt i) \<Rightarrow> i | _ \<Rightarrow> 0))"

lemma default_settings:
  "map_of config_defaults ''POSTGRES_DSN'' = None" "map_of config_defaults ''REDIS_ADDR'' = None"
  "map_of config_defaults ''GATEWAY_MASTER_KEY'' = None"
  "map_of config_defaults ''SYNC_INTERVAL'' = Some (VString ''5m'')"
  "map_of config_defaults ''SYNC_BATCH_SIZE'' = Some (VInt 500)"
  "map_of config_defaults ''API_RATE_LIMIT_PER_MIN'' = Some (VInt 300)"
  "map_of config_defaults ''REDIS_DB'' = Some (VInt 0)"
  by (simp_all add: config_defaults_def)

section \<open>Properties\<close>

text \<open>
  Starting leaks no pool, and \<open>Close\<close> undoes it: after a successful start exactly one
  pool and one Redis client are open and closing the result leaves what was open before; after
  an error no pool is left open, and nothing else either except that a failed Redis ping leaves
  its client open.
\<close>

theorem bootstrap_resources:
  "case bootstrap_run env rs of
     (Inr d, rs') \<Rightarrow> rs' = \<lparr>rs_pools = rs_pools rs + 1, rs_redis = rs_redis rs + 1\<rparr>
       \<and> deps_close (Some d) rs' = rs
   | (Inl e, rs') \<Rightarrow> rs_pools rs' = rs_pools rs
       \<and> rs_redis rs' = rs_redis rs + (if rs' = rs then 0 else 1)
       \<and> (rs' = rs \<or> (\<exists>c. e = ErrWrap ''redis'' (ErrWrap ''ping redis'' c)))"
proof (cases "bootstrap_run env rs")
  case (Pair r rs')
  have new: "rs\<lparr>rs_redis := rs_redis rs + 1\<rparr> \<noteq> rs" by (cases rs) simp
  show ?thesis
  proof (cases r)
    case (Inl e)
    then show ?thesis using bootstrap_cases [where env = env and rs = rs] Pair new by auto
  next
    case (Inr d)
    then show ?thesis
      using bootstrap_cases [where env = env and rs = rs] Pair
        deps_close_opened [of d "pool_config_of (gc_postgres_dsn (dp_cfg d))" "rs_pools rs" "rs_redis rs"]
      by simp
  qed
qed

text \<open>
  A service starts exactly when its configuration is complete, and then runs under it:
  with the documented \<open>viper\<close>, \<open>Load\<close> fails for a missing \<open>POSTGRES_DSN\<close>, \<open>REDIS_ADDR\<close> or
  \<open>GATEWAY_MASTER_KEY\<close>, naming the first of them, and for a \<open>SYNC_INTERVAL\<close> that is no duration,
  and otherwise every setting is the environment's or its default: five minutes, 500 rows per
  batch, 300 requests per minute.
\<close>

theorem config_load_settings:
  assumes "viper_reads vi getenv to_int"
  shows "let interval = (if getenv ''SYNC_INTERVAL'' \<noteq> [] then getenv ''SYNC_INTERVAL'' else ''5m'');
             num = (\<lambda>k d. if getenv k \<noteq> [] then to_int (getenv k) else d)
    in case config_load vi frac of
      Inl e \<Rightarrow> (\<exists>k. find (\<lambda>k. getenv k = []) required_settings = Some k
            \<and> e = ErrNew (''required env var missing or empty: '' @ k))
          \<or> (\<exists>c. parse_duration frac interval = Inl c \<and> e = ErrWrap ''invalid SYNC_INTERVAL'' c)
    | Inr c \<Rightarrow> list_all (\<lambda>k. getenv k \<noteq> []) required_settings
        \<and> gc_master_key c = getenv ''GATEWAY_MASTER_KEY'' \<and> gc_postgres_dsn c = getenv ''POSTGRES_DSN''
        \<and> parse_duration frac interval = Inr (gc_sync_interval c)
        \<and> gc_sync_batch_size c = num ''SYNC_BATCH_SIZE'' 500
        \<and> gc_api_rate_limit c = num ''API_RATE_LIMIT_PER_MIN'' 300
        \<and> gc_redis_db c = num ''REDIS_DB'' 0"
proof -
  have str: "vi_get_string vi config_defaults k = (if getenv k \<noteq> [] then getenv k
      else case map_of config_defaults k of Some (VString s) \<Rightarrow> s | _ \<Rightarrow> [])" for k
    using assms by (simp add: viper_reads_def)
  have num: "vi_get_int vi config_defaults k = (if getenv k \<noteq> [] then to_int (getenv k)
      else case map_of config_defaults k of Some (VInt i) \<Rightarrow> i | _ \<Rightarrow> 0)" for k
    using assms by (simp add: viper_reads_def)
  have req: "vi_get_string vi config_defaults k = getenv k" if "k \<in> set required_settings" for k
    using that by (auto simp: str required_settings_def default_settings)
  have names: "''POSTGRES_DSN'' \<in> set required_settings" "''REDIS_ADDR'' \<in> set required_settings"
    "''GATEWAY_MASTER_KEY'' \<in> set required_settings"
    by (simp_all add: required_settings_def)
  have first: "find (\<lambda>k. vi_get_string vi config_defaults k = []) required_settings =
      find (\<lambda>k. getenv k = []) required_settings"
    by (rule find_cong [OF refl]) (simp add: req)
  have vals: "vi_get_string vi config_defaults ''SYNC_INTERVAL'' =
      (if getenv ''SYNC_INTERVAL'' \<noteq> [] then getenv ''SYNC_INTERVAL'' else ''5m'')"
    "vi_get_int vi config_defaults ''SYNC_BATCH_SIZE'' = (if getenv ''SYNC_BATCH_SIZE'' \<noteq> [] then to_int (getenv ''SYNC_BATCH_SIZE'') else 500)"
    "vi_get_int vi config_defaults ''API_RATE_LIMIT_PER_MIN'' =
      (if getenv ''API_RATE_LIMIT_PER_MIN'' \<noteq> [] then to_int (getenv ''API_RATE_LIMIT_PER_MIN'') else 300)"
    "vi_get_int vi config_defaults ''REDIS_DB'' = (if getenv ''REDIS_DB'' \<noteq> [] then to_int (getenv ''REDIS_DB'') else 0)"
    by (simp_all add: str num default_settings)
  note eqs = config_load_def Let_def first vals req [OF names(1)] req [OF names(2)] req [OF names(3)]
  show ?thesis
  proof (cases "find (\<lambda>k. getenv k = []) required_settings")
    case (Some k)
    then show ?thesis unfolding eqs by simp
  next
    case None
    then have all: "list_all (\<lambda>k. getenv k \<noteq> []) required_settings" by (simp add: find_None_iff list_all_iff)
    show ?thesis
    proof (cases "parse_duration frac (if getenv ''SYNC_INTERVAL'' \<noteq> [] then getenv ''SYNC_INTERVAL'' else ''5m'')")
      case (Inl c)
      then show ?thesis unfolding eqs None by simp
    next
      case (Inr d)
      then show ?thesis unfolding eqs None using all by simp
    qed
  qed
qed

definition viper_ref :: "(string \<times> string) list \<Rightarrow> viper" where
  "viper_ref env =
     \<lparr>vi_get_string = (\<lambda>d k. case map_of env k of Some v \<Rightarrow> v
        | None \<Rightarrow> (case map_of d k of Some (VString s) \<Rightarrow> s | _ \<Rightarrow> [])),
      vi_get_int = (\<lambda>d k. case map_of env k of Some v \<Rightarrow> fst (atoi v)
        | None \<Rightarrow> (case map_of d k of Some (VInt i) \<Rightarrow> i | _ \<Rightarrow> 0))\<rparr>"

lemma config_load_settings_witness:
  "case config_load (viper_ref [(''POSTGRES_DSN'', ''pg''), (''REDIS_ADDR'', ''r''), (''GATEWAY_MASTER_KEY'', ''k''),
      (''SYNC_BATCH_SIZE'', ''20'')]) (\<lambda>f u s. f * u div s) of
     Inl e \<Rightarrow> False | Inr c \<Rightarrow> gc_sync_interval c = 300000000000 \<and> gc_sync_batch_size c = 20 \<and> gc_api_rate_limit c = 300"
proof -
  let ?env = "[(''POSTGRES_DSN'', ''pg''), (''REDIS_ADDR'', ''r''), (''GATEWAY_MASTER_KEY'', ''k''), (''SYNC_BATCH_SIZE'', ''20'')]"
  let ?get = "\<lambda>k. case map_of ?env k of None \<Rightarrow> [] | Some v \<Rightarrow> v"
  have reads: "viper_reads (viper_ref ?env) ?get (\<lambda>s. fst (atoi s))"
    by (auto simp: viper_reads_def viper_ref_def)
  have "parse_duration (\<lambda>f u s. f * u div s) ''5m'' = Inr 300000000000" "fst (atoi ''20'') = 20" by code_simp+
  then show ?thesis
    using config_load_settings [OF reads, of "\<lambda>f u s. f * u div s"]
    by (auto simp: Let_def required_settings_def split: sum.splits)
qed

end
