(* ===== verification/CmdSetup.thy ===== *)
theory CmdSetup
  imports Setup Sync
begin

text \<open>
  The setup command: \<open>cmd/setup/main.go\<close>, \<open>apikey_insert.go\<close>, \<open>migrate.go\<close> and \<open>sync.go\<close>. The command
  runs the configuration flow, prints the summary with the key, and, given a database, opens a
  pool, migrates, inserts the key and runs a first synchronisation. Its world is the file
  system, the database, the open handles and what was printed. \<open>log.Fatalf\<close> ends the process
  without running deferred calls, so a fatal end is a result of its own. The migration library
  is a parameter: an error or none, on a schema whose tables it creates empty when they are
  missing and otherwise leaves as they are.
\<close>

section \<open>The steps\<close>

text \<open>The constants of the command.\<close>

abbreviation default_config_path :: string where
  "default_config_path \<equiv> ''/etc/gateway/config.yaml''"

abbreviation default_dotenv_path :: string where
  "default_dotenv_path \<equiv> ''/etc/gateway/.env''"

abbreviation default_migrations :: string where
  "default_migrations \<equiv> ''internal/db/migrations''"

abbreviation default_api_key_entry :: string where
  "default_api_key_entry \<equiv> ''default''"

definition env_or :: "(string \<Rightarrow> string) \<Rightarrow> string \<Rightarrow> string \<Rightarrow> string" where
  "env_or getenv k fallback = (let v = getenv k in if v \<noteq> [] then v else fallback)"

record pg_open_env =
  pg_new :: "string \<Rightarrow> goerr option"
  pg_ping :: "string \<Rightarrow> goerr option"

definition open_pool :: "pg_open_env \<Rightarrow> string \<Rightarrow> int \<Rightarrow> goerr option \<times> int" where
  "open_pool env dsn pools =
     (case pg_new env dsn of
        Some e \<Rightarrow> (Some (ErrWrap ''open pg'' e), pools)
      | None \<Rightarrow>
          (let opened = pools + 1
           in case pg_ping env dsn of
                Some e \<Rightarrow> (Some (ErrWrap ''ping pg'' e), opened - 1)
              | None \<Rightarrow> (None, opened)))"

record migrate_env =
  mg_new :: "string \<Rightarrow> string \<Rightarrow> goerr option"
  mg_up :: "goerr option"

abbreviation err_no_change :: goerr where
  "err_no_change \<equiv> ErrSentinel ''no change''"

definition run_migrations :: "migrate_env \<Rightarrow> string \<Rightarrow> string \<Rightarrow> goerr option" where
  "run_migrations env dsn dir =
     (if dir = [] then Some (ErrNew ''migrations dir is empty'')
      else case mg_new env (''file://'' @ dir) dsn of
          Some e \<Rightarrow> Some (ErrWrap ''new migrator'' e)
        | None \<Rightarrow>
            (case mg_up env of
               None \<Rightarrow> None
             | Some e \<Rightarrow> if errors_is e ''no change'' then None else Some (ErrWrap ''apply migrations'' e)))"

definition api_key_row_entry :: "store_config option \<Rightarrow> string \<Rightarrow> string \<Rightarrow> key_entry" where
  "api_key_row_entry cfg plaintext fallback_id =
     (let first = (case cfg of None \<Rightarrow> None | Some c \<Rightarrow> (case ac_keys (cfg_api c) of [] \<Rightarrow> None | k # ks \<Rightarrow> Some k));
          key_id = (case first of None \<Rightarrow> fallback_id | Some k \<Rightarrow> if ke_id k \<noteq> [] then ke_id k else fallback_id);
          desc = (case first of None \<Rightarrow> ''generated by setup''
            | Some k \<Rightarrow> if ke_description k \<noteq> [] then ke_description k else ''generated by setup'')
      in \<lparr>en_id = key_id, en_hash = hash_api_key plaintext, en_description = desc, en_created_at = 0,
          en_last_used_at = None, en_revoked = False\<rparr>)"

text \<open>
  \<open>runInitialSync\<close>: the source behind the client is the table \<open>src\<close> of the server \<open>my\<close>; \<open>env\<close> gives
  the faults of the pass. The last component counts open source handles.
\<close>

definition initial_sync_env :: "sync_env \<Rightarrow> myenv \<Rightarrow> my_row list \<Rightarrow> vps_client \<Rightarrow> sync_env" where
  "initial_sync_env env my src c = env\<lparr>se_fetch := fetch_karyawan_updated_since my c src\<rparr>"

definition run_initial_sync ::
  "format_dsn \<Rightarrow> mysql_dial \<Rightarrow> sync_env \<Rightarrow> myenv \<Rightarrow> my_row list \<Rightarrow> string \<Rightarrow> store_config option \<Rightarrow> string
   \<Rightarrow> syncdb \<Rightarrow> int \<Rightarrow> (goerr + int) \<times> syncdb \<times> int" where
  "run_initial_sync fmt dial env my src run_id cfg master_b64 db handles =
     (case cfg of
        None \<Rightarrow> (Inl (ErrNew ''nil store config''), db, handles)
      | Some c \<Rightarrow>
          (let batch = (if sc_batch_size (cfg_sync c) \<le> 0 then 500 else sc_batch_size (cfg_sync c))
           in case new_client_from_store_config fmt dial (Some (cfg_vps c)) master_b64 batch handles of
                (Inl e, h) \<Rightarrow> (Inl (ErrWrap ''vps mysql'' e), db, h)
              | (Inr client, h) \<Rightarrow>
                  (case new_syncer batch client of
                     (s, client') \<Rightarrow>
                       (case sync_karyawan (initial_sync_env env my src client') s run_id db of
                          ((n, Some e), db') \<Rightarrow> (Inl (ErrWrap ''sync'' e), db', h - 1)
                        | ((n, None), db') \<Rightarrow> (Inr n, db', h - 1)))))"

section \<open>main\<close>

record setup_env =
  su_getenv :: "string \<Rightarrow> string"
  su_flow :: flow_env
  su_survey :: survey_ask
  su_pool :: pg_open_env
  su_migrate :: migrate_env
  su_keys :: pgenv
  su_now :: micros
  su_sync :: sync_env
  su_my :: myenv
  su_source :: "my_row list"
  su_run_id :: string
  su_abs :: "string \<Rightarrow> goerr + string"

record setup_world =
  sw_fs :: fs
  sw_keys :: "key_row list"
  sw_db :: syncdb
  sw_pools :: int
  sw_sources :: int
  sw_out :: "string list"

datatype setup_end = SetupReturns | SetupFatal goerr

definition say :: "string list \<Rightarrow> setup_world \<Rightarrow> setup_world" where
  "say ls w = w\<lparr>sw_out := sw_out w @ ls\<rparr>"

text \<open>The prompter of the flow: the environment when \<open>SETUP_HOST\<close> is set, else the survey.\<close>

definition setup_flow :: "setup_env \<Rightarrow> flow_env" where
  "setup_flow env =
     (su_flow env)\<lparr>fe_prompt :=
       (if su_getenv env ''SETUP_HOST'' \<noteq> [] then env_prompter (su_getenv env)
        else survey_prompter (su_survey env))\<rparr>"

definition setup_summary :: "store_config \<Rightarrow> string \<Rightarrow> string \<Rightarrow> string \<Rightarrow> string \<Rightarrow> string list" where
  "setup_summary cfg cfg_path env_path plain master_b64 =
     [[], ''--- Setup summary ---'',
      ''VPS host:         '' @ vps_host (cfg_vps cfg),
      ''VPS database:     '' @ vps_database (cfg_vps cfg),
      ''Config written:   '' @ cfg_path,
      ''Env written:      '' @ env_path,
      ''Master key:       '' @ master_b64,
      [], ''API key (save this, shown once):'', ''   '' @ plain, []]"

text \<open>The part behind \<open>POSTGRES_DSN\<close>.\<close>

definition setup_database ::
  "setup_env \<Rightarrow> string \<Rightarrow> store_config \<Rightarrow> string \<Rightarrow> string \<Rightarrow> setup_world \<Rightarrow> setup_end \<times> setup_world" where
  "setup_database env cfg_path cfg plain master_b64 w =
     (let dsn = su_getenv env ''POSTGRES_DSN'';
          mig_dir = env_or (su_getenv env) ''GATEWAY_MIGRATIONS_DIR'' default_migrations
      in case open_pool (su_pool env) dsn (sw_pools w) of
           (Some e, n) \<Rightarrow> (SetupFatal (ErrWrap ''postgres'' e), w\<lparr>sw_pools := n\<rparr>)
         | (None, n) \<Rightarrow>
             (let w1 = w\<lparr>sw_pools := n\<rparr>
              in case run_migrations (su_migrate env) dsn mig_dir of
                   Some e \<Rightarrow> (SetupFatal (ErrWrap ''migrations'' e), w1)
                 | None \<Rightarrow>
                     (let w2 = say [''Migrations:      applied''] w1
                      in case insert_api_key (su_keys env) (su_now env)
                              (Some (api_key_row_entry (Some cfg) plain default_api_key_entry)) (sw_keys w2) of
                           (Some e, ks) \<Rightarrow> (SetupFatal (ErrWrap ''api key insert'' e), w2\<lparr>sw_keys := ks\<rparr>)
                         | (None, ks) \<Rightarrow>
                             (let w3 = say [''API key:         inserted into api_keys''] (w2\<lparr>sw_keys := ks\<rparr>)
                              in case run_initial_sync (fe_format_dsn (su_flow env)) (fe_dial (su_flow env))
                                      (su_sync env) (su_my env) (su_source env) (su_run_id env)
                                      (Some cfg) master_b64 (sw_db w3) (sw_sources w3) of
                                   (r, db, h) \<Rightarrow>
                                     (let w4 = w3\<lparr>sw_db := db, sw_sources := h\<rparr>;
                                          w5 = (case r of
                                                  Inl e \<Rightarrow> w4
                                                | Inr k \<Rightarrow> say [''Initial sync: '' @ fmt_d k @ '' rows upserted'',
                                                    ''Initial sync:    completed''] w4);
                                          w6 = (case su_abs env cfg_path of
                                                  Inl e \<Rightarrow> w5
                                                | Inr a \<Rightarrow> say [''Config absolute:  '' @ a] w5)
                                      in (SetupReturns, w6\<lparr>sw_pools := sw_pools w6 - 1\<rparr>))))))"

definition setup_main :: "setup_env \<Rightarrow> setup_world \<Rightarrow> setup_end \<times> setup_world" where
  "setup_main env w =
     (let getenv = su_getenv env;
          cfg_path = env_or getenv ''GATEWAY_CONFIG_PATH'' default_config_path;
          env_path = env_or getenv ''GATEWAY_DOTENV_PATH'' default_dotenv_path
      in case run_prompt_flow (setup_flow env) cfg_path env_path (getenv ''GATEWAY_MASTER_KEY'') (sw_fs w) of
           (Inl e, fs) \<Rightarrow> (SetupFatal (ErrWrap ''setup'' e), w\<lparr>sw_fs := fs\<rparr>)
         | (Inr (cfg, plain, master_b64), fs) \<Rightarrow>
             (let w1 = say (setup_summary cfg cfg_path env_path plain master_b64) (w\<lparr>sw_fs := fs\<rparr>)
              in if getenv ''POSTGRES_DSN'' = []
                 then (SetupReturns,
                   say [''POSTGRES_DSN not set; skipping migrations, api key insert, and initial sync.'',
                        ''Set POSTGRES_DSN and re-run the binary to finish wiring the database.''] w1)
                 else setup_database env cfg_path cfg plain master_b64 w1))"

section \<open>Facts\<close>

lemma say_simps [simp]:
  "sw_fs (say ls w) = sw_fs w" "sw_keys (say ls w) = sw_keys w" "sw_db (say ls w) = sw_db w"
  "sw_pools (say ls w) = sw_pools w" "sw_sources (say ls w) = sw_sources w" "sw_out (say ls w) = sw_out w @ ls"
  by (simp_all add: say_def)

lemma run_initial_sync_handles: "snd (snd (run_initial_sync fmt dial env my src run_id cfg m db h)) = h"
  by (simp add: run_initial_sync_def new_client_from_store_config_def new_client_def Let_def
      split: option.split sum.split prod.split dial_result.split)

lemma setup_database_returns:
  assumes "setup_database env cfg_path cfg plain m w = (SetupReturns, w')"
  shows "insert_api_key (su_keys env) (su_now env) (Some (api_key_row_entry (Some cfg) plain default_api_key_entry)) (sw_keys w)
      = (None, sw_keys w')
    \<and> sw_pools w' = sw_pools w \<and> sw_sources w' = sw_sources w \<and> sw_fs w' = sw_fs w
    \<and> (\<exists>ls. sw_out w' = sw_out w @ ls)"
proof -
  obtain n where pool: "open_pool (su_pool env) (su_getenv env ''POSTGRES_DSN'') (sw_pools w) = (None, n)"
    using assms by (cases "open_pool (su_pool env) (su_getenv env ''POSTGRES_DSN'') (sw_pools w)";
        cases "fst (open_pool (su_pool env) (su_getenv env ''POSTGRES_DSN'') (sw_pools w))")
      (auto simp: setup_database_def Let_def)
  then have n: "n = sw_pools w + 1" by (auto simp: open_pool_def Let_def split: option.splits)
  obtain r db where sync: "run_initial_sync (fe_format_dsn (su_flow env)) (fe_dial (su_flow env)) (su_sync env)
      (su_my env) (su_source env) (su_run_id env) (Some cfg) m (sw_db w) (sw_sources w) = (r, db, sw_sources w)"
    using run_initial_sync_handles by (metis prod.collapse)
  obtain e ks where ins: "insert_api_key (su_keys env) (su_now env)
      (Some (api_key_row_entry (Some cfg) plain default_api_key_entry)) (sw_keys w) = (e, ks)" by fastforce
  have mig: "run_migrations (su_migrate env) (su_getenv env ''POSTGRES_DSN'')
      (env_or (su_getenv env) ''GATEWAY_MIGRATIONS_DIR'' default_migrations) = None"
    using assms pool by (auto simp: setup_database_def Let_def split: option.splits)
  have e: "e = None" using assms pool mig ins by (cases e) (simp_all add: setup_database_def Let_def)
  show ?thesis
    using assms
    by (simp add: setup_database_def Let_def pool mig ins e n sync split: sum.splits) auto
qed

lemma setup_database_ok:
  assumes "open_pool (su_pool env) (su_getenv env ''POSTGRES_DSN'') (sw_pools w) = (None, n)"
    and "run_migrations (su_migrate env) (su_getenv env ''POSTGRES_DSN'')
      (env_or (su_getenv env) ''GATEWAY_MIGRATIONS_DIR'' default_migrations) = None"
    and "insert_api_key (su_keys env) (su_now env) (Some (api_key_row_entry (Some cfg) plain default_api_key_entry)) (sw_keys w) = (None, ks)"
  shows "fst (setup_database env cfg_path cfg plain m w) = SetupReturns"
  by (simp add: setup_database_def Let_def assms split: prod.split)

lemma setup_main_flow:
  assumes "run_prompt_flow (setup_flow env) (env_or (su_getenv env) ''GATEWAY_CONFIG_PATH'' default_config_path)
      (env_or (su_getenv env) ''GATEWAY_DOTENV_PATH'' default_dotenv_path) (su_getenv env ''GATEWAY_MASTER_KEY'') (sw_fs w)
      = (Inr (cfg, plain, m), fs)"
    and "su_getenv env ''POSTGRES_DSN'' \<noteq> []"
  shows "\<exists>cfg_path env_path. setup_main env w = setup_database env cfg_path cfg plain m
    (say (setup_summary cfg cfg_path env_path plain m) (w\<lparr>sw_fs := fs\<rparr>))"
  using assms by (auto simp: setup_main_def Let_def)

text \<open>The same, of a run that returned: the table is the one that the upsert leaves.\<close>

lemma setup_main_keys:
  assumes "run_prompt_flow (setup_flow env) (env_or (su_getenv env) ''GATEWAY_CONFIG_PATH'' default_config_path)
      (env_or (su_getenv env) ''GATEWAY_DOTENV_PATH'' default_dotenv_path) (su_getenv env ''GATEWAY_MASTER_KEY'') (sw_fs w)
      = (Inr (cfg, plain, m), fs)"
    and "su_getenv env ''POSTGRES_DSN'' \<noteq> []" and "setup_main env w = (SetupReturns, w')"
  shows "insert_api_key (su_keys env) (su_now env) (Some (api_key_row_entry (Some cfg) plain default_api_key_entry)) (sw_keys w)
      = (None, sw_keys w') \<and> ''   '' @ plain \<in> set (sw_out w')"
proof -
  obtain cfg_path env_path where "setup_database env cfg_path cfg plain m
      (say (setup_summary cfg cfg_path env_path plain m) (w\<lparr>sw_fs := fs\<rparr>)) = (SetupReturns, w')"
    using setup_main_flow [OF assms(1,2)] assms(3) by auto
  from setup_database_returns [OF this] show ?thesis by (auto simp: setup_summary_def)
qed

lemma upsert_key_members:
  assumes "x \<in> set (sql_upsert kk_id key_merge (new_key_row now e) t)" and "keyed kk_id t"
  shows "x \<in> set t \<and> kk_id x \<noteq> en_id e \<or> kk_hash x = en_hash e"
  using assms
proof (induction t)
  case Nil
  then show ?case by (simp add: new_key_row_def)
next
  case (Cons y t)
  then show ?case
    by (auto simp: keyed_def key_merge_def new_key_row_def image_iff split: if_splits)
qed

section \<open>Properties\<close>

text \<open>
  The setup command leaves no handle behind when it returns, and when it dies at most
  the one pool that the end of the process closes: whatever fails, the source connections it
  opened, for the check and for the first synchronisation, are closed again.
\<close>

theorem setup_main_handles:
  "case setup_main env w of
     (SetupReturns, w') \<Rightarrow> sw_pools w' = sw_pools w \<and> sw_sources w' = sw_sources w
   | (SetupFatal e, w') \<Rightarrow> sw_sources w' = sw_sources w \<and> sw_db w' = sw_db w
       \<and> (sw_pools w' = sw_pools w \<or> sw_pools w' = sw_pools w + 1)"
proof -
  have db: "case setup_database env cfg_path cfg plain m w of
     (SetupReturns, w') \<Rightarrow> sw_pools w' = sw_pools w \<and> sw_sources w' = sw_sources w
   | (SetupFatal e, w') \<Rightarrow> sw_sources w' = sw_sources w \<and> sw_db w' = sw_db w
       \<and> (sw_pools w' = sw_pools w \<or> sw_pools w' = sw_pools w + 1)" for cfg_path cfg plain m w
  proof (cases "setup_database env cfg_path cfg plain m w")
    case (Pair x w')
    show ?thesis
    proof (cases x)
      case SetupReturns
      then show ?thesis using setup_database_returns Pair by fastforce
    next
      case (SetupFatal e)
      then show ?thesis
        using Pair by (auto simp: setup_database_def open_pool_def Let_def split: option.splits prod.splits)
    qed
  qed
  obtain r fs where flow: "run_prompt_flow (setup_flow env) (env_or (su_getenv env) ''GATEWAY_CONFIG_PATH'' default_config_path)
      (env_or (su_getenv env) ''GATEWAY_DOTENV_PATH'' default_dotenv_path) (su_getenv env ''GATEWAY_MASTER_KEY'') (sw_fs w)
      = (r, fs)" by fastforce
  show ?thesis
  proof (cases r)
    case (Inl e)
    then show ?thesis using flow by (simp add: setup_main_def)
  next
    case (Inr x)
    obtain cfg plain m where x: "x = (cfg, plain, m)" by (cases x)
    show ?thesis
    proof (cases "su_getenv env ''POSTGRES_DSN'' = []")
      case True
      then show ?thesis using flow Inr x by (simp add: setup_main_def Let_def)
    next
      case False
      from setup_main_flow [OF flow [unfolded Inr x] False] obtain cp ep where
        "setup_main env w = setup_database env cp cfg plain m (say (setup_summary cfg cp ep plain m) (w\<lparr>sw_fs := fs\<rparr>))" by blast
      then show ?thesis using db [where cfg_path = cp and cfg = cfg and plain = plain and m = m
            and w = "say (setup_summary cfg cp ep plain m) (w\<lparr>sw_fs := fs\<rparr>)"]
        by (auto split: prod.splits setup_end.splits)
    qed
  qed
qed

text \<open>
  The key that the setup command prints is the one that the gateway accepts: after a
  run that returned, with a database, the printed key's hash is found under the id that the
  command chose, unless a row of this id was revoked before, provided no row had the hash.
\<close>

theorem printed_key_authenticates:
  assumes "run_prompt_flow (setup_flow env) (env_or (su_getenv env) ''GATEWAY_CONFIG_PATH'' default_config_path)
      (env_or (su_getenv env) ''GATEWAY_DOTENV_PATH'' default_dotenv_path) (su_getenv env ''GATEWAY_MASTER_KEY'') (sw_fs w)
      = (Inr (cfg, plain, m), fs)"
    and "su_getenv env ''POSTGRES_DSN'' \<noteq> []" and "setup_main env w = (SetupReturns, w')"
    and "keyed kk_id (sw_keys w)" and "\<And>r. r \<in> set (sw_keys w) \<Longrightarrow> kk_hash r \<noteq> hash_api_key plain"
    and "pg_fault pg get_by_hash_sql [ArgText (hash_api_key plain)] = None"
  shows "''   '' @ plain \<in> set (sw_out w')
    \<and> (let i = en_id (api_key_row_entry (Some cfg) plain default_api_key_entry)
       in case get_by_hash pg (hash_api_key plain) (sw_keys w') of
            Inr en \<Rightarrow> en_id en = i
          | Inl e \<Rightarrow> e = err_key_not_found \<and> (\<exists>r \<in> set (sw_keys w). kk_id r = i \<and> kk_revoked r))"
proof -
  have h: "en_hash (api_key_row_entry (Some cfg) plain default_api_key_entry) = hash_api_key plain"
    by (simp add: api_key_row_entry_def Let_def)
  note keys = setup_main_keys [OF assms(1-3)]
  from inserted_key_found [OF conjunct1 [OF keys] assms(4), unfolded h, OF assms(5,6)] keys show ?thesis
    by (auto simp: Let_def split: sum.splits)
qed

text \<open>A run on an empty machine, with a database that answers.\<close>

definition setup_ref_env :: "string \<Rightarrow> string" where
  "setup_ref_env k =
     (if k = ''POSTGRES_DSN'' then ''pg'' else if k = ''GATEWAY_CONFIG_PATH'' then ''c''
      else if k = ''GATEWAY_DOTENV_PATH'' then ''d'' else ref_getenv k)"

text \<open>A survey whose operator accepts every default.\<close>

fun survey_ref :: survey_ask where
  "survey_ref [] flds sheet = (None, sheet)"
| "survey_ref (q # qs) flds sheet =
     (if to_lower (sq_name q) \<in> to_lower ` set flds
      then survey_ref qs flds \<lparr>as_out = [sq_default q]\<rparr>
      else (Some (ErrNew (''could not find field matching '' @ sq_name q)), sheet))"

definition setup_ref :: "store_config \<Rightarrow> setup_env" where
  "setup_ref saved =
     \<lparr>su_getenv = setup_ref_env, su_flow = flow_ref saved, su_survey = survey_ref, su_pool = \<lparr>pg_new = (\<lambda>_. None), pg_ping = (\<lambda>_. None)\<rparr>,
      su_migrate = \<lparr>mg_new = (\<lambda>_ _. None), mg_up = Some err_no_change\<rparr>, su_keys = pg_ref, su_now = 7,
      su_sync = \<lparr>se_started = 0, se_now = (\<lambda>_. 0), se_server_now = 0, se_begin = Some (ErrNew ''busy''),
        se_fault = (\<lambda>_. None), se_commit = None, se_read = None, se_pg = pg_ref, se_fetch = (\<lambda>_. ([], None))\<rparr>,
      su_my = \<lparr>my_fault = (\<lambda>_. None), my_rows_err = None, my_le = (\<lambda>a b. True), my_eq = (=)\<rparr>,
      su_source = [], su_run_id = ''r1'', su_abs = Inr\<rparr>"

definition empty_machine :: "key_row list \<Rightarrow> setup_world" where
  "empty_machine ks =
     \<lparr>sw_fs = Map.empty, sw_keys = ks, sw_db = \<lparr>db_kar = [], db_state = [], db_runs = []\<rparr>,
      sw_pools = 0, sw_sources = 0, sw_out = []\<rparr>"

lemma setup_ref_paths:
  "env_or (su_getenv (setup_ref cfg)) ''GATEWAY_CONFIG_PATH'' x = ''c''"
  "env_or (su_getenv (setup_ref cfg)) ''GATEWAY_DOTENV_PATH'' x = ''d''"
  "su_getenv (setup_ref cfg) ''GATEWAY_MASTER_KEY'' = []" "su_getenv (setup_ref cfg) ''POSTGRES_DSN'' = ''pg''"
  "setup_flow (setup_ref cfg) = flow_ref cfg"
proof -
  have env: "env_answer setup_ref_env n = env_answer ref_getenv n" for n
    by (simp add: env_answer_def env_default_def setup_ref_env_def ref_getenv_def)
  have "env_prompter setup_ref_env qs = env_prompter ref_getenv qs" for qs
    by (induction qs) (simp_all add: env_prompter_step env del: env_prompter.simps(2))
  moreover have "setup_ref_env ''SETUP_HOST'' \<noteq> []" by (simp add: setup_ref_env_def ref_getenv_def)
  ultimately show "setup_flow (setup_ref cfg) = flow_ref cfg"
    by (simp add: setup_flow_def setup_ref_def flow_ref_def fun_eq_iff)
qed (simp_all add: setup_ref_def setup_ref_env_def ref_getenv_def env_or_def Let_def)

lemma setup_ref_returns:
  assumes flow: "run_prompt_flow (flow_ref saved) ''c'' ''d'' [] (sw_fs w) = (Inr (cfg, plain, m), fs)"
  shows "fst (setup_main (setup_ref saved) w) = SetupReturns"
proof -
  let ?env = "setup_ref saved"
  obtain cp ep where main: "setup_main ?env w =
      setup_database ?env cp cfg plain m (say (setup_summary cfg cp ep plain m) (w\<lparr>sw_fs := fs\<rparr>))"
    using setup_main_flow [of ?env w cfg plain m fs] flow by (auto simp: setup_ref_paths)
  have "sql_params insert_key_sql = 3" by code_simp
  then obtain ks' where "insert_api_key (su_keys ?env) (su_now ?env)
      (Some (api_key_row_entry (Some cfg) plain default_api_key_entry)) (sw_keys w) = (None, ks')"
    by (simp add: insert_api_key_def setup_ref_def pg_ref_def)
  then show ?thesis
    unfolding main
    by (intro setup_database_ok) (simp_all add: setup_ref_paths(4) open_pool_def run_migrations_def env_or_def Let_def,
        simp_all add: setup_ref_def)
qed

lemma setup_ref_flow:
  "\<exists>cfg fs. run_prompt_flow (flow_ref cfg) ''c'' ''d'' [] (sw_fs (empty_machine ks)) =
     (Inr (cfg, ''k'', key_to_base64 (replicate 32 7)), fs)"
proof -
  obtain cfg where prep: "flow_prepare (flow_ref cfg) ''c'' ''d'' [] Map.empty = Inr (cfg, ''k'', key_to_base64 (replicate 32 7))"
    using flow_ref_fresh by blast
  have "fst (flow_persist (flow_ref cfg) ''c'' ''d'' cfg ''k'' (key_to_base64 (replicate 32 7)) Map.empty) =
      Inr (cfg, ''k'', key_to_base64 (replicate 32 7))"
    by (rule flow_persist_healthy) (simp_all add: flow_ref_def)
  with prep show ?thesis
    by (intro exI [of _ cfg]) (simp add: run_prompt_flow_def prod_eq_iff empty_machine_def)
qed

lemma printed_key_authenticates_witness:
  "\<exists>cfg w' en. setup_main (setup_ref cfg) (empty_machine []) = (SetupReturns, w')
     \<and> ''   k'' \<in> set (sw_out w') \<and> get_by_hash pg_ref (hash_api_key ''k'') (sw_keys w') = Inr en"
proof -
  obtain cfg fs where flow: "run_prompt_flow (flow_ref cfg) ''c'' ''d'' [] (sw_fs (empty_machine [])) =
      (Inr (cfg, ''k'', key_to_base64 (replicate 32 7)), fs)"
    using setup_ref_flow by blast
  obtain w' where main: "setup_main (setup_ref cfg) (empty_machine []) = (SetupReturns, w')"
    using setup_ref_returns [OF flow] by (metis prod.collapse)
  have "sql_params get_by_hash_sql = 1" by code_simp
  then have pg: "pg_fault pg_ref get_by_hash_sql [ArgText h] = None" for h by (simp add: pg_ref_def)
  have "''   '' @ ''k'' \<in> set (sw_out w')
    \<and> (let i = en_id (api_key_row_entry (Some cfg) ''k'' ''default'')
       in case get_by_hash pg_ref (hash_api_key ''k'') (sw_keys w') of
            Inr en \<Rightarrow> en_id en = i
          | Inl e \<Rightarrow> e = err_key_not_found \<and> (\<exists>r \<in> set (sw_keys (empty_machine [])). kk_id r = i \<and> kk_revoked r))"
    by (rule printed_key_authenticates [OF _ _ main])
      (use flow pg in \<open>simp_all add: setup_ref_paths empty_machine_def keyed_def\<close>)
  with main show ?thesis by (auto simp: Let_def empty_machine_def split: sum.splits)
qed

text \<open>
  Property C27. The command can disable another key of the operator. The row it upserts takes its id
  from the \<^emph>\<open>first\<close> key of the configuration, not from the entry it generated: when the first
  key has another id than "default" and a live row, then after a run that returned the
  operator's key of this row is no longer accepted, its hash being replaced by the hash of the
  new key.
\<close>

theorem setup_replaces_first_key:
  assumes "run_prompt_flow (setup_flow env) (env_or (su_getenv env) ''GATEWAY_CONFIG_PATH'' default_config_path)
      (env_or (su_getenv env) ''GATEWAY_DOTENV_PATH'' default_dotenv_path) (su_getenv env ''GATEWAY_MASTER_KEY'') (sw_fs w)
      = (Inr (cfg, plain, m), fs)"
    and "su_getenv env ''POSTGRES_DSN'' \<noteq> []" and "setup_main env w = (SetupReturns, w')"
    and "ac_keys (cfg_api cfg) = k # others" and "ke_id k \<noteq> []" and "ke_id k \<noteq> ''default''"
    and "keyed kk_id (sw_keys w)" and "keyed kk_hash (sw_keys w)"
    and "r \<in> set (sw_keys w)" and "kk_id r = ke_id k" and "kk_hash r \<noteq> hash_api_key plain"
    and "pg_fault pg get_by_hash_sql [ArgText (kk_hash r)] = None"
  shows "get_by_hash pg (kk_hash r) (sw_keys w') = Inl err_key_not_found
    \<and> find (\<lambda>x. ke_id x = ''default'') (ac_keys (cfg_api cfg)) = Some (default_key plain)"
proof -
  let ?e = "api_key_row_entry (Some cfg) plain default_api_key_entry"
  have e: "en_hash ?e = hash_api_key plain" "en_id ?e = ke_id k"
    using assms(4,5) by (simp_all add: api_key_row_entry_def Let_def)
  have keys: "sw_keys w' = sql_upsert kk_id key_merge (new_key_row (su_now env) ?e) (sw_keys w)"
    using setup_main_keys [OF assms(1-3)] by (auto simp: insert_api_key_def Let_def split: option.splits)
  have "kk_hash x \<noteq> kk_hash r" if x: "x \<in> set (sw_keys w')" for x
  proof -
    have "x \<in> set (sw_keys w) \<and> kk_id x \<noteq> kk_id r \<or> kk_hash x = hash_api_key plain"
      using upsert_key_members [OF x [unfolded keys] assms(7)] e assms(10) by simp
    then show ?thesis
      using assms(8,9,11) by (auto simp: keyed_def distinct_map dest: inj_onD)
  qed
  then have "find (live_key (kk_hash r)) (sw_keys w') = None" by (auto simp: find_None_iff live_key_def)
  then have "get_by_hash pg (kk_hash r) (sw_keys w') = Inl err_key_not_found"
    by (simp add: get_by_hash_lookup [OF assms(12)])
  moreover have "find (\<lambda>x. ke_id x = ''default'') (ac_keys (cfg_api cfg)) = Some (default_key plain)"
    using run_prompt_flow_ok [OF assms(1)] flow_prepareD
    by (fastforce simp: merge_config_def default_key_def put_default_key_find)
  ultimately show ?thesis by blast
qed

definition ops_config :: store_config where
  "ops_config = zero_config\<lparr>cfg_api := \<lparr>ac_keys = [\<lparr>ke_id = ''ops'', ke_key_hash = ''h'', ke_description = []\<rparr>]\<rparr>\<rparr>"

definition ops_machine :: setup_world where
  "ops_machine = (empty_machine [new_key_row 1 (sample_entry ''ops'' ''h'')])\<lparr>sw_fs := [''c'' \<mapsto> ''yaml'']\<rparr>"

lemma ops_flow:
  "\<exists>v fs. run_prompt_flow (flow_ref ops_config) ''c'' ''d'' [] (sw_fs ops_machine) =
     (Inr (merge_config ops_config v ''k'', ''k'', key_to_base64 (replicate 32 7)), fs)"
proof -
  let ?env = "flow_ref ops_config" and ?fs = "[''c'' \<mapsto> ''yaml'']"
  have self: "?env\<lparr>fe_os := os_healthy\<rparr> = ?env" by (simp add: flow_ref_def)
  have "flow_master_key ?env (resolve_master_b64 ?env ''d'' [] ?fs) = Inr (replicate 32 7, key_to_base64 (replicate 32 7))"
    and old: "existing_config ?env ''c'' ?fs = ops_config"
    by (simp_all add: existing_config_def store_load_def os_read_file_def flow_ref_def os_healthy_def
        flow_master_key_def resolve_master_b64_def read_master_key_text new_random_key_def key_size_def)
  with flow_ref_prepared [of "replicate 32 7"] obtain v where
    "flow_prepare ?env ''c'' ''d'' [] ?fs = Inr (merge_config ops_config v ''k'', ''k'', key_to_base64 (replicate 32 7))"
    by (metis key_size_def length_replicate self)
  moreover have "fst (flow_persist ?env ''c'' ''d'' cfg ''k'' mk ?fs) = Inr (cfg, ''k'', mk)" for cfg mk
    by (rule flow_persist_healthy) (simp_all add: flow_ref_def)
  ultimately show ?thesis by (auto simp: run_prompt_flow_def prod_eq_iff ops_machine_def)
qed

lemma setup_replaces_first_key_witness:
  "\<exists>w'. setup_main (setup_ref ops_config) ops_machine = (SetupReturns, w')
     \<and> get_by_hash pg_ref ''h'' (sw_keys ops_machine) \<noteq> Inl err_key_not_found
     \<and> get_by_hash pg_ref ''h'' (sw_keys w') = Inl err_key_not_found"
proof -
  obtain v fs where flow: "run_prompt_flow (flow_ref ops_config) ''c'' ''d'' [] (sw_fs ops_machine) =
     (Inr (merge_config ops_config v ''k'', ''k'', key_to_base64 (replicate 32 7)), fs)"
    using ops_flow by blast
  obtain w' where main: "setup_main (setup_ref ops_config) ops_machine = (SetupReturns, w')"
    using setup_ref_returns [OF flow] by (metis prod.collapse)
  have "sql_params get_by_hash_sql = 1" by code_simp
  then have pg: "pg_fault pg_ref get_by_hash_sql [ArgText h] = None" for h by (simp add: pg_ref_def)
  let ?r = "new_key_row 1 (sample_entry ''ops'' ''h'')"
  have "length ''h'' \<noteq> length (hash_api_key ''k'')" by (simp add: hash_api_key_length)
  then have "''h'' \<noteq> hash_api_key ''k''" by metis
  moreover have "kk_hash ?r = ''h''" by (simp add: new_key_row_def sample_entry_def)
  ultimately have h: "kk_hash ?r = ''h''" "''h'' \<noteq> hash_api_key ''k''" by simp_all
  have "get_by_hash pg_ref (kk_hash ?r) (sw_keys w') = Inl err_key_not_found
    \<and> find (\<lambda>x. ke_id x = ''default'') (ac_keys (cfg_api (merge_config ops_config v ''k''))) = Some (default_key ''k'')"
    by (rule setup_replaces_first_key [where k = "\<lparr>ke_id = ''ops'', ke_key_hash = ''h'', ke_description = []\<rparr>"
          and others = "[default_key ''k'']", OF _ _ main])
      (use flow pg h in \<open>simp_all add: setup_ref_paths ops_machine_def empty_machine_def keyed_def
          merge_config_def ops_config_def sample_entry_def\<close>)
  moreover have "get_by_hash pg_ref ''h'' (sw_keys ops_machine) \<noteq> Inl err_key_not_found"
    using pg by (simp add: get_by_hash_lookup ops_machine_def empty_machine_def live_key_def new_key_row_def sample_entry_def)
  ultimately show ?thesis using main h by auto
qed

section \<open>Interactive setup\<close>

lemma questions_not_out: "\<exists>q \<in> set (map survey_question_of questions). to_lower (sq_name q) \<notin> to_lower ` set [''Out'']"
  by code_simp

lemma survey_prompter_fails:
  assumes "survey_by_field_name ask"
  shows "\<exists>e. survey_prompter ask questions = Inl e"
proof -
  have "fst (ask (map survey_question_of questions) [''Out''] sheet) \<noteq> None" for sheet
    using assms questions_not_out unfolding survey_by_field_name_def by blast
  then obtain e sheet where "ask (map survey_question_of questions) [''Out''] \<lparr>as_out = replicate (length questions) []\<rparr> = (Some e, sheet)"
    by (metis option.exhaust prod.collapse)
  then show ?thesis by (simp add: survey_prompter_def Let_def)
qed

text \<open>
  Property C13. Interactive setup never succeeds. Without \<open>SETUP_HOST\<close> the command asks through the survey
  library, none of whose answers finds a field: the questions are named host, port, database,
  username, password and apiKey and the struct has only \<open>Out\<close>. Whatever the operator types,
  the command ends with a fatal error of the prompt and has changed nothing: no file, no key, no
  row, no open handle.
\<close>

theorem interactive_setup_fails:
  assumes "su_getenv env ''SETUP_HOST'' = []" and "survey_by_field_name (su_survey env)"
  shows "\<exists>e. setup_main env w = (SetupFatal (ErrWrap ''setup'' (ErrWrap ''prompt'' e)), w)"
proof -
  obtain e where "survey_prompter (su_survey env) questions = Inl e"
    using survey_prompter_fails [OF assms(2)] by blast
  then have "fe_prompt (setup_flow env) questions = Inl e" by (simp add: setup_flow_def assms(1))
  then show ?thesis by (simp add: setup_main_def run_prompt_flow_def flow_prepare_def Let_def)
qed

lemma survey_ref_by_field_name: "survey_by_field_name survey_ref"
proof -
  have "\<exists>q \<in> set qs. to_lower (sq_name q) \<notin> to_lower ` set flds \<Longrightarrow> fst (survey_ref qs flds sheet) \<noteq> None" for qs flds sheet
    by (induction qs flds sheet rule: survey_ref.induct) auto
  then show ?thesis by (simp add: survey_by_field_name_def)
qed

lemma interactive_setup_fails_witness:
  "\<exists>e. setup_main ((setup_ref zero_config)\<lparr>su_getenv := (\<lambda>k. [])\<rparr>) (empty_machine []) =
     (SetupFatal (ErrWrap ''setup'' (ErrWrap ''prompt'' e)), empty_machine [])"
  by (rule interactive_setup_fails) (simp_all add: setup_ref_def survey_ref_by_field_name)

end
