(* ===== verification/Services.thy ===== *)
theory Services
  imports Bootstrap Api Setup SyncMirror
begin

text \<open>
  The two long-running commands, \<open>cmd/api/main.go\<close> and \<open>cmd/sync/main.go\<close>: what they open, in which
  order, how they end, and for the synchronisation which schedule and which client it runs with.
  The HTTP listener, the signals and the cron library are parameters: an event that ends the
  API, the answer of \<open>AddFunc\<close> to a schedule, and the passes that were run until the shutdown, each
  with its faults. Passes run here one after the other; \<^theory_text>\<open>SyncConc\<close> is about their
  interleaving.
\<close>

section \<open>cmd/api\<close>

datatype api_event = ListenFails goerr | Signalled "goerr option"

datatype service_end = ServiceReturns | ServiceExits int | ServiceFatal goerr

definition api_server_config :: "deps \<Rightarrow> server_config" where
  "api_server_config d =
     \<lparr>sv_rate_limit_rpm = gc_api_rate_limit (dp_cfg d), sv_has_api = True, sv_has_redis = dp_redis d\<rparr>"

text \<open>The error of \<open>Shutdown\<close> is dropped; \<open>os.Exit\<close> does not run the deferred \<open>Close\<close>.\<close>

definition api_main :: "boot_env \<Rightarrow> api_event \<Rightarrow> resources \<Rightarrow> service_end \<times> server_config option \<times> resources" where
  "api_main env ev rs =
     (case must_run env rs of
        (Inl e, rs1) \<Rightarrow> (ServiceFatal e, None, rs1)
      | (Inr d, rs1) \<Rightarrow>
          (case ev of
             ListenFails e \<Rightarrow> (ServiceExits 1, Some (api_server_config d), rs1)
           | Signalled r \<Rightarrow> (ServiceReturns, Some (api_server_config d), deps_close (Some d) rs1)))"

section \<open>cmd/sync\<close>

record sync_service_env =
  ss_boot :: boot_env
  ss_getenv :: "string \<Rightarrow> string"
  ss_os :: osenv
  ss_unmarshal :: yaml_unmarshal
  ss_cleanup_fault :: "(goerr \<times> bool) option"
  ss_cleanup_now :: "micros \<times> micros"
  ss_format_dsn :: format_dsn
  ss_dial :: mysql_dial
  ss_cron_add :: "string \<Rightarrow> goerr option"
  ss_my :: myenv
  ss_source :: "my_row list"

record sync_world =
  yw_fs :: fs
  yw_db :: syncdb
  yw_res :: resources
  yw_sources :: int

text \<open>\<open>2 * SyncInterval\<close> in nanoseconds, as the microseconds by which it moves the cut-off back.\<close>

definition stale_after :: "int \<Rightarrow> micros" where
  "stale_after interval = - ((- wrap64 (2 * interval)) div 1000)"

definition schedule_spec :: "string \<Rightarrow> int \<Rightarrow> string" where
  "schedule_spec cfg_interval sync_interval =
     ''@every '' @ (if cfg_interval = [] then duration_string sync_interval else cfg_interval)"

text \<open>\<open>runOnce\<close>: the result is only logged.\<close>

definition run_once :: "sync_env \<Rightarrow> syncer \<Rightarrow> string \<Rightarrow> syncdb \<Rightarrow> syncdb" where
  "run_once env s run_id db = snd (sync_karyawan env s run_id db)"

fun run_all :: "(sync_env \<times> string) list \<Rightarrow> syncer \<Rightarrow> (micros \<Rightarrow> vps_row list \<times> goerr option) \<Rightarrow> syncdb \<Rightarrow> syncdb" where
  "run_all [] s fetch db = db"
| "run_all ((env, run_id) # ps) s fetch db = run_all ps s fetch (run_once (env\<lparr>se_fetch := fetch\<rparr>) s run_id db)"

definition sync_main ::
  "sync_service_env \<Rightarrow> (sync_env \<times> string) list \<Rightarrow> sync_world \<Rightarrow> service_end \<times> sync_world" where
  "sync_main env passes w =
     (case must_run (ss_boot env) (yw_res w) of
        (Inl e, rs) \<Rightarrow> (ServiceFatal e, w\<lparr>yw_res := rs\<rparr>)
      | (Inr d, rs) \<Rightarrow>
          (let cfg_path = (let v = ss_getenv env ''GATEWAY_CONFIG_PATH'' in if v = [] then ''/etc/gateway/config.yaml'' else v)
           in case store_load (ss_os env) (ss_unmarshal env) cfg_path (yw_fs w) of
                Inl e \<Rightarrow> (ServiceFatal (ErrWrap (''load gateway config '' @ cfg_path) e), w\<lparr>yw_res := rs\<rparr>)
              | Inr sc \<Rightarrow>
                  (let (r, runs) = cleanup_stale_runs (ss_cleanup_fault env) (fst (ss_cleanup_now env))
                         (snd (ss_cleanup_now env)) ''karyawan'' (stale_after (gc_sync_interval (dp_cfg d))) (db_runs (yw_db w));
                       db1 = (yw_db w)\<lparr>db_runs := runs\<rparr>;
                       batch = gc_sync_batch_size (dp_cfg d)
                   in case new_client_from_store_config (ss_format_dsn env) (ss_dial env) (Some (cfg_vps sc))
                             (gc_master_key (dp_cfg d)) batch (yw_sources w) of
                        (Inl e, h) \<Rightarrow>
                          (ServiceFatal (ErrWrap ''vps mysql'' e), w\<lparr>yw_res := rs, yw_db := db1, yw_sources := h\<rparr>)
                      | (Inr client, h) \<Rightarrow>
                          (let (s, client') = new_syncer batch client
                           in case ss_cron_add env (schedule_spec (sc_interval (cfg_sync sc)) (gc_sync_interval (dp_cfg d))) of
                                Some e \<Rightarrow>
                                  (ServiceFatal (ErrWrap ''cron add'' e), w\<lparr>yw_res := rs, yw_db := db1, yw_sources := h\<rparr>)
                              | None \<Rightarrow>
                                  (ServiceReturns,
                                   w\<lparr>yw_db := run_all passes s (fetch_karyawan_updated_since (ss_my env) client' (ss_source env)) db1,
                                     yw_sources := h - 1, yw_res := deps_close (Some d) rs\<rparr>)))))"

section \<open>Properties\<close>

text \<open>
  How the API ends and what it has closed: after a signal everything that was opened
  is closed; a failing listener ends the process with code 1 and the pool and the Redis client
  still open, \<open>os.Exit\<close> passing over the deferred \<open>Close\<close>; a failed start is fatal. The limiter is
  part of every authenticated route exactly when \<open>API_RATE_LIMIT_PER_MIN\<close> is positive.
\<close>

theorem api_main_ends:
  "case api_main env ev rs of
     (ServiceReturns, c, rs') \<Rightarrow> (\<exists>r. ev = Signalled r) \<and> rs' = rs
   | (ServiceExits n, c, rs') \<Rightarrow> n = 1 \<and> (\<exists>e. ev = ListenFails e)
       \<and> rs' = \<lparr>rs_pools = rs_pools rs + 1, rs_redis = rs_redis rs + 1\<rparr>
       \<and> (\<exists>gc. config_load (be_viper env) (be_frac env) = Inr gc \<and>
            map_option (\<lambda>x. api_chain x h) c = Some (api_key_auth (if gc_api_rate_limit gc > 0 then rate_limit (gc_api_rate_limit gc) h else h)))
   | (ServiceFatal e, c, rs') \<Rightarrow> c = None \<and> rs_pools rs' = rs_pools rs"
proof (cases "bootstrap_run env rs")
  case (Pair r rs')
  note cases = bootstrap_cases [where env = env and rs = rs, unfolded Pair prod.case]
  show ?thesis
  proof (cases r)
    case (Inl e)
    then show ?thesis using cases Pair by (auto simp: api_main_def must_run_def)
  next
    case (Inr d)
    then have c: "config_load (be_viper env) (be_frac env) = Inr (dp_cfg d)" "dp_redis d"
      "dp_pool d = Some (pool_config_of (gc_postgres_dsn (dp_cfg d)))"
      "rs' = \<lparr>rs_pools = rs_pools rs + 1, rs_redis = rs_redis rs + 1\<rparr>"
      using cases by simp_all
    show ?thesis
      using Inr Pair c deps_close_opened [OF c(3,2), of "rs_pools rs" "rs_redis rs"]
      by (cases ev) (auto simp: api_main_def must_run_def api_chain_def api_server_config_def fun_eq_iff)
  qed
qed

text \<open>
  The schedule. Without an interval in the configuration file the synchronisation is
  scheduled "@every" a text that parses back to \<open>SYNC_INTERVAL\<close>, for every interval of whole
  seconds; but once setup has written the file its interval, five minutes when none was set, is
  what counts and \<open>SYNC_INTERVAL\<close> no longer does.
\<close>

theorem schedule_interval:
  assumes "0 \<le> n" and "n * 1000000000 < 2 ^ 63"
  shows "(\<exists>t. schedule_spec [] (n * 1000000000) = ''@every '' @ t \<and> parse_duration frac t = Inr (n * 1000000000))
    \<and> schedule_spec (sc_interval (cfg_sync (merge_config old v plain))) d =
        ''@every '' @ (if sc_interval (cfg_sync old) = [] then ''5m'' else sc_interval (cfg_sync old))"
  using duration_string_roundtrip [OF assms, of frac]
  by (simp add: schedule_spec_def merge_config_def fill_sync_def)

lemma schedule_interval_witness:
  "\<exists>t. schedule_spec [] 5400000000000 = ''@every '' @ t \<and> parse_duration (\<lambda>f u s. 0) t = Inr 5400000000000"
  using schedule_interval [of 5400 "\<lambda>f u s. 0"] by simp

lemma client_opened:
  "new_client_from_store_config fmt dial cfg m batch handles = (Inr c, h) \<Longrightarrow> h = handles + 1"
  by (auto simp: new_client_from_store_config_def new_client_def
      split: option.splits sum.splits dial_result.splits if_splits)

lemma run_all_mirror:
  assumes "keyed my_nik_hris t" and "inj_on vr_updated_at (set (vps_rows t))"
    and "list_all (\<lambda>p. read_faults_proper (fst p)) passes"
    and "mirror_upto (wm_of (sy_resource s) db) (vps_rows t) (db_kar db)"
  shows "mirror_upto (wm_of (sy_resource s) (run_all passes s (fetch_karyawan_updated_since my c t) db)) (vps_rows t)
      (db_kar (run_all passes s (fetch_karyawan_updated_since my c t) db))
    \<and> wm_of (sy_resource s) db \<le> wm_of (sy_resource s) (run_all passes s (fetch_karyawan_updated_since my c t) db)"
  using assms(3,4)
proof (induction passes arbitrary: db)
  case Nil
  then show ?case by simp
next
  case (Cons p ps)
  obtain env run_id where p: "p = (env, run_id)" by fastforce
  let ?env = "env\<lparr>se_fetch := fetch_karyawan_updated_since my c t\<rparr>" and ?db = "run_once (env\<lparr>se_fetch := fetch_karyawan_updated_since my c t\<rparr>) s run_id db"
  have proper: "read_faults_proper ?env" using Cons.prems(1) p by (simp add: read_faults_proper_def)
  have "mirror_upto (wm_of (sy_resource s) ?db) (vps_rows t) (db_kar ?db)"
    unfolding run_once_def
    by (rule vps.pass_mirror [OF sync_karyawan_spec _ proper keyed_vps_rows [OF assms(1)]
          vps.unique_times_tie_free [OF assms(2)] Cons.prems(2)]) simp
  moreover have "wm_of (sy_resource s) db \<le> wm_of (sy_resource s) ?db"
    unfolding run_once_def by (rule pass_wm_ge [OF sync_karyawan_spec proper])
  ultimately show ?case
    using Cons.IH [of ?db] Cons.prems(1) p by (auto intro: order_trans)
qed

text \<open>
  The synchronisation service end to end: started on any configuration, with any faults
  at start and in its passes, over a source with unique NIKs and timestamps, it leaves a mirror
  that is complete up to the watermark if it found one, never moves the watermark back, and
  when it returns has closed every handle that it opened.
\<close>

theorem sync_main_mirror:
  assumes "keyed my_nik_hris (ss_source env)" and "inj_on vr_updated_at (set (vps_rows (ss_source env)))"
    and "list_all (\<lambda>p. read_faults_proper (fst p)) passes"
    and "mirror_upto (wm_of ''karyawan'' (yw_db w)) (vps_rows (ss_source env)) (db_kar (yw_db w))"
  shows "case sync_main env passes w of (end, w') \<Rightarrow>
      mirror_upto (wm_of ''karyawan'' (yw_db w')) (vps_rows (ss_source env)) (db_kar (yw_db w'))
      \<and> wm_of ''karyawan'' (yw_db w) \<le> wm_of ''karyawan'' (yw_db w')
      \<and> (end = ServiceReturns \<longrightarrow> yw_res w' = yw_res w \<and> yw_sources w' = yw_sources w)"
proof -
  have runs: "wm_of ''karyawan'' (db\<lparr>db_runs := rr\<rparr>) = wm_of ''karyawan'' db" for db rr by (simp add: wm_of_def)
  have sy: "sy_resource (fst (new_syncer b c)) = ''karyawan''" for b c by (simp add: new_syncer_def Let_def)
  show ?thesis
  proof (cases "must_run (ss_boot env) (yw_res w)")
    case (Pair r rs)
    show ?thesis
    proof (cases r)
      case (Inl e)
      then show ?thesis using Pair assms(4) by (simp add: sync_main_def)
    next
      case (Inr d)
      then have d: "dp_redis d" "dp_pool d = Some (pool_config_of (gc_postgres_dsn (dp_cfg d)))"
        "rs = \<lparr>rs_pools = rs_pools (yw_res w) + 1, rs_redis = rs_redis (yw_res w) + 1\<rparr>"
        using Pair bootstrap_cases [where env = "ss_boot env" and rs = "yw_res w"]
        by (auto simp: must_run_def split: prod.splits sum.splits)
      have closed: "deps_close (Some d) rs = yw_res w" unfolding d(3) using deps_close_opened [OF d(2,1)] by simp
      let ?path = "let v = ss_getenv env ''GATEWAY_CONFIG_PATH'' in if v = [] then ''/etc/gateway/config.yaml'' else v"
      show ?thesis
      proof (cases "store_load (ss_os env) (ss_unmarshal env) ?path (yw_fs w)")
        case (Inl e)
        then show ?thesis using Pair Inr assms(4) by (simp add: sync_main_def Let_def)
      next
        case load: (Inr sc)
        obtain x runs' where clean: "cleanup_stale_runs (ss_cleanup_fault env) (fst (ss_cleanup_now env))
             (snd (ss_cleanup_now env)) ''karyawan'' (stale_after (gc_sync_interval (dp_cfg d))) (db_runs (yw_db w)) = (x, runs')"
          by fastforce
        obtain y h where open_src: "new_client_from_store_config (ss_format_dsn env) (ss_dial env) (Some (cfg_vps sc))
             (gc_master_key (dp_cfg d)) (gc_sync_batch_size (dp_cfg d)) (yw_sources w) = (y, h)" by fastforce
        note head = Pair Inr load clean open_src
        show ?thesis
        proof (cases y)
          case (Inl e)
          then show ?thesis using head assms(4) by (simp add: sync_main_def Let_def runs)
        next
          case client: (Inr client)
          have h: "h = yw_sources w + 1" using client_opened [OF open_src [unfolded client]] .
          obtain s client' where s: "new_syncer (gc_sync_batch_size (dp_cfg d)) client = (s, client')" by fastforce
          then have k: "sy_resource s = ''karyawan''" using sy [of "gc_sync_batch_size (dp_cfg d)" client] by simp
          have "mirror_upto (wm_of ''karyawan'' ((yw_db w)\<lparr>db_runs := runs'\<rparr>)) (vps_rows (ss_source env))
              (db_kar ((yw_db w)\<lparr>db_runs := runs'\<rparr>))"
            using assms(4) by (simp add: runs)
          note all = run_all_mirror [OF assms(1-3), of s "(yw_db w)\<lparr>db_runs := runs'\<rparr>" "ss_my env" client', unfolded k, OF this]
          show ?thesis
            using head client h s closed all assms(4)
            by (simp add: sync_main_def Let_def runs split: option.split)
        qed
      qed
    qed
  qed
qed

text \<open>A service that starts and runs, on the credentials \<open>v\<close>.\<close>

definition boot_ref :: "string \<Rightarrow> boot_env" where
  "boot_ref master_b64 =
     \<lparr>be_viper = viper_ref [(''POSTGRES_DSN'', ''pg''), (''REDIS_ADDR'', ''r''), (''GATEWAY_MASTER_KEY'', master_b64)],
      be_frac = (\<lambda>f u s. f * u div s),
      be_pool = \<lparr>po_parse = (\<lambda>_. None), po_new = (\<lambda>_. None), po_ping = (\<lambda>_. None)\<rparr>,
      be_redis_ping = (\<lambda>_ _ _. None)\<rparr>"

definition sync_service_ref :: "vps_config \<Rightarrow> string \<Rightarrow> my_row list \<Rightarrow> sync_service_env" where
  "sync_service_ref v master_b64 t =
     \<lparr>ss_boot = boot_ref master_b64, ss_getenv = (\<lambda>_. []), ss_os = os_healthy,
      ss_unmarshal = (\<lambda>_. Inr (zero_config\<lparr>cfg_vps := v\<rparr>)), ss_cleanup_fault = None, ss_cleanup_now = (1, 1),
      ss_format_dsn = mc_passwd, ss_dial = (\<lambda>_. DialOk), ss_cron_add = (\<lambda>_. None), ss_my = my_ref, ss_source = t\<rparr>"

definition sync_world_ref :: sync_world where
  "sync_world_ref =
     \<lparr>yw_fs = [''/etc/gateway/config.yaml'' \<mapsto> ''x''], yw_db = empty_db, yw_res = \<lparr>rs_pools = 0, rs_redis = 0\<rparr>,
      yw_sources = 0\<rparr>"

lemma boot_ref_runs:
  assumes "b \<noteq> []"
  shows "\<exists>d rs. must_run (boot_ref b) (yw_res sync_world_ref) = (Inr d, rs) \<and> gc_master_key (dp_cfg d) = b
    \<and> gc_sync_batch_size (dp_cfg d) = 500"
proof -
  have "parse_duration (\<lambda>f u s. f * u div s) ''5m'' = Inr 300000000000" by code_simp
  then have "\<exists>c. config_load (be_viper (boot_ref b)) (be_frac (boot_ref b)) = Inr c \<and> gc_master_key c = b
      \<and> gc_sync_batch_size c = 500 \<and> gc_redis_addr c = ''r''"
    using assms by (simp add: config_load_def boot_ref_def viper_ref_def required_settings_def default_settings Let_def)
  then show ?thesis
    by (auto simp: must_run_def bootstrap_run_def new_pool_def redis_new_client_def boot_ref_def sync_world_ref_def Let_def)
qed

lemma sync_main_mirror_witness:
  "\<exists>v w'. sync_main (sync_service_ref v (key_to_base64 (replicate 32 7)) [sample_src ''B2'' 2000000, sample_src ''A1'' 1000000])
       [(sync_ref (\<lambda>_. ([], None)), ''r1'')] sync_world_ref = (ServiceReturns, w')
     \<and> mirror_upto (wm_of ''karyawan'' (yw_db w')) (vps_rows [sample_src ''B2'' 2000000, sample_src ''A1'' 1000000]) (db_kar (yw_db w'))
     \<and> yw_sources w' = 0"
proof -
  let ?t = "[sample_src ''B2'' 2000000, sample_src ''A1'' 1000000]" and ?k = "key_to_base64 (replicate 32 7)"
  let ?rnd = "\<lambda>n. Inr (replicate n 9) :: goerr + bytes" and ?p = "[(sync_ref (\<lambda>_. ([], None)), ''r1'')]"
  have "\<exists>ct. crypto_encrypt ?rnd (replicate 32 7) ''pw'' = Inr ct" by (simp add: crypto_encrypt_ok_iff key_size_def)
  then obtain v where v: "set_encrypted_password ?rnd ''pw'' (replicate 32 7) zero_vps = Inr v"
    by (auto simp: set_encrypted_password_def)
  have rnd: "rand_fills ?rnd" by (auto simp: rand_fills_def)
  have client: "new_client_from_store_config mc_passwd (\<lambda>_. DialOk) (Some v) ?k 500 0 = (Inr \<lparr>vc_batch_size = 500\<rparr>, 1)"
    unfolding new_client_stored_password [OF rnd v] by (simp add: new_client_def)
  let ?env = "sync_service_ref v ?k ?t"
  have "?k \<noteq> []" using key_to_base64_line [of "replicate 32 7"] by (simp add: key_size_def)
  from boot_ref_runs [OF this] obtain d rs where boot: "must_run (boot_ref ?k) (yw_res sync_world_ref) = (Inr d, rs)"
    "gc_master_key (dp_cfg d) = ?k" "gc_sync_batch_size (dp_cfg d) = 500" by blast
  have "fst (sync_main ?env ?p sync_world_ref) = ServiceReturns"
    using boot client
    by (simp add: sync_main_def sync_service_ref_def store_load_def os_read_file_def os_healthy_def sync_world_ref_def
        Let_def split_beta)
  then obtain w' where main: "sync_main ?env ?p sync_world_ref = (ServiceReturns, w')" by (metis prod.collapse)
  have src: "ss_source ?env = ?t" by (simp add: sync_service_ref_def)
  have rows: "keyed my_nik_hris ?t" "inj_on vr_updated_at (set (vps_rows ?t))"
    "mirror_upto (wm_of ''karyawan'' (yw_db sync_world_ref)) (vps_rows ?t) (db_kar (yw_db sync_world_ref))"
    by (auto simp: vps_rows_def map_filter_def sample_scan keyed_def mirror_upto_def sync_world_ref_def empty_db_def
        wm_of_def wm_state_def) (simp_all add: sample_src_def)
  have "list_all (\<lambda>p. read_faults_proper (fst p)) ?p" by (simp add: healthy_proper [OF sync_ref_healthy])
  from sync_main_mirror [of ?env, unfolded src, OF rows(1,2) this rows(3)] main show ?thesis
    by (auto simp: sync_world_ref_def)
qed

end
