(* ===== verification/Logger.thy ===== *)
theory Logger
  imports Bootstrap
begin

text \<open>
  \<open>internal/logger/logger.go\<close>: the process-wide logger that \<open>bootstrap.Run\<close> sets up from \<open>LOG_LEVEL\<close>.
  The logging library is a parameter: its \<open>ParseLevel\<close>, over its numbers of the levels.
\<close>

record logger =
  lg_level :: int
  lg_time_field :: string
  lg_out :: string
  lg_console_time :: string

type_synonym parse_level = "string \<Rightarrow> goerr + int"

abbreviation info_level :: int where
  "info_level \<equiv> 1"

text \<open>\<open>TimeFormatUnix\<close> is the empty string.\<close>

definition logger_init :: "parse_level \<Rightarrow> string \<Rightarrow> logger" where
  "logger_init parse level =
     \<lparr>lg_level = (case parse (to_lower level) of Inl e \<Rightarrow> info_level | Inr l \<Rightarrow> l),
      lg_time_field = [], lg_out = ''stderr'', lg_console_time = ''15:04:05''\<rparr>"

text \<open>The call in \<open>Run\<close>: between the configuration and the pool, so also on a failing start.\<close>

definition bootstrap_logger :: "parse_level \<Rightarrow> boot_env \<Rightarrow> logger \<Rightarrow> logger" where
  "bootstrap_logger parse env lg =
     (case config_load (be_viper env) (be_frac env) of
        Inl e \<Rightarrow> lg
      | Inr cfg \<Rightarrow> logger_init parse (gc_log_level cfg))"

lemma ascii_lower_idem [simp]: "ascii_lower (ascii_lower c) = ascii_lower c"
proof (cases "65 \<le> (of_char c :: nat) \<and> (of_char c :: nat) \<le> 90")
  case True
  then have "of_char (ascii_lower c) = (of_char c + 32 :: nat)"
    by (simp add: ascii_lower_def Let_def of_char_of)
  with True show ?thesis by (simp add: ascii_lower_def [of "ascii_lower c"] Let_def)
qed (auto simp: ascii_lower_def Let_def)

lemma logger_level_case: "logger_init parse (to_lower level) = logger_init parse level"
  by (simp add: logger_init_def o_def)

lemma logger_level_fallback: "parse (to_lower level) = Inl e \<Longrightarrow> lg_level (logger_init parse level) = info_level"
  by (simp add: logger_init_def)

end
