(* ===== verification/Gateway.thy ===== *)
theory Gateway
  imports Api Sync Machine
begin

text \<open>
  The running gateway: requests in flight side by side, each cut at the calls by which
  \<open>internal/server/server.go\<close> chains the middlewares of \<open>internal/api/middleware.go\<close> and the handlers
  of \<open>internal/api/handlers.go\<close>, and a listing also between its two statements, over the tables that the other commands write. Between two steps
  of a request another request, a detached last-use write, a synchronisation pass, a run of the
  setup command, an operator's revocation or a restart of the API can take place. A request that is
  not interleaved is the function \<open>router\<close> of \<^theory_text>\<open>Api\<close>.
\<close>

section \<open>The stages of a request\<close>

text \<open>\<open>APIKeyAuth\<close> up to its call of the next handler: a reply, or the key's id.\<close>

definition auth_stage :: "api_env \<Rightarrow> request \<Rightarrow> gateway \<Rightarrow> (response + string) \<times> gateway" where
  "auth_stage env rq w =
     (let raw = get_first (rq_header rq) ''X-Api-Key''
      in if raw = [] then (Inl (write_err 401 ''missing_api_key''), w)
         else case get_by_hash (ae_pg env) (hash_api_key raw) (gw_keys w) of
             Inl e \<Rightarrow>
               if is_not_found_err e then (Inl (write_err 401 ''invalid_api_key''), w)
               else (Inl (write_err 503 ''auth_backend_unavailable''), w)
           | Inr entry \<Rightarrow> (Inr (en_id entry), w\<lparr>gw_pending := gw_pending w @ [en_id entry]\<rparr>))"

text \<open>\<open>RateLimit\<close> up to its call of the next handler: a reply, or none; absent when it is not installed.\<close>

definition limit_stage :: "server_config \<Rightarrow> api_env \<Rightarrow> string \<Rightarrow> gateway \<Rightarrow> response option \<times> gateway" where
  "limit_stage cfg env key_id w =
     (if \<not> (sv_has_redis cfg \<and> sv_rate_limit_rpm cfg > 0) \<or> key_id = [] then (None, w)
      else case allow (ae_redis env) (ae_now env) (ae_redis_now env) (''apikey:'' @ key_id) (sv_rate_limit_rpm cfg) minute
             (gw_redis w) (gw_metrics w) of
          (r, ks, ms) \<Rightarrow>
            (case r of
               AllowPanic \<Rightarrow> Some \<lparr>rs_status = 500, rs_content_type = [], rs_body = []\<rparr>
             | AllowReturns allowed (Some e) \<Rightarrow> None
             | AllowReturns allowed None \<Rightarrow> if \<not> allowed then Some (write_err 429 ''rate_limited'') else None,
             w\<lparr>gw_redis := ks, gw_metrics := ms\<rparr>))"

definition handle_stage :: "route \<Rightarrow> handler" where
  "handle_stage r = (if r = RList then handle_list else handle_get)"

lemma api_chain_stages:
  "api_chain cfg h env ctx rq w =
     (case auth_stage env rq w of
        (Inl resp, w1) \<Rightarrow> (resp, w1)
      | (Inr i, w1) \<Rightarrow>
          (case limit_stage cfg env i w1 of
             (Some resp, w2) \<Rightarrow> (resp, w2)
           | (None, w2) \<Rightarrow> h env (Some i) rq w2))"
  by (simp add: api_chain_def api_key_auth_def auth_stage_def limit_stage_def rate_limit_def Let_def
      split: sum.split prod.split allow_result.split option.split)

section \<open>The machine\<close>

text \<open>
  An API request is before the key lookup, before the limiter, before its handler, or, if it is a
  listing, between its count and its page, with the table that was counted. A reply that a
  handler wrote is logged with the key's id. \<open>gt_admits\<close> records what the limiter let through:
  the key's id and the time in milliseconds.
\<close>

datatype flight =
    FRouted route request
  | FAuthed string route request
  | FServing string route request
  | FCounted string request "kar_row list"

record served =
  sd_route :: "route option"
  sd_request :: request
  sd_key :: "string option"
  sd_response :: response

record gate =
  gt_w :: gateway
  gt_state :: "state_row list"
  gt_runs :: "run_row list"
  gt_flight :: "nat \<Rightarrow> flight option"
  gt_log :: "served list"
  gt_admits :: "(string \<times> int) list"

text \<open>What can happen, each event with the behaviour of the services it meets.\<close>

datatype event =
    EvArrive nat request
  | EvAuth nat api_env
  | EvLimit nat api_env
  | EvCount nat
  | EvHandle nat api_env
  | EvAudit api_env nat
  | EvSync sync_env syncer string
  | EvSetup pgenv micros "key_entry option"
  | EvRevoke string
  | EvRestart

definition reply :: "nat \<Rightarrow> served \<Rightarrow> gateway \<Rightarrow> gate \<Rightarrow> gate" where
  "reply p x w g = g\<lparr>gt_w := w, gt_flight := (gt_flight g)(p := None), gt_log := gt_log g @ [x]\<rparr>"

definition advance :: "nat \<Rightarrow> flight \<Rightarrow> gateway \<Rightarrow> gate \<Rightarrow> gate" where
  "advance p f w g = g\<lparr>gt_w := w, gt_flight := (gt_flight g)(p := Some f)\<rparr>"

definition revoke_keys :: "string \<Rightarrow> key_row list \<Rightarrow> key_row list" where
  "revoke_keys i t = sql_update (\<lambda>r. kk_id r = i) (\<lambda>r. r\<lparr>kk_revoked := True\<rparr>) t"

text \<open>The reply of a request that matches no route of the API, whose chain is empty.\<close>

definition plain_reply :: "chi_result \<Rightarrow> (rl_metrics \<Rightarrow> response) \<Rightarrow> gateway \<Rightarrow> response option" where
  "plain_reply c prom w =
     (case c of
        ChiNotFound \<Rightarrow> Some \<lparr>rs_status = 404, rs_content_type = ''text/plain'', rs_body = ''404 page not found'' @ nl\<rparr>
      | ChiMethodNotAllowed \<Rightarrow> Some \<lparr>rs_status = 405, rs_content_type = [], rs_body = []\<rparr>
      | ChiRoute r params \<Rightarrow>
          (case r of
             RHealthz \<Rightarrow> Some \<lparr>rs_status = 200, rs_content_type = [], rs_body = ''ok''\<rparr>
           | RMetrics \<Rightarrow> Some (prom (gw_metrics w))
           | RList \<Rightarrow> None
           | RGet \<Rightarrow> None))"

definition chi_route :: "chi_result \<Rightarrow> route option" where
  "chi_route c = (case c of ChiRoute r params \<Rightarrow> Some r | ChiNotFound \<Rightarrow> None | ChiMethodNotAllowed \<Rightarrow> None)"

inductive gate_step ::
  "server_config \<Rightarrow> chi \<Rightarrow> (rl_metrics \<Rightarrow> response) \<Rightarrow> gate \<Rightarrow> event \<Rightarrow> gate \<Rightarrow> bool"
  for cfg :: server_config and chi :: chi and prom :: "rl_metrics \<Rightarrow> response" where
  arrive_plain:
    "gt_flight g p = None \<Longrightarrow> plain_reply (chi (server_routes cfg) rq) prom (gt_w g) = Some resp \<Longrightarrow>
     gate_step cfg chi prom g (EvArrive p rq)
       (reply p \<lparr>sd_route = chi_route (chi (server_routes cfg) rq), sd_request = rq, sd_key = None, sd_response = resp\<rparr> (gt_w g) g)"
| arrive_api:
    "gt_flight g p = None \<Longrightarrow> chi (server_routes cfg) rq = ChiRoute r params \<Longrightarrow> r = RList \<or> r = RGet \<Longrightarrow>
     gate_step cfg chi prom g (EvArrive p rq) (advance p (FRouted r (rq\<lparr>rq_params := params\<rparr>)) (gt_w g) g)"
| auth_fails:
    "gt_flight g p = Some (FRouted r rq) \<Longrightarrow> auth_stage env rq (gt_w g) = (Inl resp, w) \<Longrightarrow>
     gate_step cfg chi prom g (EvAuth p env)
       (reply p \<lparr>sd_route = Some r, sd_request = rq, sd_key = None, sd_response = resp\<rparr> w g)"
| auth_passes:
    "gt_flight g p = Some (FRouted r rq) \<Longrightarrow> auth_stage env rq (gt_w g) = (Inr i, w) \<Longrightarrow>
     gate_step cfg chi prom g (EvAuth p env) (advance p (FAuthed i r rq) w g)"
| limit_denies:
    "gt_flight g p = Some (FAuthed i r rq) \<Longrightarrow> limit_stage cfg env i (gt_w g) = (Some resp, w) \<Longrightarrow>
     gate_step cfg chi prom g (EvLimit p env)
       (reply p \<lparr>sd_route = Some r, sd_request = rq, sd_key = None, sd_response = resp\<rparr> w g)"
| limit_admits:
    "gt_flight g p = Some (FAuthed i r rq) \<Longrightarrow> limit_stage cfg env i (gt_w g) = (None, w) \<Longrightarrow>
     gate_step cfg chi prom g (EvLimit p env)
       ((advance p (FServing i r rq) w g)\<lparr>gt_admits := gt_admits g @ [(i, ae_now env)]\<rparr>)"
| handle:
    "gt_flight g p = Some (FServing i r rq) \<Longrightarrow> r \<noteq> RList \<Longrightarrow> handle_get env (Some i) rq (gt_w g) = (resp, w) \<Longrightarrow>
     gate_step cfg chi prom g (EvHandle p env)
       (reply p \<lparr>sd_route = Some r, sd_request = rq, sd_key = Some i, sd_response = resp\<rparr> w g)"
| count:
    "gt_flight g p = Some (FServing i RList rq) \<Longrightarrow>
     gate_step cfg chi prom g (EvCount p) (advance p (FCounted i rq (gw_kar (gt_w g))) (gt_w g) g)"
| page:
    "gt_flight g p = Some (FCounted i rq t0) \<Longrightarrow> handle_list_at t0 env (Some i) rq (gt_w g) = (resp, w) \<Longrightarrow>
     gate_step cfg chi prom g (EvHandle p env)
       (reply p \<lparr>sd_route = Some RList, sd_request = rq, sd_key = Some i, sd_response = resp\<rparr> w g)"
| audit:
    "gate_step cfg chi prom g (EvAudit env n) (g\<lparr>gt_w := run_pending env n (gt_w g)\<rparr>)"
| sync_pass:
    "sync_karyawan env s run_id \<lparr>db_kar = gw_kar (gt_w g), db_state = gt_state g, db_runs = gt_runs g\<rparr> = (res, db) \<Longrightarrow>
     gate_step cfg chi prom g (EvSync env s run_id)
       (g\<lparr>gt_w := (gt_w g)\<lparr>gw_kar := db_kar db\<rparr>, gt_state := db_state db, gt_runs := db_runs db\<rparr>)"
| setup_key:
    "gate_step cfg chi prom g (EvSetup pg now eo)
       (g\<lparr>gt_w := (gt_w g)\<lparr>gw_keys := snd (insert_api_key pg now eo (gw_keys (gt_w g)))\<rparr>\<rparr>)"
| revoke:
    "gate_step cfg chi prom g (EvRevoke i) (g\<lparr>gt_w := (gt_w g)\<lparr>gw_keys := revoke_keys i (gw_keys (gt_w g))\<rparr>\<rparr>)"
| restart:
    "gate_step cfg chi prom g EvRestart
       (g\<lparr>gt_w := (gt_w g)\<lparr>gw_metrics := no_metrics, gw_pending := []\<rparr>, gt_flight := (\<lambda>_. None)\<rparr>)"

inductive_cases gate_stepE: "gate_step cfg chi prom g e g'"
inductive_cases limitE: "gate_step cfg chi prom g (EvLimit p env) g'"

abbreviation gate_reaches ::
  "server_config \<Rightarrow> chi \<Rightarrow> (rl_metrics \<Rightarrow> response) \<Rightarrow> (event \<Rightarrow> bool) \<Rightarrow> gate \<Rightarrow> gate \<Rightarrow> bool" where
  "gate_reaches cfg chi prom \<equiv> reaches (gate_step cfg chi prom)"

lemmas reaches_one = reaches_step [where step = "gate_step cfg chi prom" for cfg chi prom]
lemmas reaches_next = reaches_cons [where step = "gate_step cfg chi prom" for cfg chi prom]

lemma reply_simps [simp]:
  "gt_w (reply p x w g) = w" "gt_log (reply p x w g) = gt_log g @ [x]" "gt_admits (reply p x w g) = gt_admits g"
  "gt_flight (reply p x w g) = (gt_flight g)(p := None)" "gt_state (reply p x w g) = gt_state g" "gt_runs (reply p x w g) = gt_runs g"
  "gt_w (advance p f w g) = w" "gt_log (advance p f w g) = gt_log g" "gt_admits (advance p f w g) = gt_admits g"
  "gt_flight (advance p f w g) = (gt_flight g)(p := Some f)" "gt_state (advance p f w g) = gt_state g" "gt_runs (advance p f w g) = gt_runs g"
  by (simp_all add: reply_def advance_def)

section \<open>An undisturbed request\<close>

lemma handle_stage_frame: "snd (handle_stage r env ctx rq w) = w" "snd (handle_list_at t0 env ctx rq w) = w"
  "snd (handle_get env ctx rq w) = w"
  by (simp_all add: handle_stage_def handle_list_def handle_list_at_def handle_get_def Let_def
      split: sum.split prod.split option.split)

text \<open>A request that has reached its handler: the get in one step, a listing in two.\<close>

lemma serving_replies:
  assumes I: "I (EvCount p)" "I (EvHandle p env)"
    and f: "gt_flight g p = Some (FServing i r rq)" and h: "handle_stage r env (Some i) rq (gt_w g) = (resp, w)"
  shows "\<exists>g' x. gate_reaches cfg chi prom I g g' \<and> gt_w g' = w \<and> gt_flight g' = (gt_flight g)(p := None)
    \<and> gt_log g' = gt_log g @ [x] \<and> sd_response x = resp \<and> sd_route x = Some r \<and> sd_request x = rq"
proof (cases "r = RList")
  case True
  let ?g1 = "advance p (FCounted i rq (gw_kar (gt_w g))) (gt_w g) g"
  have s1: "gate_step cfg chi prom g (EvCount p) ?g1" using f True by (intro gate_step.count) simp
  have "handle_list_at (gw_kar (gt_w g)) env (Some i) rq (gt_w ?g1) = (resp, w)"
    using h True by (simp add: handle_stage_def handle_list_def)
  from gate_step.page [where g = ?g1, OF _ this]
  have "gate_step cfg chi prom ?g1 (EvHandle p env)
      (reply p \<lparr>sd_route = Some RList, sd_request = rq, sd_key = Some i, sd_response = resp\<rparr> w ?g1)" by simp
  from reaches_next [where I = I, OF I(1) s1 reaches_one [where I = I, OF I(2) this]] True show ?thesis
    by (intro exI conjI) auto
next
  case False
  with h have "handle_get env (Some i) rq (gt_w g) = (resp, w)" by (simp add: handle_stage_def)
  from reaches_one [where I = I, OF I(2) gate_step.handle [OF f False this]] show ?thesis
    by (intro exI conjI) auto
qed

text \<open>The rest of a request that has been routed.\<close>

lemma chain_is_steps:
  assumes I: "I (EvAuth p env)" "I (EvLimit p env)" "I (EvCount p)" "I (EvHandle p env)"
    and f: "gt_flight g p = Some (FRouted r rq)"
    and chain: "api_chain cfg (handle_stage r) env ctx rq (gt_w g) = (resp, w)"
  shows "\<exists>g' x. gate_reaches cfg chi prom I g g' \<and> gt_w g' = w \<and> gt_flight g' = (gt_flight g)(p := None)
    \<and> gt_log g' = gt_log g @ [x] \<and> sd_response x = resp \<and> sd_route x = Some r \<and> sd_request x = rq"
proof -
  obtain a w1 where auth: "auth_stage env rq (gt_w g) = (a, w1)" by fastforce
  show ?thesis
  proof (cases a)
    case (Inl q)
    with chain auth have "q = resp" "w1 = w" by (simp_all add: api_chain_stages)
    from reaches_one [where I = I, OF I(1) gate_step.auth_fails [OF f auth [unfolded Inl this]]] show ?thesis
      by (intro exI conjI) auto
  next
    case (Inr i)
    let ?g1 = "advance p (FAuthed i r rq) w1 g"
    have s1: "gate_step cfg chi prom g (EvAuth p env) ?g1" using gate_step.auth_passes [OF f] auth Inr by simp
    obtain l w2 where lim: "limit_stage cfg env i w1 = (l, w2)" by fastforce
    then have lim1: "limit_stage cfg env i (gt_w ?g1) = (l, w2)" by simp
    show ?thesis
    proof (cases l)
      case (Some q)
      with chain auth Inr lim have "q = resp" "w2 = w" by (simp_all add: api_chain_stages)
      with lim1 Some have "gate_step cfg chi prom ?g1 (EvLimit p env)
          (reply p \<lparr>sd_route = Some r, sd_request = rq, sd_key = None, sd_response = resp\<rparr> w ?g1)"
        by (intro gate_step.limit_denies) simp_all
      from reaches_next [where I = I, OF I(1) s1 reaches_one [where I = I, OF I(2) this]] show ?thesis
        by (intro exI conjI) auto
    next
      case None
      let ?g2 = "(advance p (FServing i r rq) w2 ?g1)\<lparr>gt_admits := gt_admits ?g1 @ [(i, ae_now env)]\<rparr>"
      have s2: "gate_step cfg chi prom ?g1 (EvLimit p env) ?g2"
        using lim1 None by (intro gate_step.limit_admits) simp_all
      have h: "handle_stage r env (Some i) rq (gt_w ?g2) = (resp, w)"
        using chain auth Inr lim None by (simp add: api_chain_stages)
      have "gt_flight ?g2 p = Some (FServing i r rq)" by simp
      from serving_replies [where I = I, OF I(3,4) this h]
      obtain g' x where "gate_reaches cfg chi prom I ?g2 g'" "gt_w g' = w" "gt_flight g' = (gt_flight ?g2)(p := None)"
        "gt_log g' = gt_log ?g2 @ [x]" "sd_response x = resp" "sd_route x = Some r" "sd_request x = rq" by blast
      with reaches_next [where I = I, OF I(1) s1 reaches_next [where I = I, OF I(2) s2]] show ?thesis
        by (intro exI [of _ g'] exI [of _ x]) auto
    qed
  qed
qed

section \<open>What the steps keep\<close>

lemma auth_stage_ok:
  "auth_stage env rq w = (Inr i, w') \<Longrightarrow>
   (\<exists>r \<in> set (gw_keys w). live_key (hash_api_key (get_first (rq_header rq) ''X-Api-Key'')) r \<and> kk_id r = i)
     \<and> w' = w\<lparr>gw_pending := gw_pending w @ [i]\<rparr>"
  by (auto simp: auth_stage_def Let_def scan_key_def dest!: get_by_hash_ok split: if_splits sum.splits)

lemma auth_stage_err:
  "auth_stage env rq w = (Inl resp, w') \<Longrightarrow> w' = w \<and> rs_status resp \<in> {401, 503}"
  by (auto simp: auth_stage_def Let_def write_err_def write_json_def split: if_splits sum.splits)

lemma limit_stage_frame:
  "limit_stage cfg env i w = (l, w') \<Longrightarrow> \<exists>ks ms. w' = w\<lparr>gw_redis := ks, gw_metrics := ms\<rparr>"
proof -
  assume a: "limit_stage cfg env i w = (l, w')"
  show ?thesis
  proof (cases "\<not> (sv_has_redis cfg \<and> sv_rate_limit_rpm cfg > 0) \<or> i = []")
    case True
    with a have "w' = w\<lparr>gw_redis := gw_redis w, gw_metrics := gw_metrics w\<rparr>" by (auto simp: limit_stage_def)
    then show ?thesis by blast
  next
    case False
    with a show ?thesis by (auto simp: limit_stage_def split: prod.splits)
  qed
qed

lemma run_pending_frame:
  "gw_redis (run_pending env n w) = gw_redis w" "gw_kar (run_pending env n w) = gw_kar w"
  by (simp_all add: run_pending_def)

section \<open>A revoked key\<close>

text \<open>No live row has the hash, and the rows of the ids in \<open>R\<close> are revoked.\<close>

definition key_locked :: "string \<Rightarrow> string set \<Rightarrow> key_row list \<Rightarrow> bool" where
  "key_locked h R t \<longleftrightarrow> keyed kk_id t \<and> \<not> (\<exists>r \<in> set t. live_key h r)
     \<and> (\<forall>i \<in> R. \<exists>r. sql_find kk_id i t = Some r \<and> kk_revoked r)"

lemma key_locked_update:
  assumes "key_locked h R t" and "\<And>r. kk_id (f r) = kk_id r" and "\<And>r. live_key h (f r) \<Longrightarrow> live_key h r"
    and "\<And>r. kk_revoked r \<Longrightarrow> kk_revoked (f r)"
  shows "key_locked h R (sql_update P f t)"
proof -
  have "\<exists>r. sql_find kk_id i (sql_update P f t) = Some r \<and> kk_revoked r" if "i \<in> R" for i
  proof -
    from assms(1) that obtain r where "sql_find kk_id i t = Some r" "kk_revoked r"
      by (auto simp: key_locked_def)
    then show ?thesis by (simp add: sql_find_update [where key = kk_id and f = f, OF assms(2)] assms(4))
  qed
  with assms(1,3) show ?thesis
    by (auto simp: key_locked_def keyed_sql_update [where key = kk_id and f = f, OF assms(2)] set_sql_update split: if_splits)
qed

lemma key_locked_mark: "key_locked h R t \<Longrightarrow> key_locked h R (snd (mark_used pg now i t))"
  by (auto simp: mark_used_def Let_def live_key_def split: option.split intro!: key_locked_update)

lemma key_locked_revoke: "key_locked h R t \<Longrightarrow> key_locked h R (revoke_keys i t)"
  by (auto simp: revoke_keys_def live_key_def intro!: key_locked_update)

lemma key_locked_insert:
  assumes "key_locked h R t" and "\<And>e. eo = Some e \<Longrightarrow> en_hash e \<noteq> h \<or> en_id e \<in> R"
  shows "key_locked h R (snd (insert_api_key pg now eo t))"
proof -
  consider "snd (insert_api_key pg now eo t) = t"
    | e where "eo = Some e" "snd (insert_api_key pg now eo t) = sql_upsert kk_id key_merge (new_key_row now e) t"
    using insert_api_key_cases by metis
  then show ?thesis
  proof cases
    case (2 e)
    let ?t = "sql_upsert kk_id key_merge (new_key_row now e) t"
    have k: "keyed kk_id t" "keyed kk_id ?t" using assms(1) key_table.keyed_upsert by (auto simp: key_locked_def)
    have "\<not> live_key h x" if x: "x \<in> set ?t" for x
    proof
      assume live: "live_key h x"
      from sql_find_keyed [OF k(2) x] have f: "sql_find kk_id (kk_id x) ?t = Some x" .
      show False
      proof (cases "kk_id x = en_id e")
        case False
        with f have "x \<in> set t" by (auto simp: key_table.find_upsert dest: sql_find_SomeD)
        with assms(1) live show False by (auto simp: key_locked_def)
      next
        case True
        with f have x': "x = (case sql_find kk_id (en_id e) t of None \<Rightarrow> new_key_row now e | Some old \<Rightarrow> key_merge old (new_key_row now e))"
          by (simp add: key_table.find_upsert)
        then have "kk_hash x = en_hash e" by (simp add: new_key_row_def key_merge_def split: option.splits)
        with live assms(2) 2(1) have "en_id e \<in> R" by (auto simp: live_key_def)
        with assms(1) obtain r where "sql_find kk_id (en_id e) t = Some r" "kk_revoked r" by (auto simp: key_locked_def)
        with x' live show False by (simp add: live_key_def key_merge_def)
      qed
    qed
    moreover have "\<exists>r. sql_find kk_id i ?t = Some r \<and> kk_revoked r" if "i \<in> R" for i
    proof -
      from assms(1) that obtain r where "sql_find kk_id i t = Some r" "kk_revoked r" by (auto simp: key_locked_def)
      then show ?thesis by (auto simp: key_table.find_upsert key_merge_def)
    qed
    ultimately show ?thesis using 2 k by (simp add: key_locked_def)
  qed (use assms(1) in simp)
qed

abbreviation presented :: "request \<Rightarrow> string" where
  "presented rq \<equiv> hash_api_key (get_first (rq_header rq) ''X-Api-Key'')"

fun past_auth :: "flight option \<Rightarrow> string option" where
  "past_auth (Some (FAuthed i r rq)) = Some (presented rq)"
| "past_auth (Some (FServing i r rq)) = Some (presented rq)"
| "past_auth (Some (FCounted i rq t0)) = Some (presented rq)"
| "past_auth _ = None"

definition locked_out :: "string \<Rightarrow> string set \<Rightarrow> gate \<Rightarrow> bool" where
  "locked_out h R g \<longleftrightarrow> key_locked h R (gw_keys (gt_w g)) \<and> (\<forall>p. past_auth (gt_flight g p) \<noteq> Some h)"

text \<open>The setup command does not bring the hash back under an id that is not revoked.\<close>

definition no_revival :: "string \<Rightarrow> string set \<Rightarrow> event \<Rightarrow> bool" where
  "no_revival h R e \<longleftrightarrow>
     (case e of EvSetup pg now (Some en) \<Rightarrow> en_hash en \<noteq> h \<or> en_id en \<in> R | _ \<Rightarrow> True)"

definition refused :: "string \<Rightarrow> served \<Rightarrow> bool" where
  "refused h x \<longleftrightarrow>
     (presented (sd_request x) = h \<and> (sd_route x = Some RList \<or> sd_route x = Some RGet) \<longrightarrow>
        sd_key x = None \<and> rs_status (sd_response x) \<in> {401, 503})"

lemma locked_out_step:
  assumes "gate_step cfg chi prom g e g'" and "no_revival h R e" and "locked_out h R g"
  shows "locked_out h R g' \<and> (\<exists>new. gt_log g' = gt_log g @ new \<and> list_all (refused h) new)"
  using assms
proof (cases rule: gate_step.cases)
  case (arrive_plain p rq resp)
  then have "refused h \<lparr>sd_route = chi_route (chi (server_routes cfg) rq), sd_request = rq, sd_key = None, sd_response = resp\<rparr>"
    by (auto simp: refused_def plain_reply_def chi_route_def split: chi_result.splits route.splits)
  with arrive_plain assms(3) show ?thesis by (auto simp: locked_out_def)
next
  case (auth_fails p r rq env resp w)
  from auth_stage_err [OF auth_fails(4)] assms(3) auth_fails show ?thesis
    by (auto simp: locked_out_def refused_def)
next
  case (auth_passes p r rq env i w)
  from auth_stage_ok [OF auth_passes(4)] assms(3) auth_passes show ?thesis
    by (auto simp: locked_out_def key_locked_def)
next
  case (limit_denies p i r rq env resp w)
  then have "presented rq \<noteq> h" using assms(3) by (metis locked_out_def past_auth.simps(1))
  with limit_denies limit_stage_frame [OF limit_denies(4)] assms(3) show ?thesis
    by (auto simp: locked_out_def refused_def)
next
  case (limit_admits p i r rq env w)
  then have "presented rq \<noteq> h" using assms(3) by (metis locked_out_def past_auth.simps(1))
  with limit_admits limit_stage_frame [OF limit_admits(4)] assms(3) show ?thesis
    by (auto simp: locked_out_def)
next
  case (handle p i r rq env resp w)
  then have "presented rq \<noteq> h" using assms(3) by (metis locked_out_def past_auth.simps(2))
  moreover have "w = gt_w g" using handle(5) handle_stage_frame(3) by (metis snd_conv)
  ultimately show ?thesis using handle assms(3) by (auto simp: locked_out_def refused_def)
next
  case (count p i rq)
  then have "presented rq \<noteq> h" using assms(3) by (metis locked_out_def past_auth.simps(2))
  with count assms(3) show ?thesis by (auto simp: locked_out_def)
next
  case (page p i rq t0 env resp w)
  then have "presented rq \<noteq> h" using assms(3) by (metis locked_out_def past_auth.simps(3))
  moreover have "w = gt_w g" using page(4) handle_stage_frame(2) by (metis snd_conv)
  ultimately show ?thesis using page assms(3) by (auto simp: locked_out_def refused_def)
next
  case (audit env n)
  then show ?thesis using assms(3) by (simp add: locked_out_def run_pending_def key_locked_mark)
next
  case (setup_key pg now eo)
  then show ?thesis
    using assms(2,3) key_locked_insert [of h R "gw_keys (gt_w g)" eo pg now]
    by (auto simp: locked_out_def no_revival_def split: option.splits)
next
  case (revoke i)
  then show ?thesis using assms(3) by (simp add: locked_out_def key_locked_revoke)
qed (auto simp: locked_out_def)

text \<open>The replies since then satisfy a predicate.\<close>

definition logged_since :: "(served \<Rightarrow> bool) \<Rightarrow> gate \<Rightarrow> gate \<Rightarrow> bool" where
  "logged_since P g g' \<longleftrightarrow> (\<exists>new. gt_log g' = gt_log g @ new \<and> list_all P new)"

lemma logged_since_refl: "logged_since P g g"
  by (simp add: logged_since_def)

lemma logged_since_trans: "logged_since P g g' \<Longrightarrow> logged_since P g' g'' \<Longrightarrow> logged_since P g g''"
  by (auto simp: logged_since_def)

interpretation lockout: machine_progress "gate_step cfg chi prom" "no_revival h R" "locked_out h R" "logged_since (refused h)"
  for cfg chi prom h R
proof
  show "gate_step cfg chi prom g e g' \<Longrightarrow> no_revival h R e \<Longrightarrow> locked_out h R g \<Longrightarrow> locked_out h R g'" for g e g'
    using locked_out_step by blast
  show "gate_step cfg chi prom g e g' \<Longrightarrow> no_revival h R e \<Longrightarrow> locked_out h R g \<Longrightarrow> logged_since (refused h) g g'" for g e g'
    using locked_out_step unfolding logged_since_def by blast
qed (auto intro: logged_since_refl logged_since_trans)

section \<open>The limit across requests in flight\<close>

definition admissions :: "string \<Rightarrow> int \<Rightarrow> (string \<times> int) list \<Rightarrow> nat" where
  "admissions k b adm = length (filter (\<lambda>(i, t). i = k \<and> t div 60000 = b) adm)"

text \<open>Redis answers, and reads the same clock as the service.\<close>

definition on_clock :: "event \<Rightarrow> bool" where
  "on_clock e \<longleftrightarrow>
     (case e of EvLimit p env \<Rightarrow> ae_redis env = redis_ok \<and> 0 \<le> ae_now env \<and> ae_redis_now env = ae_now env | _ \<Rightarrow> True)"

definition limit_inv :: "int \<Rightarrow> gate \<Rightarrow> bool" where
  "limit_inv rpm g \<longleftrightarrow> ks_ok minute (gw_redis (gt_w g))
     \<and> (\<forall>k b. k \<noteq> [] \<longrightarrow> int (admissions k (int b) (gt_admits g)) = min (rl_count (gw_redis (gt_w g)) (''apikey:'' @ k, b)) rpm)"

lemma minute_millis: "duration_millis minute = 60000" "rl_slot minute (k, n) = (k, n div 60000)"
  by (simp_all add: minute_def duration_millis_pos rl_slot_def)

lemma limit_stage_healthy:
  assumes "sv_has_redis cfg" and "0 < sv_rate_limit_rpm cfg" and "k \<noteq> []" and "on_clock (EvLimit p env)"
  shows "\<exists>ms. limit_stage cfg env k w =
    (let (d, ks) = rl_step (sv_rate_limit_rpm cfg) minute (''apikey:'' @ k, nat (ae_now env)) (gw_redis w)
     in (if d then None else Some (write_err 429 ''rate_limited''), w\<lparr>gw_redis := ks, gw_metrics := ms\<rparr>))"
proof -
  let ?a = "allow (ae_redis env) (ae_now env) (ae_redis_now env) (''apikey:'' @ k) (sv_rate_limit_rpm cfg) minute (gw_redis w) (gw_metrics w)"
  have m: "\<not> minute \<le> 0" by (simp add: minute_def)
  have "limit_stage cfg env k w =
    (let (d, ks) = rl_step (sv_rate_limit_rpm cfg) minute (''apikey:'' @ k, nat (ae_now env)) (gw_redis w)
     in (if d then None else Some (write_err 429 ''rate_limited''), w\<lparr>gw_redis := ks, gw_metrics := snd (snd ?a)\<rparr>))"
    using assms m by (simp add: limit_stage_def rl_step_def on_clock_def allow_def redis_ok_def minute_millis split_beta Let_def)
  then show ?thesis by blast
qed

lemma limit_decision:
  assumes "limit_inv (sv_rate_limit_rpm cfg) g" and "sv_has_redis cfg" and "0 < sv_rate_limit_rpm cfg"
    and "k \<noteq> []" and "on_clock (EvLimit p env)" and "limit_stage cfg env k (gt_w g) = (l, w)"
  shows "(l = None \<longleftrightarrow> int (admissions k (ae_now env div 60000) (gt_admits g)) < sv_rate_limit_rpm cfg)
    \<and> int (admissions k (ae_now env div 60000) (gt_admits g)) \<le> sv_rate_limit_rpm cfg
    \<and> (\<forall>resp. l = Some resp \<longrightarrow> rs_status resp = 429)
    \<and> ks_ok minute (gw_redis w)
    \<and> (\<forall>kb. rl_count (gw_redis w) kb =
          rl_count (gw_redis (gt_w g)) kb + (if kb = (''apikey:'' @ k, nat (ae_now env) div 60000) then 1 else 0))"
proof -
  let ?rpm = "sv_rate_limit_rpm cfg" and ?q = "(''apikey:'' @ k, nat (ae_now env))" and ?ks = "gw_redis (gt_w g)"
  have ok: "ks_ok minute ?ks" using assms(1) by (simp add: limit_inv_def)
  obtain d ks where d: "rl_step ?rpm minute ?q ?ks = (d, ks)" by fastforce
  obtain ms where "limit_stage cfg env k (gt_w g) =
      (if d then None else Some (write_err 429 ''rate_limited''), (gt_w g)\<lparr>gw_redis := ks, gw_metrics := ms\<rparr>)"
    using limit_stage_healthy [OF assms(2-5), of "gt_w g"] d by auto
  with assms(6) have l: "l = (if d then None else Some (write_err 429 ''rate_limited''))" and w: "gw_redis w = ks" by auto
  note fw = fixed_window.step_admits [OF ok, of ?rpm ?q, unfolded minute_millis d fst_conv]
    fixed_window.step_counts [OF ok, of ?rpm ?q, unfolded minute_millis d snd_conv]
    fixed_window.step_inv [OF ok, of ?rpm ?q, unfolded d snd_conv]
  have "int (nat (ae_now env) div 60000) = ae_now env div 60000"
    using assms(5) by (simp add: on_clock_def zdiv_int)
  then have "int (admissions k (ae_now env div 60000) (gt_admits g)) =
      min (rl_count ?ks (''apikey:'' @ k, nat (ae_now env) div 60000)) ?rpm"
    using assms(1,4) unfolding limit_inv_def by metis
  then show ?thesis using fw l w assms(3) by (auto simp: write_err_def write_json_def split: if_splits)
qed

lemma limit_inv_frame:
  "gw_redis (gt_w g') = gw_redis (gt_w g) \<Longrightarrow> gt_admits g' = gt_admits g \<Longrightarrow> limit_inv rpm g \<Longrightarrow> limit_inv rpm g'"
  by (simp add: limit_inv_def)

lemma admissions_snoc:
  "admissions k b (adm @ [(i, t)]) = admissions k b adm + (if i = k \<and> t div 60000 = b then 1 else 0)"
  by (simp add: admissions_def)

lemma limit_inv_limit:
  assumes "limit_inv (sv_rate_limit_rpm cfg) g" and "sv_has_redis cfg" and "0 < sv_rate_limit_rpm cfg"
    and "on_clock (EvLimit p env)" and "limit_stage cfg env i (gt_w g) = (l, w)"
    and "gt_w g' = w" and "gt_admits g' = gt_admits g @ (if l = None then [(i, ae_now env)] else [])"
  shows "limit_inv (sv_rate_limit_rpm cfg) g'"
proof (cases "i = []")
  case True
  with assms(5) have "w = gt_w g" "l = None" by (auto simp: limit_stage_def)
  with assms(1,6,7) True show ?thesis by (simp add: limit_inv_def admissions_snoc)
next
  case False
  let ?rpm = "sv_rate_limit_rpm cfg" and ?b = "nat (ae_now env) div 60000"
  note dec = limit_decision [OF assms(1-3) False assms(4,5)]
  have t: "int ?b = ae_now env div 60000" using assms(4) by (simp add: on_clock_def zdiv_int)
  have "int (admissions k (int b) (gt_admits g')) = min (rl_count (gw_redis w) (''apikey:'' @ k, b)) ?rpm" if "k \<noteq> []" for k b
  proof -
    have inv: "int (admissions k (int b) (gt_admits g)) = min (rl_count (gw_redis (gt_w g)) (''apikey:'' @ k, b)) ?rpm"
      using assms(1) that unfolding limit_inv_def by blast
    show ?thesis
    proof (cases "k = i \<and> b = ?b")
      case True
      with inv dec t assms(7) show ?thesis by (cases l) (auto simp: admissions_snoc min_def split: if_splits)
    next
      case other: False
      then have "\<not> (i = k \<and> ae_now env div 60000 = int b)" using t by auto
      with inv dec assms(7) other show ?thesis by (auto simp: admissions_snoc)
    qed
  qed
  with dec assms(6) show ?thesis by (simp add: limit_inv_def)
qed

lemma limit_inv_step:
  assumes "gate_step cfg chi prom g e g'" and "on_clock e" and "limit_inv (sv_rate_limit_rpm cfg) g"
    and "sv_has_redis cfg" and "0 < sv_rate_limit_rpm cfg"
  shows "limit_inv (sv_rate_limit_rpm cfg) g'"
  using assms(1)
proof (cases rule: gate_step.cases)
  case (auth_fails p r rq env resp w)
  with auth_stage_err [OF auth_fails(4)] show ?thesis by (intro limit_inv_frame [OF _ _ assms(3)]) auto
next
  case (auth_passes p r rq env i w)
  with auth_stage_ok [OF auth_passes(4)] show ?thesis by (intro limit_inv_frame [OF _ _ assms(3)]) auto
next
  case (limit_denies p i r rq env resp w)
  then show ?thesis using assms(2) by (intro limit_inv_limit [OF assms(3-5) _ limit_denies(4)]) auto
next
  case (limit_admits p i r rq env w)
  then show ?thesis using assms(2) by (intro limit_inv_limit [OF assms(3-5) _ limit_admits(4)]) auto
next
  case (handle p i r rq env resp w)
  then have "w = gt_w g" using handle_stage_frame(3) by (metis snd_conv)
  with handle show ?thesis by (intro limit_inv_frame [OF _ _ assms(3)]) auto
next
  case (page p i rq t0 env resp w)
  then have "w = gt_w g" using handle_stage_frame(2) by (metis snd_conv)
  with page show ?thesis by (intro limit_inv_frame [OF _ _ assms(3)]) auto
qed (use assms(3) in \<open>auto simp: limit_inv_def run_pending_frame\<close>)

text \<open>With a limiter installed.\<close>

definition limiting :: "server_config \<Rightarrow> bool" where
  "limiting cfg \<longleftrightarrow> sv_has_redis cfg \<and> 0 < sv_rate_limit_rpm cfg"

interpretation limited: machine_invariant "gate_step cfg chi prom" on_clock
    "\<lambda>g. limiting cfg \<and> limit_inv (sv_rate_limit_rpm cfg) g"
  for cfg chi prom
  by unfold_locales (auto simp: limiting_def intro: limit_inv_step)

lemma limit_inv_reaches:
  assumes "gate_reaches cfg chi prom on_clock g0 g" and "sv_has_redis cfg" and "0 < sv_rate_limit_rpm cfg"
    and "gw_redis (gt_w g0) = Map.empty" and "gt_admits g0 = []"
  shows "limit_inv (sv_rate_limit_rpm cfg) g"
proof -
  have "limiting cfg \<and> limit_inv (sv_rate_limit_rpm cfg) g0"
    using assms(2-5) by (simp add: limiting_def limit_inv_def rl_count_def admissions_def ks_ok_empty minute_def)
  with limited.reached [OF assms(1)] show ?thesis by blast
qed

section \<open>Properties\<close>

text \<open>
  The router is a schedule of the running gateway: from any state with a free process, a request
  that nothing disturbs leaves the tables, the counters and the pending writes that \<open>router\<close>
  computes, gets the reply that \<open>router\<close> computes, and disturbs no other request in flight.
\<close>

theorem router_is_schedule:
  assumes "gt_flight g p = None"
  shows "\<exists>g' x. gate_reaches cfg chi prom (\<lambda>e. True) g g' \<and> gt_flight g' = gt_flight g \<and> gt_log g' = gt_log g @ [x]
    \<and> (sd_response x, gt_w g') = router cfg chi prom env ctx rq (gt_w g)"
proof (cases "plain_reply (chi (server_routes cfg) rq) prom (gt_w g)")
  case (Some resp)
  have "router cfg chi prom env ctx rq (gt_w g) = (resp, gt_w g)"
    using Some by (auto simp: router_def plain_reply_def Let_def split: chi_result.splits route.splits)
  moreover have "gate_reaches cfg chi prom (\<lambda>e. True) g (reply p
      \<lparr>sd_route = chi_route (chi (server_routes cfg) rq), sd_request = rq, sd_key = None, sd_response = resp\<rparr> (gt_w g) g)"
    by (rule reaches_one [where I = "\<lambda>e. True", OF TrueI
          gate_step.arrive_plain [where cfg = cfg and chi = chi and prom = prom and rq = rq, OF assms Some]])
  ultimately show ?thesis using assms by (metis fun_upd_idem reply_simps(1,2,4) served.select_convs(4))
next
  case None
  then obtain r params where c: "chi (server_routes cfg) rq = ChiRoute r params" "r = RList \<or> r = RGet"
    by (auto simp: plain_reply_def split: chi_result.splits route.splits)
  let ?rq = "rq\<lparr>rq_params := params\<rparr>"
  let ?g1 = "advance p (FRouted r ?rq) (gt_w g) g"
  obtain resp w where chain: "api_chain cfg (handle_stage r) env ctx ?rq (gt_w g) = (resp, w)" by fastforce
  with c have router: "router cfg chi prom env ctx rq (gt_w g) = (resp, w)"
    by (auto simp: router_def handle_stage_def)
  have chain1: "api_chain cfg (handle_stage r) env ctx ?rq (gt_w ?g1) = (resp, w)" using chain by simp
  from chain_is_steps [where I = "\<lambda>e. True" and g = ?g1 and p = p and r = r and rq = ?rq and cfg = cfg and env = env and ctx = ctx,
      OF TrueI TrueI TrueI TrueI _ chain1, where chi = chi and prom = prom]
  obtain g' x where "gate_reaches cfg chi prom (\<lambda>e. True) ?g1 g'" "gt_w g' = w" "gt_flight g' = (gt_flight ?g1)(p := None)"
    "gt_log g' = gt_log ?g1 @ [x]" "sd_response x = resp" by auto
  with reaches_next [where I = "\<lambda>e. True", OF TrueI gate_step.arrive_api [where cfg = cfg and chi = chi and prom = prom and rq = rq, OF assms c]] router
  show ?thesis
    using assms by (intro exI [of _ g'] exI [of _ x]) (auto simp: fun_upd_idem)
qed

text \<open>
  Property C3. A revoked key stays out. Take any state in which no unrevoked row has the hash of a key and no
  request with this key is past its lookup. Then whatever follows, requests of any kind in any
  interleaving, last-use writes, synchronisation passes, restarts, revocations and runs of the
  setup command, even one that upserts this very hash again under a revoked id: every later
  request to the API with this key is answered 401 or 503 and reaches no handler. Only an upsert of
  the hash under an id that is not revoked is excluded.
\<close>

theorem revoked_key_stays_out:
  assumes "gate_reaches cfg chi prom (no_revival h R) g g'"
    and "keyed kk_id (gw_keys (gt_w g))" and "\<not> (\<exists>r \<in> set (gw_keys (gt_w g)). live_key h r)"
    and "\<And>i. i \<in> R \<Longrightarrow> \<exists>r. sql_find kk_id i (gw_keys (gt_w g)) = Some r \<and> kk_revoked r"
    and "\<And>p. past_auth (gt_flight g p) \<noteq> Some h"
  shows "\<exists>new. gt_log g' = gt_log g @ new
    \<and> list_all (\<lambda>x. presented (sd_request x) = h \<and> (sd_route x = Some RList \<or> sd_route x = Some RGet) \<longrightarrow>
         sd_key x = None \<and> rs_status (sd_response x) \<in> {401, 503}) new"
proof -
  have "locked_out h R g" using assms(2-5) by (simp add: locked_out_def key_locked_def)
  from lockout.progress [OF assms(1) this] show ?thesis unfolding logged_since_def refused_def by blast
qed

definition sample_gate :: "bool \<Rightarrow> gate" where
  "sample_gate revoked =
     \<lparr>gt_w = sample_gateway revoked, gt_state = [], gt_runs = [], gt_flight = (\<lambda>_. None), gt_log = [], gt_admits = []\<rparr>"

lemma revoked_key_stays_out_witness:
  "\<exists>g' x. gate_reaches server_ref sample_chi (\<lambda>_. write_err 200 []) (no_revival (hash_api_key ''secret'') {''k1''}) (sample_gate True) g'
     \<and> gt_log g' = [x] \<and> sd_route x = Some RList \<and> rs_status (sd_response x) \<in> {401, 503}"
proof -
  let ?h = "hash_api_key ''secret''" and ?p = "\<lambda>_. write_err 200 []"
  let ?I = "no_revival ?h {''k1''}" and ?rq = "sample_request ''secret'' []"
  let ?g1 = "(sample_gate True)\<lparr>gt_w := (sample_gateway True)\<lparr>gw_keys := snd (insert_api_key pg_ref 9
      (Some (sample_entry ''k1'' ?h)) (gw_keys (sample_gateway True)))\<rparr>\<rparr>"
  let ?g2 = "advance 0 (FRouted RList (?rq\<lparr>rq_params := []\<rparr>)) (gt_w ?g1) ?g1"
  have s1: "gate_step server_ref sample_chi ?p (sample_gate True) (EvSetup pg_ref 9 (Some (sample_entry ''k1'' ?h))) ?g1"
    using gate_step.setup_key [of server_ref sample_chi ?p "sample_gate True"] by (simp add: sample_gate_def)
  have s2: "gate_step server_ref sample_chi ?p ?g1 (EvArrive 0 ?rq) ?g2"
    by (rule gate_step.arrive_api) (simp_all add: sample_gate_def sample_chi_def sample_request_def)
  obtain resp w where chain: "api_chain server_ref (handle_stage RList) api_ref None (?rq\<lparr>rq_params := []\<rparr>) (gt_w ?g2) = (resp, w)"
    by fastforce
  have I: "?I (EvSetup pg_ref 9 (Some (sample_entry ''k1'' ?h)))" "?I (EvArrive 0 ?rq)"
    "?I (EvAuth 0 api_ref)" "?I (EvLimit 0 api_ref)" "?I (EvCount 0)" "?I (EvHandle 0 api_ref)"
    by (simp_all add: no_revival_def sample_entry_def)
  from chain_is_steps [where I = ?I and g = ?g2 and p = 0, OF I(3-6) _ chain, where prom = ?p and chi = sample_chi]
  obtain g' x where g': "gate_reaches server_ref sample_chi ?p ?I ?g2 g'" "gt_log g' = [x]" "sd_route x = Some RList"
    "sd_request x = ?rq\<lparr>rq_params := []\<rparr>"
    by (auto simp: sample_gate_def)
  have reach: "gate_reaches server_ref sample_chi ?p ?I (sample_gate True) g'"
    using reaches_next [where I = ?I, OF I(1) s1 reaches_next [where I = ?I, OF I(2) s2 g'(1)]] .
  have "\<exists>new. gt_log g' = gt_log (sample_gate True) @ new
    \<and> list_all (\<lambda>x. presented (sd_request x) = ?h \<and> (sd_route x = Some RList \<or> sd_route x = Some RGet) \<longrightarrow>
         sd_key x = None \<and> rs_status (sd_response x) \<in> {401, 503}) new"
    by (rule revoked_key_stays_out [OF reach])
      (simp_all add: sample_gate_def sample_gateway_def keyed_def live_key_def new_key_row_def sample_entry_def)
  then show ?thesis using reach g' by (auto simp: sample_gate_def sample_request_def get_first_def)
qed

text \<open>
  Property C6. The limit holds for the whole gateway and is exact. However requests of all keys are
  interleaved with each other and with everything else, restarts of the API included: once a
  request of a key with an id has been authenticated, it gets past the limiter exactly when fewer
  than the configured number of requests of this id have in this minute, and is answered 429
  otherwise; so no key ever exceeds the limit in a minute. Redis is assumed to answer and to have
  started without counters.
\<close>

theorem gateway_limit_exact:
  assumes "gate_reaches cfg chi prom on_clock g0 g" and "sv_has_redis cfg" and "0 < sv_rate_limit_rpm cfg"
    and "gw_redis (gt_w g0) = Map.empty" and "gt_admits g0 = []"
    and "gt_flight g p = Some (FAuthed k r rq)" and "k \<noteq> []"
    and "gate_step cfg chi prom g (EvLimit p env) g'" and "on_clock (EvLimit p env)"
  shows "let n = int (admissions k (ae_now env div 60000) (gt_admits g))
    in n \<le> sv_rate_limit_rpm cfg
     \<and> (if n < sv_rate_limit_rpm cfg
        then gt_flight g' p = Some (FServing k r rq) \<and> gt_admits g' = gt_admits g @ [(k, ae_now env)]
        else gt_flight g' p = None \<and> gt_admits g' = gt_admits g
          \<and> (\<exists>x. gt_log g' = gt_log g @ [x] \<and> sd_request x = rq \<and> rs_status (sd_response x) = 429))"
proof -
  have inv: "limit_inv (sv_rate_limit_rpm cfg) g" by (rule limit_inv_reaches [OF assms(1-5)])
  note dec = limit_decision [OF inv assms(2,3,7,9)]
  from assms(8) show ?thesis
  proof (rule limitE)
    fix i r' rq' resp w
    assume "g' = reply p \<lparr>sd_route = Some r', sd_request = rq', sd_key = None, sd_response = resp\<rparr> w g"
      and "gt_flight g p = Some (FAuthed i r' rq')" and "limit_stage cfg env i (gt_w g) = (Some resp, w)"
    with assms(6) dec show ?thesis by (auto simp: Let_def)
  next
    fix i r' rq' w
    assume "g' = advance p (FServing i r' rq') w g\<lparr>gt_admits := gt_admits g @ [(i, ae_now env)]\<rparr>"
      and "gt_flight g p = Some (FAuthed i r' rq')" and "limit_stage cfg env i (gt_w g) = (None, w)"
    with assms(6) dec show ?thesis by (auto simp: Let_def)
  qed
qed

text \<open>Two requests with one key and a limit of one: the second is refused.\<close>

abbreviation one_rpm :: server_config where
  "one_rpm \<equiv> \<lparr>sv_rate_limit_rpm = 1, sv_has_api = True, sv_has_redis = True\<rparr>"

abbreviation sample_prom :: "rl_metrics \<Rightarrow> response" where
  "sample_prom \<equiv> \<lambda>_. write_err 200 []"

lemma sample_authed:
  assumes "gt_flight g p = None" and "gw_keys (gt_w g) = gw_keys (sample_gateway False)"
  shows "\<exists>g'. gate_reaches one_rpm sample_chi sample_prom on_clock g g'
    \<and> gt_flight g' = (gt_flight g)(p := Some (FAuthed ''k1'' RList (sample_request ''secret'' [])))
    \<and> gt_admits g' = gt_admits g \<and> gw_keys (gt_w g') = gw_keys (gt_w g)
    \<and> gt_log g' = gt_log g"
proof -
  let ?rq = "sample_request ''secret'' []"
  let ?g1 = "advance p (FRouted RList (?rq\<lparr>rq_params := []\<rparr>)) (gt_w g) g"
  have rq: "?rq\<lparr>rq_params := []\<rparr> = ?rq" by (simp add: sample_request_def)
  have s1: "gate_step one_rpm sample_chi sample_prom g (EvArrive p ?rq) ?g1"
    by (rule gate_step.arrive_api) (simp_all add: assms(1) sample_chi_def sample_request_def)
  have "get_by_hash pg_ref (hash_api_key ''secret'') (gw_keys (sample_gateway False)) =
      Inr (scan_key (new_key_row 5 (sample_entry ''k1'' (hash_api_key ''secret''))))"
    by (simp add: get_by_hash_lookup pg_ref_def key_statement_params sample_gateway_def live_key_def new_key_row_def sample_entry_def)
  then have "auth_stage api_ref ?rq (gt_w ?g1) = (Inr ''k1'', (gt_w g)\<lparr>gw_pending := gw_pending (gt_w g) @ [''k1'']\<rparr>)"
    by (simp add: auth_stage_def Let_def sample_request_def get_first_def api_ref_def assms(2) scan_key_def new_key_row_def sample_entry_def)
  then have "gate_step one_rpm sample_chi sample_prom ?g1 (EvAuth p api_ref)
      (advance p (FAuthed ''k1'' RList ?rq) ((gt_w g)\<lparr>gw_pending := gw_pending (gt_w g) @ [''k1'']\<rparr>) ?g1)"
    by (intro gate_step.auth_passes) (simp_all only: rq reply_simps fun_upd_same)
  note s2 = this
  have I: "on_clock (EvArrive p ?rq)" "on_clock (EvAuth p api_ref)" by (simp_all add: on_clock_def)
  have "gate_reaches one_rpm sample_chi sample_prom on_clock g
      (advance p (FAuthed ''k1'' RList ?rq) ((gt_w g)\<lparr>gw_pending := gw_pending (gt_w g) @ [''k1'']\<rparr>) ?g1)"
    by (rule reaches_next [where I = on_clock, OF I(1) s1 reaches_one [where I = on_clock, OF I(2) s2]])
  then show ?thesis by - (intro exI conjI, assumption, simp_all)
qed

lemma limit_enabled:
  assumes "gt_flight g p = Some (FAuthed i r rq)"
  shows "\<exists>g'. gate_step cfg chi prom g (EvLimit p env) g' \<and> gw_keys (gt_w g') = gw_keys (gt_w g)
    \<and> (\<forall>q. q \<noteq> p \<longrightarrow> gt_flight g' q = gt_flight g q) \<and> (gt_flight g' p \<noteq> None \<longrightarrow> gt_log g' = gt_log g)"
proof -
  obtain l w where l: "limit_stage cfg env i (gt_w g) = (l, w)" by fastforce
  then have k: "gw_keys w = gw_keys (gt_w g)" using limit_stage_frame by fastforce
  show ?thesis
  proof (cases l)
    case None
    from gate_step.limit_admits [OF assms l [unfolded None]] k show ?thesis by (rule_tac exI, rule_tac conjI) auto
  next
    case (Some resp)
    from gate_step.limit_denies [OF assms l [unfolded Some]] k show ?thesis by (rule_tac exI, rule_tac conjI) auto
  qed
qed

lemma gateway_limit_exact_witness:
  "\<exists>g g' x. gate_reaches one_rpm sample_chi sample_prom on_clock (sample_gate False) g
     \<and> gt_admits g = [(''k1'', 0)] \<and> gt_flight g 1 = Some (FAuthed ''k1'' RList (sample_request ''secret'' []))
     \<and> gate_step one_rpm sample_chi sample_prom g (EvLimit 1 api_ref) g'
     \<and> gt_log g' = [x] \<and> rs_status (sd_response x) = 429"
proof -
  let ?rq = "sample_request ''secret'' []" and ?g0 = "sample_gate False"
  let ?reach = "gate_reaches one_rpm sample_chi sample_prom on_clock"
  have on: "on_clock (EvLimit p api_ref)" for p by (simp add: on_clock_def api_ref_def)
  have start: "gw_redis (gt_w ?g0) = Map.empty" "gt_admits ?g0 = []" "gt_log ?g0 = []"
    by (simp_all add: sample_gate_def sample_gateway_def)
  have now: "ae_now api_ref div 60000 = 0" "ae_now api_ref = 0" by (simp_all add: api_ref_def)
  obtain g1 where g1: "?reach ?g0 g1" "gt_flight g1 = (gt_flight ?g0)(0 := Some (FAuthed ''k1'' RList ?rq))"
    "gt_admits g1 = []" "gw_keys (gt_w g1) = gw_keys (sample_gateway False)" "gt_log g1 = []"
    using sample_authed [of ?g0 0] start by (auto simp: sample_gate_def)
  obtain g2 where g2: "gate_step one_rpm sample_chi sample_prom g1 (EvLimit 0 api_ref) g2"
    "gw_keys (gt_w g2) = gw_keys (gt_w g1)" "\<forall>q. q \<noteq> 0 \<longrightarrow> gt_flight g2 q = gt_flight g1 q"
    "gt_flight g2 0 \<noteq> None \<longrightarrow> gt_log g2 = gt_log g1"
    using limit_enabled [of g1 0 "''k1''" RList ?rq one_rpm sample_chi sample_prom api_ref] g1(2) by auto
  have "gt_flight g2 0 \<noteq> None \<and> gt_admits g2 = [(''k1'', 0)]"
    using gateway_limit_exact [OF g1(1) _ _ start(1,2) _ _ g2(1) on, of "''k1''" RList ?rq] g1
    by (simp add: admissions_def now)
  moreover have "gt_flight g2 1 = None" using g1(2) g2(3) by (simp add: sample_gate_def)
  moreover have "gw_keys (gt_w g2) = gw_keys (sample_gateway False)" using g1(4) g2(2) by simp
  moreover note sample_authed [of g2 1]
  ultimately obtain g3 where h: "?reach g2 g3" "gt_flight g3 1 = Some (FAuthed ''k1'' RList ?rq)"
    "gt_admits g3 = [(''k1'', 0)]" "gt_log g3 = gt_log g2" and "gt_flight g2 0 \<noteq> None" by auto
  moreover have "?reach ?g0 g2" by (rule further [OF g1(1) on g2(1)])
  ultimately have g3: "?reach ?g0 g3" "gt_flight g3 1 = Some (FAuthed ''k1'' RList ?rq)"
    "gt_admits g3 = [(''k1'', 0)]" "gt_log g3 = []"
    using g1(5) g2(4) by (simp_all add: reaches_trans [OF _ h(1)])
  obtain g4 where g4: "gate_step one_rpm sample_chi sample_prom g3 (EvLimit 1 api_ref) g4"
    using limit_enabled [of g3 1 "''k1''" RList ?rq one_rpm sample_chi sample_prom api_ref] g3(2) by auto
  have "\<exists>x. gt_log g4 = gt_log g3 @ [x] \<and> sd_request x = ?rq \<and> rs_status (sd_response x) = 429"
    using gateway_limit_exact [OF g3(1) _ _ start(1,2) g3(2) _ g4 on] g3(3)
    by (simp add: admissions_def now)
  with g3 g4 show ?thesis by auto
qed

lemma router_is_schedule_witness:
  "\<exists>g' x. gate_reaches server_ref sample_chi sample_prom (\<lambda>e. True) (sample_gate True) g' \<and> gt_log g' = [x]
    \<and> (sd_response x, gt_w g') = router server_ref sample_chi sample_prom api_ref None (sample_request ''secret'' []) (sample_gateway True)"
proof -
  have start: "gt_flight (sample_gate True) 0 = None" "gt_log (sample_gate True) = []" "gt_w (sample_gate True) = sample_gateway True"
    by (simp_all add: sample_gate_def)
  from router_is_schedule [OF start(1), of server_ref sample_chi sample_prom api_ref None "sample_request ''secret'' []"]
  show ?thesis unfolding start append_Nil by blast
qed

end
