(* ===== verification/EndToEnd.thy ===== *)
theory EndToEnd
  imports Gateway SyncMirror CmdSetup
begin

text \<open>
  The path of a record through the whole system, across the components: from a row of the source
  database (\<open>internal/vpsmysql\<close>) through the passes of \<open>internal/sync\<close> and the table of
  \<open>internal/karyawan\<close> to the reply of \<open>internal/api\<close>; and the path of a key from the terminal of
  \<open>cmd/setup\<close> to the middleware that checks it.
\<close>

section \<open>What a reader of the API should see\<close>

text \<open>The view of a source row, by the fields' meaning: absent text is empty, a date is its day.\<close>

definition source_view :: "vps_row \<Rightarrow> kar_view" where
  "source_view r =
     \<lparr>v_nik_hris = vr_nik_hris r, v_nik_santos = null_str (vr_nik_santos r),
      v_nama_karyawan = vr_nama_karyawan r, v_nama_departemen = null_str (vr_nama_departemen r),
      v_nama_jabatan = null_str (vr_nama_jabatan r),
      v_tgl_bergabung = map_option format_date (vr_tgl_bergabung r),
      v_tgl_keluar = map_option format_date (vr_tgl_keluar r),
      v_lokasi = null_str (vr_lokasi r), v_gender = null_str (vr_gender r)\<rparr>"

lemma format_date_day: "format_date (time_of_day (day_of t)) = format_date t"
  by (simp add: format_date_def)

text \<open>However the row got into the mirror, its view is the source's.\<close>

lemma reflects_view: "reflects r k \<Longrightarrow> to_view (scan_row k) = source_view r"
  by (simp add: reflects_def to_view_def scan_row_def source_view_def option.map_comp o_def format_date_day)

lemma mirrored_get:
  assumes "mirrored r (gw_kar w)" and "pg_healthy (ae_pg env)" and "vr_nik_hris r \<noteq> []"
    and "get_first (rq_params rq) ''nik_hris'' = vr_nik_hris r"
  shows "handle_get env ctx rq w = (write_json 200 (view_json (source_view r)), w)"
proof -
  obtain k where k: "sql_find kr_nik_hris (vr_nik_hris r) (gw_kar w) = Some k" "reflects r k"
    using assms(1) by (auto simp: mirrored_def split: option.splits)
  then show ?thesis
    using assms(3,4) by (simp add: handle_get_def repo_get_healthy [OF assms(2)] Let_def reflects_view)
qed

text \<open>A request that nothing stops before its handler.\<close>

definition let_through :: "server_config \<Rightarrow> api_env \<Rightarrow> request \<Rightarrow> gateway \<Rightarrow> bool" where
  "let_through cfg env rq w \<longleftrightarrow>
     get_first (rq_header rq) ''X-Api-Key'' \<noteq> []
     \<and> (case get_by_hash (ae_pg env) (presented rq) (gw_keys w) of
          Inl e \<Rightarrow> False
        | Inr en \<Rightarrow> fst (limit_stage cfg env (en_id en) (w\<lparr>gw_pending := gw_pending w @ [en_id en]\<rparr>)) = None)"

lemma let_through_chain:
  assumes "let_through cfg env rq w"
  shows "\<exists>i w'. api_chain cfg h env ctx rq w = h env (Some i) rq w' \<and> gw_kar w' = gw_kar w"
proof -
  obtain en where raw: "get_first (rq_header rq) ''X-Api-Key'' \<noteq> []"
    and en: "get_by_hash (ae_pg env) (presented rq) (gw_keys w) = Inr en"
    and lim: "fst (limit_stage cfg env (en_id en) (w\<lparr>gw_pending := gw_pending w @ [en_id en]\<rparr>)) = None"
    using assms by (auto simp: let_through_def split: sum.splits)
  obtain w' where w': "limit_stage cfg env (en_id en) (w\<lparr>gw_pending := gw_pending w @ [en_id en]\<rparr>) = (None, w')"
    using lim by (metis prod.collapse)
  then have "api_chain cfg h env ctx rq w = h env (Some (en_id en)) rq w'"
    using raw en by (simp add: api_chain_stages auth_stage_def Let_def)
  moreover have "gw_kar w' = gw_kar w" using limit_stage_frame [OF w'] by auto
  ultimately show ?thesis by blast
qed

text \<open>
  Property C4. From the source to the reader. Run enough fault-free passes over a source with unique NIKs and
  timestamps; then a request for the NIK of any source row that carries an accepted key and is
  not over its limit is answered 200 with exactly this row: its texts, NULL as empty, its two
  dates as days, in the JSON of the API.
\<close>

theorem source_row_served:
  assumes "list_all (\<lambda>p. sync_healthy (fst p) \<and> se_fetch (fst p) = fetch_karyawan_updated_since my c t) ps"
    and "fresh_ids ps db" and "vps_total my t" and "list_all row_ok (vps_rows t)"
    and "keyed my_nik_hris t" and "inj_on vr_updated_at (set (vps_rows t))"
    and "mirror_upto (wm_of (sy_resource s) db) (vps_rows t) (db_kar db)"
    and "card (newer (wm_of (sy_resource s) db) (vps_rows t)) \<le> length ps * nat (vc_batch_size c)"
    and "gw_kar w = db_kar (sync_passes s ps db)" and "r \<in> set (vps_rows t)" and "vr_nik_hris r \<noteq> []"
    and "chi (server_routes cfg) rq = ChiRoute RGet params" and "get_first params ''nik_hris'' = vr_nik_hris r"
    and "let_through cfg env (rq\<lparr>rq_params := params\<rparr>) w" and "pg_healthy (ae_pg env)"
  shows "fst (router cfg chi prom env ctx rq w) = write_json 200 (view_json (source_view r))"
proof -
  have "list_all (\<lambda>r. mirrored r (db_kar (sync_passes s ps db))) (vps_rows t)"
    using assms(1) vps_total_fetch [OF assms(3)] assms(4) keyed_vps_rows [OF assms(5)]
      vps.unique_times_tie_free [OF assms(6)] assms(2,7,8) by (rule vps.passes_converge)
  then have m: "mirrored r (gw_kar w)" using assms(9,10) by (simp add: list_all_iff)
  obtain i w' where "api_chain cfg handle_get env ctx (rq\<lparr>rq_params := params\<rparr>) w =
      handle_get env (Some i) (rq\<lparr>rq_params := params\<rparr>) w'" "gw_kar w' = gw_kar w"
    using let_through_chain [OF assms(14)] by blast
  with mirrored_get [of r w' env "rq\<lparr>rq_params := params\<rparr>" "Some i"] m assms(11-13,15) show ?thesis
    by (simp add: router_def)
qed

text \<open>The first request after a start with an empty Redis passes any limit.\<close>

lemma first_request_admitted:
  assumes "gw_redis w = Map.empty" and "on_clock (EvLimit 0 env)"
  shows "fst (limit_stage cfg env i w) = None"
proof (cases "sv_has_redis cfg \<and> sv_rate_limit_rpm cfg > 0 \<and> i \<noteq> []")
  case True
  let ?q = "(''apikey:'' @ i, nat (ae_now env))"
  obtain ms where l: "limit_stage cfg env i w =
    (let (d, ks) = rl_step (sv_rate_limit_rpm cfg) minute ?q (gw_redis w)
     in (if d then None else Some (write_err 429 ''rate_limited''), w\<lparr>gw_redis := ks, gw_metrics := ms\<rparr>))"
    using limit_stage_healthy [of cfg i 0 env w] True assms(2) by blast
  have "fst (rl_step (sv_rate_limit_rpm cfg) minute ?q (gw_redis w))"
    using fixed_window.step_admits [of minute "gw_redis w" "sv_rate_limit_rpm cfg" ?q] ks_ok_empty [of minute] assms(1) True
    by (simp add: rl_count_def minute_def)
  with l show ?thesis by (simp add: split_beta Let_def)
qed (auto simp: limit_stage_def)

lemma let_throughI:
  assumes "get_first (rq_header rq) ''X-Api-Key'' \<noteq> []"
    and "get_by_hash (ae_pg env) (presented rq) (gw_keys w) = Inr en"
    and "gw_redis w = Map.empty" and "on_clock (EvLimit 0 env)"
  shows "let_through cfg env rq w"
  using assms by (simp add: let_through_def first_request_admitted)

definition get_chi :: chi where
  "get_chi routes rq = ChiRoute RGet [(''nik_hris'', ''A1'')]"

lemma sample_key_found:
  "get_by_hash pg_ref (hash_api_key ''secret'') (gw_keys (sample_gateway False)) =
     Inr (scan_key (new_key_row 5 (sample_entry ''k1'' (hash_api_key ''secret''))))"
  by (simp add: get_by_hash_lookup pg_ref_def key_statement_params sample_gateway_def live_key_def new_key_row_def sample_entry_def)

lemma source_row_served_witness:
  "\<exists>r. vr_nik_hris r = ''A1'' \<and>
     fst (router server_ref get_chi sample_prom api_ref None (sample_request ''secret'' [])
       ((sample_gateway False)\<lparr>gw_kar := db_kar (sync_passes kar_syncer
          [(sync_ref (fetch_karyawan_updated_since my_ref \<lparr>vc_batch_size = 1\<rparr> [sample_src ''A1'' 1000000]), ''r1'')] empty_db)\<rparr>)) =
     write_json 200 (view_json (source_view r))"
proof -
  let ?t = "[sample_src ''A1'' 1000000]" and ?c = "\<lparr>vc_batch_size = 1\<rparr>"
  let ?f = "fetch_karyawan_updated_since my_ref ?c ?t"
  define r :: vps_row where "r = \<lparr>vr_nik_hris = ''A1'', vr_nik_santos = None, vr_nama_karyawan = ''Siti'',
     vr_nama_departemen = Some ''HR'', vr_nama_jabatan = None, vr_tgl_bergabung = Some 1600000000000000,
     vr_tgl_keluar = None, vr_lokasi = Some ''JKT'', vr_gender = Some ''P'', vr_updated_at = 1000000\<rparr>"
  have year: "year_ok 1000000" "year_ok 1600000000000000" by code_simp+
  have r: "vps_rows ?t = [r]" "vr_nik_hris r = ''A1''" "row_ok r" "vr_updated_at r = 1000000"
    by (simp_all add: r_def vps_rows_def map_filter_def sample_scan row_ok_def year)
  have wm: "wm_of ''karyawan'' empty_db = 0" by (simp add: wm_of_def wm_state_def empty_db_def)
  have "newer 0 [r] = {r}" using r(4) by (auto simp: newer_def)
  then have card: "card (newer 0 [r]) = 1" by simp
  have "fst (router server_ref get_chi sample_prom api_ref None (sample_request ''secret'' [])
       ((sample_gateway False)\<lparr>gw_kar := db_kar (sync_passes kar_syncer [(sync_ref ?f, ''r1'')] empty_db)\<rparr>)) =
     write_json 200 (view_json (source_view r))"
  proof (rule source_row_served [where s = kar_syncer and c = ?c and t = ?t and my = my_ref and db = empty_db
        and ps = "[(sync_ref ?f, ''r1'')]" and params = "[(''nik_hris'', ''A1'')]"])
    show "let_through server_ref api_ref ((sample_request ''secret'' [])\<lparr>rq_params := [(''nik_hris'', ''A1'')]\<rparr>)
        ((sample_gateway False)\<lparr>gw_kar := db_kar (sync_passes kar_syncer [(sync_ref ?f, ''r1'')] empty_db)\<rparr>)"
      by (rule let_throughI)
        (simp_all add: sample_request_def get_first_def api_ref_def sample_key_found, simp_all add: sample_gateway_def on_clock_def)
    show "vps_total my_ref ?t" by (simp add: vps_total_def my_ref_def sample_src_def)
    show "keyed my_nik_hris ?t" by (simp add: keyed_def)
    show "fresh_ids [(sync_ref ?f, ''r1'')] empty_db" by (simp add: fresh_ids_def empty_db_def)
  qed (simp_all add: r wm card sync_ref_healthy get_chi_def api_ref_def pg_ref_healthy get_first_def mirror_upto_def)
  with r(2) show ?thesis by blast
qed

section \<open>From the operator's terminal to the middleware\<close>

lemma flow_key_not_empty: "flow_api_key env a = Inr plain \<Longrightarrow> plain \<noteq> []"
  by (auto simp: flow_api_key_def generate_api_key_def api_key_prefix_def wrap_err_def split: if_splits sum.splits)

lemma key_lookup_healthy: "pg_healthy pg \<Longrightarrow> pg_fault pg get_by_hash_sql [ArgText h] = None"
  by (rule pg_healthy_fault) (simp_all add: key_statement_params)

lemma list_status:
  assumes "pg_healthy (ae_pg env)" and "get_first (rq_query rq) ''status_aktif'' = []"
  shows "rs_status (fst (handle_list env ctx rq w)) = 200"
proof -
  have "f_status_aktif (request_filter rq) = None" by (simp add: request_filter_def status_param_def Let_def assms(2))
  then show ?thesis
    by (simp add: handle_list_alt Let_def repo_list_healthy [OF assms(1)] write_json_def)
qed

text \<open>
  Property C12. From the terminal of the setup command to the API: after a run that returned with a database,
  one of the printed lines is the key, and a first request to the listing that carries this key
  is answered 200 on healthy servers, provided no row of the key table had its hash and the row
  under the id that the command chose, if there was one, was not revoked.
\<close>

theorem printed_key_opens_api:
  assumes "run_prompt_flow (setup_flow env) (env_or (su_getenv env) ''GATEWAY_CONFIG_PATH'' default_config_path)
      (env_or (su_getenv env) ''GATEWAY_DOTENV_PATH'' default_dotenv_path) (su_getenv env ''GATEWAY_MASTER_KEY'') (sw_fs w)
      = (Inr (cfg, plain, m), fs)"
    and "su_getenv env ''POSTGRES_DSN'' \<noteq> []" and "setup_main env w = (SetupReturns, w')"
    and "keyed kk_id (sw_keys w)" and "\<And>r. r \<in> set (sw_keys w) \<Longrightarrow> kk_hash r \<noteq> hash_api_key plain"
    and "\<And>r. r \<in> set (sw_keys w) \<Longrightarrow> kk_id r = en_id (api_key_row_entry (Some cfg) plain default_api_key_entry) \<Longrightarrow> \<not> kk_revoked r"
    and "gw_keys g = sw_keys w'" and "gw_redis g = Map.empty" and "on_clock (EvLimit 0 aenv)" and "pg_healthy (ae_pg aenv)"
    and "get_first (rq_header rq) ''X-Api-Key'' = plain" and "get_first (rq_query rq) ''status_aktif'' = []"
    and "chi (server_routes scfg) rq = ChiRoute RList params"
  shows "''   '' @ plain \<in> set (sw_out w') \<and> rs_status (fst (router scfg chi prom aenv ctx rq g)) = 200"
proof -
  have h: "en_hash (api_key_row_entry (Some cfg) plain default_api_key_entry) = hash_api_key plain"
    by (simp add: api_key_row_entry_def Let_def)
  have plain: "plain \<noteq> []"
    using run_prompt_flow_ok [OF assms(1)] flow_prepareD flow_key_not_empty by blast
  note keys = setup_main_keys [OF assms(1-3)]
  from inserted_key_found [OF conjunct1 [OF keys] assms(4), unfolded h, OF assms(5) key_lookup_healthy [OF assms(10)]] assms(6)
  obtain en where "get_by_hash (ae_pg aenv) (hash_api_key plain) (sw_keys w') = Inr en"
    by (auto split: sum.splits)
  then have "let_through scfg aenv (rq\<lparr>rq_params := params\<rparr>) g"
    using plain assms(7,11) by (intro let_throughI [OF _ _ assms(8,9), where en = en]) simp_all
  from let_through_chain [OF this] obtain i g' where
    "api_chain scfg handle_list aenv ctx (rq\<lparr>rq_params := params\<rparr>) g = handle_list aenv (Some i) (rq\<lparr>rq_params := params\<rparr>) g'"
    by blast
  then show ?thesis
    using keys list_status [OF assms(10), of "rq\<lparr>rq_params := params\<rparr>"] assms(12,13) by (simp add: router_def)
qed

lemma printed_key_opens_api_witness:
  "\<exists>cfg w'. setup_main (setup_ref cfg) (empty_machine []) = (SetupReturns, w') \<and> ''   k'' \<in> set (sw_out w')
     \<and> rs_status (fst (router server_ref sample_chi sample_prom api_ref None (sample_request ''k'' [])
         ((sample_gateway False)\<lparr>gw_keys := sw_keys w'\<rparr>))) = 200"
proof -
  obtain cfg fs where flow: "run_prompt_flow (flow_ref cfg) ''c'' ''d'' [] (sw_fs (empty_machine [])) =
      (Inr (cfg, ''k'', key_to_base64 (replicate 32 7)), fs)"
    using setup_ref_flow by blast
  obtain w' where main: "setup_main (setup_ref cfg) (empty_machine []) = (SetupReturns, w')"
    using setup_ref_returns [OF flow] by (metis prod.collapse)
  have "''   '' @ ''k'' \<in> set (sw_out w') \<and> rs_status (fst (router server_ref sample_chi sample_prom api_ref None (sample_request ''k'' [])
         ((sample_gateway False)\<lparr>gw_keys := sw_keys w'\<rparr>))) = 200"
    by (rule printed_key_opens_api [OF _ _ main, where params = "[]"])
      (use flow in \<open>simp_all add: setup_ref_paths empty_machine_def keyed_def sample_gateway_def api_ref_def
          pg_ref_healthy on_clock_def sample_request_def get_first_def sample_chi_def\<close>)
  with main show ?thesis by auto
qed

end
