(* ===== verification/SyncSource.thy ===== *)
theory SyncSource
  imports SyncMirror
begin

text \<open>
  Passes of \<open>internal/sync/sync.go\<close> over a source that changes between them. Before each pass the
  source table is whatever the owner of the VPS database has made of it; the pass reads it through
  \<open>FetchKaryawanUpdatedSince\<close> of \<open>internal/vpsmysql/client.go\<close>. The theorems say when the mirror
  follows the source, and what it never learns.
\<close>

section \<open>Passes over successive sources\<close>

type_synonym source_pass = "sync_env \<times> string \<times> my_row list"

definition pass_over :: "myenv \<Rightarrow> vps_client \<Rightarrow> syncer \<Rightarrow> source_pass \<Rightarrow> syncdb \<Rightarrow> syncdb" where
  "pass_over my c s p db =
     (case p of (env, run_id, t) \<Rightarrow>
        snd (sync_karyawan (env\<lparr>se_fetch := fetch_karyawan_updated_since my c t\<rparr>) s run_id db))"

fun follow :: "myenv \<Rightarrow> vps_client \<Rightarrow> syncer \<Rightarrow> source_pass list \<Rightarrow> syncdb \<Rightarrow> syncdb" where
  "follow my c s [] db = db"
| "follow my c s (p # ps) db = follow my c s ps (pass_over my c s p db)"

text \<open>The source as the last pass saw it.\<close>

definition last_source :: "my_row list \<Rightarrow> source_pass list \<Rightarrow> my_row list" where
  "last_source t ps = (if ps = [] then t else snd (snd (last ps)))"

text \<open>
  The rule that makes incremental reading sound: a row that is new or changed, compared with
  the source before, has a timestamp above all that were visible so far (\<open>b\<close> bounds these). Rows
  may disappear.
\<close>

fun stamped :: "micros \<Rightarrow> my_row list \<Rightarrow> source_pass list \<Rightarrow> bool" where
  "stamped b t [] = True"
| "stamped b t (p # ps) =
     (list_all (\<lambda>r. r \<in> set (vps_rows t) \<or> b < vr_updated_at r) (vps_rows (snd (snd p)))
      \<and> stamped (max_time b (vps_rows (snd (snd p)))) (snd (snd p)) ps)"

definition pass_ok :: "source_pass \<Rightarrow> bool" where
  "pass_ok p \<longleftrightarrow>
     (case p of (env, run_id, t) \<Rightarrow>
        keyed my_nik_hris t \<and> inj_on vr_updated_at (set (vps_rows t)) \<and> read_faults_proper env)"

lemma proper_fetch [simp]: "read_faults_proper (env\<lparr>se_fetch := f\<rparr>) = read_faults_proper env"
  by (simp add: read_faults_proper_def)

lemma mirror_upto_change:
  assumes "mirror_upto wm rows kar" and "list_all (\<lambda>r. r \<in> set rows \<or> wm < vr_updated_at r) rows'"
  shows "mirror_upto wm rows' kar"
  using assms by (auto simp: mirror_upto_def list_all_iff)

text \<open>A pass moves the watermark at most to the latest timestamp of its source.\<close>

lemma pass_over_wm:
  assumes "read_faults_proper env"
  shows "wm_of (sy_resource s) db \<le> wm_of (sy_resource s) (pass_over my c s (env, run_id, t) db)
    \<and> wm_of (sy_resource s) (pass_over my c s (env, run_id, t) db) \<le> max_time (wm_of (sy_resource s) db) (vps_rows t)"
proof -
  let ?env = "env\<lparr>se_fetch := fetch_karyawan_updated_since my c t\<rparr>"
  have spec: "pass_spec ?env s run_id db (fst (sync_karyawan ?env s run_id db)) (pass_over my c s (env, run_id, t) db)"
    using sync_karyawan_spec by (simp add: pass_over_def)
  have ge: "wm_of (sy_resource s) db \<le> max_time (wm_of (sy_resource s) db) (vps_rows t)" by (rule max_time_ge)
  from spec show ?thesis
  proof (cases rule: pass_spec.cases)
    case (advanced wm out err)
    have wm: "wm = wm_of (sy_resource s) db" by (rule read_watermark_wm [OF _ advanced(3)]) (simp add: assms)
    have sub: "set out \<subseteq> set (vps_rows t)" using vps.fetch_sound advanced(4) by fastforce
    have "max_time wm out \<le> max_time wm (vps_rows t)"
    proof (cases "max_time wm out = wm")
      case False
      then obtain x where "x \<in> set out" "max_time wm out = vr_updated_at x"
        using fold_max_attained [of out wm] by (auto simp: max_time_def)
      with sub show ?thesis using fold_max_in [of x "vps_rows t" wm] by (auto simp: max_time_def)
    qed (simp add: max_time_ge)
    with advanced(6) wm max_time_ge [of wm out] show ?thesis by (simp add: wm_of_def)
  qed (use ge in \<open>simp_all add: wm_of_def\<close>)
qed

lemma pass_over_mirror:
  assumes "pass_ok (env, run_id, t)" and "mirror_upto (wm_of (sy_resource s) db) (vps_rows t) (db_kar db)"
  shows "mirror_upto (wm_of (sy_resource s) (pass_over my c s (env, run_id, t) db)) (vps_rows t)
    (db_kar (pass_over my c s (env, run_id, t) db))"
  unfolding pass_over_def prod.case
  by (rule vps.pass_mirror [OF sync_karyawan_spec]) (use assms in \<open>simp_all add: pass_ok_def keyed_vps_rows vps.unique_times_tie_free\<close>)

lemma max_time_mono: "a \<le> b \<Longrightarrow> max_time a rows \<le> max_time b rows"
proof -
  assume ab: "a \<le> b"
  show ?thesis
  proof (cases "max_time a rows = a")
    case False
    then obtain x where "x \<in> set rows" "max_time a rows = vr_updated_at x"
      using fold_max_attained [of rows a] by (auto simp: max_time_def)
    then show ?thesis using fold_max_in [of x rows b] by (auto simp: max_time_def)
  qed (use ab max_time_ge order_trans in metis)
qed

lemma follow_mirror:
  assumes "list_all pass_ok ps" and "stamped b t ps" and "wm_of (sy_resource s) db \<le> b"
    and "mirror_upto (wm_of (sy_resource s) db) (vps_rows t) (db_kar db)"
  shows "mirror_upto (wm_of (sy_resource s) (follow my c s ps db)) (vps_rows (last_source t ps)) (db_kar (follow my c s ps db))"
  using assms
proof (induction ps arbitrary: b t db)
  case Nil
  then show ?case by (simp add: last_source_def)
next
  case (Cons p ps)
  obtain env run_id t' where p: "p = (env, run_id, t')" by (cases p)
  let ?wm = "wm_of (sy_resource s) db" and ?db = "pass_over my c s p db"
  have proper: "read_faults_proper env" using Cons.prems(1) p by (simp add: pass_ok_def)
  have "list_all (\<lambda>r. r \<in> set (vps_rows t) \<or> ?wm < vr_updated_at r) (vps_rows t')"
    using Cons.prems(2,3) p by (auto simp: list_all_iff)
  from mirror_upto_change [OF Cons.prems(4) this] Cons.prems(1)
  have "mirror_upto (wm_of (sy_resource s) ?db) (vps_rows t') (db_kar ?db)"
    unfolding p by (intro pass_over_mirror) simp_all
  moreover have "wm_of (sy_resource s) ?db \<le> max_time b (vps_rows t')"
    using pass_over_wm [OF proper, of s db my c run_id t'] max_time_mono [OF Cons.prems(3)] p by (metis order_trans)
  moreover have "last_source t (p # ps) = last_source t' ps" using p by (simp add: last_source_def)
  ultimately show ?case using Cons.IH [of "max_time b (vps_rows t')" t' ?db] Cons.prems(1,2) p by simp
qed

section \<open>What the mirror never learns\<close>

lemma upsert_all_other:
  "n \<notin> vr_nik_hris ` set out \<Longrightarrow> sql_find kr_nik_hris n (upsert_all env out t) = sql_find kr_nik_hris n t"
  by (rule kar_table.find_upserts_other) auto

lemma pass_over_other:
  assumes "n \<notin> vr_nik_hris ` set (vps_rows (snd (snd p)))"
  shows "sql_find kr_nik_hris n (db_kar (pass_over my c s p db)) = sql_find kr_nik_hris n (db_kar db)"
proof -
  obtain env run_id t where p: "p = (env, run_id, t)" by (cases p)
  let ?env = "env\<lparr>se_fetch := fetch_karyawan_updated_since my c t\<rparr>"
  have spec: "pass_spec ?env s run_id db (fst (sync_karyawan ?env s run_id db)) (pass_over my c s p db)"
    using sync_karyawan_spec p by (simp add: pass_over_def)
  have batch: "set (batch_of ?env s db) \<subseteq> set (vps_rows t)"
    using batch_of_cases [of ?env s db] vps.fetch_sound by fastforce
  have part: "n \<notin> vr_nik_hris ` set (take k (batch_of ?env s db))" for k
    using batch assms p by (auto dest: in_set_takeD)
  from spec show ?thesis
  proof (cases rule: pass_spec.cases)
    case (advanced wm out err)
    have "set out \<subseteq> set (vps_rows t)" using vps.fetch_sound advanced(4) by fastforce
    with assms p have "n \<notin> vr_nik_hris ` set out" by auto
    with advanced(6) show ?thesis by (simp add: upsert_all_other)
  qed (use part in \<open>simp_all add: upsert_all_other\<close>)
qed

lemma follow_other:
  "list_all (\<lambda>p. n \<notin> vr_nik_hris ` set (vps_rows (snd (snd p)))) ps \<Longrightarrow>
   sql_find kr_nik_hris n (db_kar (follow my c s ps db)) = sql_find kr_nik_hris n (db_kar db)"
  by (induction ps arbitrary: db) (simp_all add: pass_over_other)

lemma follow_late:
  assumes "list_all (\<lambda>p. pass_ok p \<and> r \<in> set (vps_rows (snd (snd p)))) ps"
    and "vr_updated_at r \<le> wm_of (sy_resource s) db"
  shows "sql_find kr_nik_hris (vr_nik_hris r) (db_kar (follow my c s ps db)) = sql_find kr_nik_hris (vr_nik_hris r) (db_kar db)"
  using assms
proof (induction ps arbitrary: db)
  case Nil
  then show ?case by simp
next
  case (Cons p ps)
  obtain env run_id t where p: "p = (env, run_id, t)" by (cases p)
  have ok: "keyed my_nik_hris t" "read_faults_proper env" "r \<in> set (vps_rows t)"
    using Cons.prems(1) p by (simp_all add: pass_ok_def)
  have "sql_find kr_nik_hris (vr_nik_hris r) (db_kar (pass_over my c s p db)) = sql_find kr_nik_hris (vr_nik_hris r) (db_kar db)"
    unfolding p pass_over_def prod.case
    by (rule vps.pass_below_wm [OF sync_karyawan_spec]) (use ok Cons.prems(2) in \<open>simp_all add: keyed_vps_rows\<close>)
  moreover have "vr_updated_at r \<le> wm_of (sy_resource s) (pass_over my c s p db)"
    using pass_over_wm [OF ok(2), of s db my c run_id t] Cons.prems(2) p by simp
  ultimately show ?case using Cons.IH [of "pass_over my c s p db"] Cons.prems(1) by simp
qed

section \<open>Properties\<close>

text \<open>
  Property C11. The mirror follows a changing source. Let the source be edited between passes in any way that
  stamps every new or changed row above all timestamps visible so far; rows may disappear. Then,
  whatever fails in the passes and at whatever batch size, after each pass every row of the
  source as it is now, up to the watermark, is in the mirror as it is now.
\<close>

theorem mirror_follows_source:
  assumes "list_all pass_ok ps" and "stamped b t ps" and "wm_of (sy_resource s) db \<le> b"
    and "mirror_upto (wm_of (sy_resource s) db) (vps_rows t) (db_kar db)"
  shows "mirror_upto (wm_of (sy_resource s) (follow my c s ps db)) (vps_rows (last_source t ps)) (db_kar (follow my c s ps db))"
  using assms by (rule follow_mirror)

lemma sample_vps: "vps_rows [sample_src n u] = [\<lparr>vr_nik_hris = n, vr_nik_santos = None, vr_nama_karyawan = ''Siti'',
     vr_nama_departemen = Some ''HR'', vr_nama_jabatan = None, vr_tgl_bergabung = Some 1600000000000000,
     vr_tgl_keluar = None, vr_lokasi = Some ''JKT'', vr_gender = Some ''P'', vr_updated_at = u\<rparr>]"
  by (simp add: vps_rows_def map_filter_def sample_scan)

abbreviation sample_pass :: "string \<Rightarrow> my_row list \<Rightarrow> source_pass" where
  "sample_pass run_id t \<equiv> (sync_ref (\<lambda>_. ([], None)), run_id, t)"

lemma sample_pass_ok: "pass_ok (sample_pass run_id [sample_src n u])"
  by (simp add: pass_ok_def keyed_def sample_vps healthy_proper [OF sync_ref_healthy])

lemma empty_wm: "wm_of (sy_resource kar_syncer) empty_db = 0"
  by (simp add: wm_of_def wm_state_def empty_db_def)

lemma mirror_follows_source_witness:
  "let ps = [sample_pass ''r1'' [sample_src ''A1'' 1000000], sample_pass ''r2'' [sample_src ''A1'' 3000000]];
       db = follow my_ref \<lparr>vc_batch_size = 500\<rparr> kar_syncer ps empty_db
   in mirror_upto (wm_of ''karyawan'' db) (vps_rows [sample_src ''A1'' 3000000]) (db_kar db)"
  using mirror_follows_source [where s = kar_syncer and my = my_ref and c = "\<lparr>vc_batch_size = 500\<rparr>"
      and b = 0 and t = "[]" and db = empty_db
      and ps = "[sample_pass ''r1'' [sample_src ''A1'' 1000000], sample_pass ''r2'' [sample_src ''A1'' 3000000]]"]
  by (simp add: sample_pass_ok empty_wm [simplified] sample_vps max_time_def Let_def mirror_upto_def last_source_def)
    (simp add: vps_rows_def map_filter_def)

text \<open>
  What the mirror never learns. An employee whose row is gone from the source stays in the mirror
  as last read, through all later passes, until a row with the NIK is back; and a row that
  appears with a timestamp at or below the watermark is not read by any later pass, so that what
  the mirror holds under its NIK stays as it was.
\<close>

theorem mirror_never_learns:
  assumes "list_all (\<lambda>p. n \<notin> vr_nik_hris ` set (vps_rows (snd (snd p)))) gone"
    and "list_all (\<lambda>p. pass_ok p \<and> r \<in> set (vps_rows (snd (snd p)))) late"
    and "vr_updated_at r \<le> wm_of (sy_resource s) db"
  shows "sql_find kr_nik_hris n (db_kar (follow my c s gone db)) = sql_find kr_nik_hris n (db_kar db)
    \<and> sql_find kr_nik_hris (vr_nik_hris r) (db_kar (follow my c s late db)) = sql_find kr_nik_hris (vr_nik_hris r) (db_kar db)"
  using follow_other [OF assms(1)] follow_late [OF assms(2,3)] by blast

lemma mirror_never_learns_witness:
  "sql_find kr_nik_hris ''A1'' (db_kar (follow my_ref \<lparr>vc_batch_size = 500\<rparr> kar_syncer [sample_pass ''r1'' []] empty_db)) = None
   \<and> sql_find kr_nik_hris ''B2'' (db_kar (follow my_ref \<lparr>vc_batch_size = 500\<rparr> kar_syncer
        [sample_pass ''r1'' [sample_src ''B2'' 0], sample_pass ''r2'' [sample_src ''B2'' 0]] empty_db)) = None"
  using mirror_never_learns [where s = kar_syncer and my = my_ref and c = "\<lparr>vc_batch_size = 500\<rparr>" and db = empty_db
      and n = "''A1''" and gone = "[sample_pass ''r1'' []]" and r = "hd (vps_rows [sample_src ''B2'' 0])"
      and late = "[sample_pass ''r1'' [sample_src ''B2'' 0], sample_pass ''r2'' [sample_src ''B2'' 0]]"]
  by (simp add: sample_pass_ok empty_wm [simplified] sample_vps) (simp add: vps_rows_def map_filter_def empty_db_def)

end
