(* ===== verification/SyncLife.thy ===== *)
theory SyncLife
  imports SyncConc Services
begin

text \<open>
  The synchronisation service while it runs and ends, \<open>cmd/sync/main.go\<close> from the start of the
  scheduler on: the initial pass and the passes of the cron ticks are processes of \<^theory_text>\<open>SyncConc\<close>,
  which may overlap. The end follows the code: a signal; \<open>c.Stop()\<close>, whose returned context nobody
  waits for, and the \<open>select\<close>; then the deferred closes in their order, of the source client and
  of the pool. Until the pool closes, a pass goes on with its statements. The close of the pool
  waits for the connections that are in use, as its documentation says, and lets no new statement
  through.
\<close>

datatype sync_phase = YRunning | YStopping | YSourceClosed | YClosing | YReturned

record sync_life =
  yl_conc :: conc
  yl_phase :: sync_phase
  yl_res :: resources
  yl_sources :: int

definition sync_life_start :: "syncdb \<Rightarrow> resources \<Rightarrow> int \<Rightarrow> sync_life" where
  "sync_life_start db rs n = \<lparr>yl_conc = conc_idle db, yl_phase = YRunning, yl_res = rs, yl_sources = n\<rparr>"

section \<open>What a pass meets in each phase\<close>

text \<open>
  After the signal any operation of a pass may fail, as those of the initial pass do, whose
  context is cancelled; what does not fail goes on as before.
\<close>

definition disturbed :: "sync_env \<Rightarrow> sync_env \<Rightarrow> bool" where
  "disturbed e env \<longleftrightarrow>
     env = e\<lparr>se_begin := se_begin env, se_fault := se_fault env, se_commit := se_commit env, se_read := se_read env,
       se_pg := (se_pg e)\<lparr>pg_fault := pg_fault (se_pg env)\<rparr>, se_fetch := se_fetch env\<rparr>
     \<and> (se_begin env = se_begin e \<or> se_begin env \<noteq> None)
     \<and> (\<forall>st. se_fault env st = se_fault e st \<or> se_fault env st \<noteq> None)
     \<and> (se_commit env = se_commit e \<or> se_commit env \<noteq> None)
     \<and> (se_read env = se_read e \<or> (\<exists>x. se_read env = Some x \<and> \<not> errors_is x ''no rows in result set''))
     \<and> (\<forall>q args. pg_fault (se_pg env) q args = pg_fault (se_pg e) q args \<or> pg_fault (se_pg env) q args \<noteq> None)
     \<and> (\<forall>wm. se_fetch env wm = se_fetch e wm \<or> snd (se_fetch env wm) \<noteq> None)"

text \<open>
  The closed pool gives out no connection: no transaction begins, and no statement succeeds that
  is not one of an open transaction.
\<close>

definition pool_shut :: "sync_env \<Rightarrow> bool" where
  "pool_shut env \<longleftrightarrow> se_begin env \<noteq> None
     \<and> (\<exists>x. se_read env = Some x \<and> \<not> errors_is x ''no rows in result set'')
     \<and> (\<forall>q args. \<exists>x. pg_fault (se_pg env) q args = Some (x, False))"

fun phase_env :: "sync_phase \<Rightarrow> (sync_env \<Rightarrow> bool) \<Rightarrow> sync_env \<Rightarrow> bool" where
  "phase_env YRunning E env = E env"
| "phase_env YStopping E env = (\<exists>e. E e \<and> disturbed e env)"
| "phase_env YSourceClosed E env = (\<exists>e. E e \<and> disturbed e env \<and> (\<forall>wm. snd (se_fetch env wm) \<noteq> None))"
| "phase_env YClosing E env = (\<exists>e. E e \<and> disturbed e env \<and> (\<forall>wm. snd (se_fetch env wm) \<noteq> None) \<and> pool_shut env)"
| "phase_env YReturned E env = False"

section \<open>The life of the service\<close>

text \<open>
  \<open>close_pool\<close> is the moment at which the pool is closed and the statements that already held a
  connection outside a transaction have ended; before it they are steps of \<open>YSourceClosed\<close>. The
  process returns when every connection is back: a pass gives up its own only at its end.
\<close>

inductive sync_life_step :: "(sync_env \<Rightarrow> bool) \<Rightarrow> syncer \<Rightarrow> deps \<Rightarrow> sync_life \<Rightarrow> sync_life \<Rightarrow> bool"
  for E :: "sync_env \<Rightarrow> bool" and s :: syncer and d :: deps where
  run:
    "yl_phase l \<noteq> YReturned \<Longrightarrow> sync_step (phase_env (yl_phase l) E) s (yl_conc l) c \<Longrightarrow>
     sync_life_step E s d l (l\<lparr>yl_conc := c\<rparr>)"
| signal:
    "yl_phase l = YRunning \<Longrightarrow> sync_life_step E s d l (l\<lparr>yl_phase := YStopping\<rparr>)"
| close_source:
    "yl_phase l = YStopping \<Longrightarrow>
     sync_life_step E s d l (l\<lparr>yl_phase := YSourceClosed, yl_sources := yl_sources l - 1\<rparr>)"
| close_pool:
    "yl_phase l = YSourceClosed \<Longrightarrow> sync_life_step E s d l (l\<lparr>yl_phase := YClosing\<rparr>)"
| return:
    "yl_phase l = YClosing \<Longrightarrow> (\<And>p. cc_proc (yl_conc l) p = PIdle) \<Longrightarrow>
     sync_life_step E s d l (l\<lparr>yl_phase := YReturned, yl_res := deps_close (Some d) (yl_res l)\<rparr>)"

inductive_cases sync_life_stepE: "sync_life_step E s d l l'"

abbreviation sync_life_reaches :: "(sync_env \<Rightarrow> bool) \<Rightarrow> syncer \<Rightarrow> deps \<Rightarrow> sync_life \<Rightarrow> sync_life \<Rightarrow> bool" where
  "sync_life_reaches E s d \<equiv> (sync_life_step E s d)\<^sup>*\<^sup>*"

section \<open>The life of the service is a run of its passes\<close>

lemma sync_step_mono:
  assumes "sync_step E s c c'" and "\<And>env. E env \<Longrightarrow> E' env"
  shows "sync_step E' s c c'"
  using assms(1)
proof (cases rule: sync_step.cases)
  case (upsert_row env p run_id tx r rs n m raw u kar)
  then show ?thesis by (simp only: sync_step.upsert_row [OF assms(2)])
qed (auto intro: sync_step.intros dest: assms(2))

lemma disturbed_refl [simp]: "disturbed e e"
  by (simp add: disturbed_def)

lemma phase_env_open: "E env \<Longrightarrow> ph \<in> {YRunning, YStopping} \<Longrightarrow> phase_env ph E env"
  by (auto intro!: exI [of _ env])

lemma phase_env_running [simp]: "phase_env YRunning E = E"
  by (simp add: fun_eq_iff)

lemma phase_env_disturbed: "phase_env ph E env \<Longrightarrow> \<exists>e. E e \<and> disturbed e env"
  by (cases ph) auto

lemma life_reachable:
  assumes "sync_life_reaches E s d (sync_life_start db rs n) l"
  shows "sync_reachable (\<lambda>env. \<exists>e. E e \<and> disturbed e env) s db (yl_conc l)"
  using assms
proof (induction rule: rtranclp_induct)
  case base
  then show ?case by (simp add: sync_life_start_def sync_reachable.start)
next
  case (step l l')
  from step.hyps(2) show ?case
  proof (cases rule: sync_life_step.cases)
    case (run c)
    have "sync_step (\<lambda>env. \<exists>e. E e \<and> disturbed e env) s (yl_conc l) c"
      by (rule sync_step_mono [OF run(3) phase_env_disturbed])
    with step.IH run show ?thesis by (simp add: sync_reachable.step)
  qed (use step.IH in simp_all)
qed

lemma disturbed_fetches:
  "disturbed e env \<Longrightarrow> se_fetch e = fetch \<and> read_faults_proper e \<Longrightarrow> fetches fetch env"
  by (auto simp: disturbed_def fetches_def read_faults_proper_def)

text \<open>The lock is held only by an open transaction.\<close>

definition lock_owned :: "conc \<Rightarrow> bool" where
  "lock_owned c \<longleftrightarrow> (\<forall>p. cc_lock c = Some p \<longrightarrow> open_tx (cc_proc c p) \<noteq> None)"

lemma lock_owned_end: "lock_owned c \<Longrightarrow> lock_owned (end_tx p pr db c)"
  by (auto simp: lock_owned_def end_tx_def)

lemma lock_owned_step:
  assumes "sync_step E s c c'" and "lock_owned c"
  shows "lock_owned c'"
  using assms(1)
proof (cases rule: sync_step.cases)
  case (begin_pass env p tx1 run_id tx2)
  have "\<not> tx_aborted tx2"
    using begin_pass(6,7) by (auto simp: tx_exec_def insert_run_def tx_begin_def split: option.splits if_splits)
  with begin_pass show ?thesis by (simp add: lock_owned_def)
next
  case (read_batch env p run_id tx wm rs)
  with assms(2) show ?thesis by (auto simp: lock_owned_def)
next
  case (upsert_row env p run_id tx r rs n m raw u kar)
  with assms(2) show ?thesis by (auto simp: lock_owned_def)
next
  case (cleanup fault now0 now1 stale)
  with assms(2) show ?thesis by (simp add: lock_owned_def)
qed (use assms(2) in \<open>simp_all add: lock_owned_end\<close>)

lemma reachable_lock_owned: "sync_reachable E s db0 c \<Longrightarrow> lock_owned c"
proof (induction rule: sync_reachable.induct)
  case start
  then show ?case by (simp add: lock_owned_def conc_idle_def)
next
  case (step c c')
  then show ?case by (blast intro: lock_owned_step)
qed

text \<open>What the phases do to the handles.\<close>

lemma life_handles:
  assumes "sync_life_reaches E s d (sync_life_start db rs n) l"
  shows "(yl_phase l \<noteq> YReturned \<longrightarrow> yl_res l = rs)
    \<and> yl_sources l = (if yl_phase l \<in> {YRunning, YStopping} then n else n - 1)
    \<and> (yl_phase l = YReturned \<longrightarrow> yl_res l = deps_close (Some d) rs \<and> (\<forall>p. cc_proc (yl_conc l) p = PIdle))"
  using assms
proof (induction rule: rtranclp_induct)
  case base
  then show ?case by (simp add: sync_life_start_def)
next
  case (step l l')
  from step.hyps(2) step.IH show ?case by (cases rule: sync_life_step.cases) auto
qed

section \<open>Properties\<close>

text \<open>
  Property C19. Ending the service at any moment is safe. Whatever passes overlap, whenever the signal comes
  and whatever fails while the pool closes: in every state the mirror is complete up to the
  committed watermark and no committed run is "running"; and when the service has returned, it
  has closed what it opened and the advisory lock is free for the next instance.
\<close>

theorem sync_shutdown_safe:
  assumes "sync_life_reaches E s d (sync_life_start db rs n) l"
    and "\<And>env. E env \<Longrightarrow> se_fetch env = fetch_karyawan_updated_since my cl t \<and> read_faults_proper env"
    and "keyed my_nik_hris t" and "inj_on vr_updated_at (set (vps_rows t))"
    and "no_running (db_runs db)" and "mirror_upto (wm_of (sy_resource s) db) (vps_rows t) (db_kar db)"
  shows "mirror_upto (wm_of (sy_resource s) (cc_db (yl_conc l))) (vps_rows t) (db_kar (cc_db (yl_conc l)))
    \<and> no_running (db_runs (cc_db (yl_conc l)))
    \<and> (yl_phase l = YReturned \<longrightarrow> cc_lock (yl_conc l) = None \<and> yl_res l = deps_close (Some d) rs \<and> yl_sources l = n - 1)"
proof -
  note r = life_reachable [OF assms(1)]
  have f: "fetches (fetch_karyawan_updated_since my cl t) env" if "\<exists>e. E e \<and> disturbed e env" for env
    using that disturbed_fetches assms(2) by blast
  have "mirror_inv (fetch_karyawan_updated_since my cl t) (vps_rows t) s (yl_conc l)"
    by (rule vps.reachable_mirror_inv [OF r f keyed_vps_rows [OF assms(3)] vps.unique_times_tie_free [OF assms(4)] assms(5,6)])
  moreover have "lock_inv s (yl_conc l)" by (rule reachable_lock_inv [OF r assms(5)])
  moreover have "cc_lock (yl_conc l) = None" if "\<forall>p. cc_proc (yl_conc l) p = PIdle"
    using reachable_lock_owned [OF r] that by (cases "cc_lock (yl_conc l)") (auto simp: lock_owned_def)
  ultimately show ?thesis using life_handles [OF assms(1)] by (auto simp: mirror_inv_def lock_inv_def)
qed

text \<open>Until the source is closed, what a pass can do while the service runs it can do as well.\<close>

lemma life_runs:
  "(sync_step E s)\<^sup>*\<^sup>* (yl_conc l) c \<Longrightarrow> yl_phase l \<in> {YRunning, YStopping} \<Longrightarrow> sync_life_reaches E s d l (l\<lparr>yl_conc := c\<rparr>)"
proof (induction rule: rtranclp_induct)
  case base
  then show ?case by simp
next
  case (step c c')
  have "sync_step (phase_env (yl_phase l) E) s c c'"
    by (rule sync_step_mono [OF step.hyps(2) phase_env_open]) (use step.prems in auto)
  then have "sync_life_step E s d (l\<lparr>yl_conc := c\<rparr>) (l\<lparr>yl_conc := c\<rparr>\<lparr>yl_conc := c'\<rparr>)"
    by (intro sync_life_step.run) (use step.prems in auto)
  with step show ?case by (auto intro: rtranclp.rtrancl_into_rtrancl)
qed

text \<open>The closes follow each other whatever is in flight.\<close>

definition closing_now :: "sync_life \<Rightarrow> sync_life" where
  "closing_now l = l\<lparr>yl_sources := (if yl_phase l \<in> {YRunning, YStopping} then yl_sources l - 1 else yl_sources l),
     yl_phase := YClosing\<rparr>"

lemma closing_now_id: "yl_phase l = YClosing \<Longrightarrow> closing_now l = l"
  by (simp add: closing_now_def)

lemma closing_now_reached:
  assumes "yl_phase l \<noteq> YReturned"
  shows "sync_life_reaches E s d l (closing_now l)"
proof -
  have pool: "sync_life_reaches E s d l (l\<lparr>yl_phase := YClosing\<rparr>)" if "yl_phase l = YSourceClosed" for l
    using sync_life_step.close_pool [OF that] by (rule r_into_rtranclp)
  have source: "sync_life_reaches E s d l (l\<lparr>yl_sources := yl_sources l - 1, yl_phase := YClosing\<rparr>)" if "yl_phase l = YStopping" for l
    using converse_rtranclp_into_rtranclp [OF sync_life_step.close_source [OF that] pool] by simp
  have stop: "sync_life_reaches E s d l (l\<lparr>yl_sources := yl_sources l - 1, yl_phase := YClosing\<rparr>)" if "yl_phase l = YRunning" for l
    using converse_rtranclp_into_rtranclp [OF sync_life_step.signal [OF that] source] by simp
  show ?thesis
  proof (cases "yl_phase l = YClosing")
    case True
    then show ?thesis by (simp add: closing_now_id)
  next
    case False
    then show ?thesis
      using assms pool [of l] source [of l] stop [of l] by (cases "yl_phase l") (simp_all add: closing_now_def)
  qed
qed

text \<open>A service that is told to stop while a pass begins: the pass upserts and commits, and the service returns.\<close>

lemma sync_shutdown_safe_witness:
  "\<forall>d. \<exists>l. sync_life_reaches (\<lambda>e. e = sync_ref (fetch_karyawan_updated_since my_ref \<lparr>vc_batch_size = 1\<rparr> [sample_src ''A1'' 1000000]))
       kar_syncer d (sync_life_start empty_db \<lparr>rs_pools = 1, rs_redis = 1\<rparr> 1) l
     \<and> yl_phase l = YReturned \<and> cc_lock (yl_conc l) = None
     \<and> mirror_upto (wm_of ''karyawan'' (cc_db (yl_conc l))) (vps_rows [sample_src ''A1'' 1000000]) (db_kar (cc_db (yl_conc l)))"
proof
  fix d :: deps
  let ?t = "[sample_src ''A1'' 1000000]"
  let ?env = "sync_ref (fetch_karyawan_updated_since my_ref \<lparr>vc_batch_size = 1\<rparr> ?t)"
  let ?E = "\<lambda>e. e = ?env" and ?rs = "\<lparr>rs_pools = 1, rs_redis = 1\<rparr>"
  let ?c = "conc_idle (snd (sync_karyawan ?env kar_syncer ''r1'' empty_db))"
  let ?l1 = "(sync_life_start empty_db ?rs 1)\<lparr>yl_phase := YStopping\<rparr>"
  let ?l2 = "?l1\<lparr>yl_conc := ?c\<rparr>"
  let ?l3 = "(closing_now ?l2)\<lparr>yl_phase := YReturned, yl_res := deps_close (Some d) (yl_res (closing_now ?l2))\<rparr>"
  have "sync_life_step ?E kar_syncer d (sync_life_start empty_db ?rs 1) ?l1"
    by (rule sync_life_step.signal) (simp add: sync_life_start_def)
  moreover have "sync_life_reaches ?E kar_syncer d ?l1 ?l2"
    using pass_is_steps [where E = ?E and env = ?env and s = kar_syncer and db = empty_db and run_id = "''r1''"]
    by (intro life_runs) (simp_all add: sync_life_start_def)
  moreover have "sync_life_reaches ?E kar_syncer d ?l2 (closing_now ?l2)" by (rule closing_now_reached) simp
  moreover have "sync_life_step ?E kar_syncer d (closing_now ?l2) ?l3"
    by (rule sync_life_step.return) (simp_all add: conc_idle_def closing_now_def)
  ultimately have r: "sync_life_reaches ?E kar_syncer d (sync_life_start empty_db ?rs 1) ?l3"
    by (meson rtranclp_trans r_into_rtranclp)
  have rows: "keyed my_nik_hris ?t" "inj_on vr_updated_at (set (vps_rows ?t))"
    by (simp_all add: keyed_def vps_rows_def map_filter_def sample_scan)
  have m0: "mirror_upto (wm_of (sy_resource kar_syncer) empty_db) (vps_rows ?t) (db_kar empty_db)"
    by (simp add: mirror_upto_def wm_of_def wm_state_def empty_db_def vps_rows_def map_filter_def sample_scan)
  have n0: "no_running (db_runs empty_db)" by (simp add: no_running_def empty_db_def)
  have "mirror_upto (wm_of (sy_resource kar_syncer) (cc_db (yl_conc ?l3))) (vps_rows ?t) (db_kar (cc_db (yl_conc ?l3)))
    \<and> no_running (db_runs (cc_db (yl_conc ?l3)))
    \<and> (yl_phase ?l3 = YReturned \<longrightarrow> cc_lock (yl_conc ?l3) = None \<and> yl_res ?l3 = deps_close (Some d) ?rs \<and> yl_sources ?l3 = 1 - 1)"
    by (rule sync_shutdown_safe [OF r _ rows n0 m0, where my = my_ref and cl = "\<lparr>vc_batch_size = 1\<rparr>"])
      (simp add: healthy_proper sync_ref_healthy)
  with r show "\<exists>l. sync_life_reaches ?E kar_syncer d (sync_life_start empty_db ?rs 1) l \<and> yl_phase l = YReturned
     \<and> cc_lock (yl_conc l) = None \<and> mirror_upto (wm_of ''karyawan'' (cc_db (yl_conc l))) (vps_rows ?t) (db_kar (cc_db (yl_conc l)))"
    by (intro exI [of _ ?l3]) simp
qed

section \<open>The pass in flight\<close>

text \<open>No open transaction has its whole batch upserted.\<close>

definition unfinished :: "conc \<Rightarrow> bool" where
  "unfinished c \<longleftrightarrow> (\<forall>p run_id tx n m. cc_proc c p = PRows run_id tx [] n m \<longrightarrow> tx_aborted tx)"

lemma closed_upsert:
  assumes "pool_shut env"
  shows "\<exists>e. repo_upsert (se_pg env) now k t = (Inl e, t)"
proof -
  obtain e where "pg_fault (se_pg env) upsert_sql (upsert_args k) = Some (e, False)"
    using assms by (auto simp: pool_shut_def)
  then show ?thesis by (simp add: repo_upsert_def)
qed

lemma closed_row:
  assumes "pool_shut env"
  shows "\<exists>cause. sync_rows env (r # rs) n m t = (Inl cause, t)"
proof (cases "json_marshal (raw_payload r)")
  case (Inr raw)
  from closed_upsert [OF assms] obtain e where "repo_upsert (se_pg env) (se_server_now env) (to_karyawan r raw) t = (Inl e, t)" by blast
  with Inr show ?thesis by simp
qed simp

lemma closed_read: "pool_shut env \<Longrightarrow> \<exists>e. read_watermark env resource db = Inl (ErrWrap ''read watermark'' e)"
  by (auto simp: pool_shut_def read_watermark_def)

lemma closing_shut: "phase_env YClosing E env \<Longrightarrow> pool_shut env"
  by auto

lemma unfinished_end: "unfinished c \<Longrightarrow> unfinished (end_tx p PIdle db c)"
  by (simp add: unfinished_def end_tx_def)

lemma closing_step:
  assumes "sync_step (phase_env YClosing E) s c c'" and "lock_inv s c" and "unfinished c"
  shows "unfinished c' \<and> wm_of (sy_resource s) (cc_db c') = wm_of (sy_resource s) (cc_db c) \<and> db_kar (cc_db c') = db_kar (cc_db c)"
proof -
  have fails: "wm_of (sy_resource s) (snd (fail_run env s run_id cause tx (cc_db c))) = wm_of (sy_resource s) (cc_db c)
      \<and> db_kar (snd (fail_run env s run_id cause tx (cc_db c))) = db_kar (cc_db c)"
    if "tx_aborted tx \<or> open_tx (cc_proc c p) = Some (run_id, tx)" for env run_id cause tx p
    by (rule tx_effect_wm [OF fail_run_effect [OF current_tx [OF assms(2) that]]])
  from assms(1) show ?thesis
  proof (cases rule: sync_step.cases)
    case (begin_pass env p tx1 run_id tx2)
    with closing_shut [OF begin_pass(2)] have False by (simp add: pool_shut_def)
    then show ?thesis ..
  next
    case (read_batch env p run_id tx wm rs)
    with closed_read [OF closing_shut [OF read_batch(2)], of "sy_resource s" "cc_db c"] show ?thesis by auto
  next
    case (read_fails env p run_id tx e cause wm rs)
    with fails [of tx p run_id env cause] assms(3) show ?thesis
      by (simp add: unfinished_end) (simp add: end_tx_def)
  next
    case (upsert_row env p run_id tx r rs n m raw u kar)
    with closed_upsert [OF closing_shut [OF upsert_row(2)], of "se_server_now env" "to_karyawan r raw" "db_kar (cc_db c)"] show ?thesis by auto
  next
    case (row_fails env p run_id tx r rs n m cause kar)
    have "kar = db_kar (cc_db c)"
      using closed_row [OF closing_shut [OF row_fails(2)], of r "[]" n m "db_kar (cc_db c)"] row_fails(4) by auto
    with row_fails fails [of tx p run_id env cause] assms(3) show ?thesis
      by (simp add: unfinished_end) (simp add: end_tx_def)
  next
    case (finish env p run_id tx n m)
    have "tx_aborted tx" using assms(3) finish(3) unfolding unfinished_def by blast
    moreover from this have "tx_aborted tx \<or> tx_current s (cc_db c) run_id tx" by simp
    from sync_finish_effect [OF this] have "tx_effect s tx m (cc_db c) (snd (sync_finish env s run_id n m tx (cc_db c)))" .
    ultimately have "snd (sync_finish env s run_id n m tx (cc_db c)) = cc_db c" by (simp add: tx_effect_def)
    with finish assms(3) show ?thesis by (simp add: unfinished_end) (simp add: end_tx_def)
  next
    case (lose p)
    have "unfinished (end_tx p (lose_tx (cc_proc c p)) (cc_db c) c)"
      using assms(3) by (cases "cc_proc c p") (auto simp: unfinished_def end_tx_def)
    with lose show ?thesis by (simp add: end_tx_def)
  next
    case (crash p)
    with assms(3) show ?thesis by (simp add: unfinished_end) (simp add: end_tx_def)
  next
    case (cleanup fault now0 now1 stale)
    with assms(3) show ?thesis by (simp add: unfinished_def wm_of_def)
  qed
qed

lemma closing_reaches:
  assumes "sync_life_reaches E s d l l'" and "yl_phase l = YClosing" and "lock_inv s (yl_conc l)" and "unfinished (yl_conc l)"
  shows "yl_phase l' \<in> {YClosing, YReturned} \<and> lock_inv s (yl_conc l') \<and> unfinished (yl_conc l')
    \<and> wm_of (sy_resource s) (cc_db (yl_conc l')) = wm_of (sy_resource s) (cc_db (yl_conc l))
    \<and> db_kar (cc_db (yl_conc l')) = db_kar (cc_db (yl_conc l))"
  using assms
proof (induction rule: rtranclp_induct)
  case (step l' l'')
  then have ih: "yl_phase l' \<in> {YClosing, YReturned}" "lock_inv s (yl_conc l')" "unfinished (yl_conc l')"
    "wm_of (sy_resource s) (cc_db (yl_conc l')) = wm_of (sy_resource s) (cc_db (yl_conc l))"
    "db_kar (cc_db (yl_conc l')) = db_kar (cc_db (yl_conc l))" by simp_all
  from step.hyps(2) show ?case
  proof (cases rule: sync_life_step.cases)
    case (run c)
    then have c: "sync_step (phase_env YClosing E) s (yl_conc l') c" using ih(1) by auto
    from closing_step [OF c ih(2,3)] lock_inv_step [OF c ih(2)] show ?thesis
      using run ih by simp
  qed (use ih in auto)
qed simp

text \<open>
  Property C22. A shutdown does not wait for the pass in flight. At whatever point the signal finds the
  passes, the closes can follow at once, with nothing of a pass done in between, the fifteen
  seconds that the code sets aside for it notwithstanding; and where no pass in flight has all
  its batch upserted at the moment the pool is closed, nothing that follows, up to the return,
  moves the watermark or changes a row of the mirror: the passes end as failed ones.
\<close>

theorem shutdown_fails_pass:
  assumes "sync_life_reaches E s d (sync_life_start db rs n) l" and "no_running (db_runs db)"
    and "yl_phase l \<noteq> YRunning" and "yl_phase l \<noteq> YReturned" and "unfinished (yl_conc l)"
  shows "\<exists>l1. sync_life_reaches E s d l l1 \<and> yl_phase l1 = YClosing \<and> yl_conc l1 = yl_conc l
    \<and> (yl_phase l = YClosing \<longrightarrow> l1 = l)
    \<and> (\<forall>l'. sync_life_reaches E s d l1 l' \<longrightarrow>
         wm_of (sy_resource s) (cc_db (yl_conc l')) = wm_of (sy_resource s) (cc_db (yl_conc l))
         \<and> db_kar (cc_db (yl_conc l')) = db_kar (cc_db (yl_conc l)))"
proof -
  have "lock_inv s (yl_conc l)" by (rule reachable_lock_inv [OF life_reachable [OF assms(1)] assms(2)])
  then have "wm_of (sy_resource s) (cc_db (yl_conc l')) = wm_of (sy_resource s) (cc_db (yl_conc l))
      \<and> db_kar (cc_db (yl_conc l')) = db_kar (cc_db (yl_conc l))" if "sync_life_reaches E s d (closing_now l) l'" for l'
    using closing_reaches [OF that] assms(5) by (simp add: closing_now_def)
  then show ?thesis
    using closing_now_reached [OF assms(4)] closing_now_id [of l]
    by (intro exI [of _ "closing_now l"]) (simp add: closing_now_def)
qed

text \<open>A pass has begun when the signal comes.\<close>

definition begun_life :: sync_life where
  "begun_life = (sync_life_start empty_db \<lparr>rs_pools = 1, rs_redis = 1\<rparr> 1)\<lparr>
     yl_conc := (conc_idle empty_db)\<lparr>cc_lock := Some 3, cc_proc := (cc_proc (conc_idle empty_db))
       (3 := PBegun ''r1'' (running_tx (sync_ref (\<lambda>_. ([], None))) kar_syncer ''r1'' empty_db))\<rparr>,
     yl_phase := YStopping\<rparr>"

lemma begun_reached:
  "sync_life_reaches (\<lambda>e. True) kar_syncer d (sync_life_start empty_db \<lparr>rs_pools = 1, rs_redis = 1\<rparr> 1) begun_life"
proof -
  let ?env = "sync_ref (\<lambda>_. ([], None))" and ?l0 = "sync_life_start empty_db \<lparr>rs_pools = 1, rs_redis = 1\<rparr> 1"
  let ?c = "(conc_idle empty_db)\<lparr>cc_lock := Some 3, cc_proc := (cc_proc (conc_idle empty_db))
      (3 := PBegun ''r1'' (running_tx ?env kar_syncer ''r1'' empty_db))\<rparr>"
  have "sync_step (\<lambda>e. True) kar_syncer (conc_idle empty_db) ?c"
    by (rule sync_step.begin_pass [where env = ?env and ?tx1.0 = "tx_begin empty_db" and c = "conc_idle empty_db" and p = 3
          and run_id = "''r1''" and ?tx2.0 = "running_tx ?env kar_syncer ''r1'' empty_db"])
      (simp_all add: conc_idle_def tx_exec_def sync_ref_def insert_run_def running_tx_def new_run_def tx_begin_def empty_db_def)
  then have "sync_life_step (\<lambda>e. True) kar_syncer d ?l0 (?l0\<lparr>yl_conc := ?c\<rparr>)"
    by (intro sync_life_step.run) (simp_all add: sync_life_start_def)
  moreover have "sync_life_step (\<lambda>e. True) kar_syncer d (?l0\<lparr>yl_conc := ?c\<rparr>) (?l0\<lparr>yl_conc := ?c\<rparr>\<lparr>yl_phase := YStopping\<rparr>)"
    by (rule sync_life_step.signal) (simp add: sync_life_start_def)
  ultimately show ?thesis unfolding begun_life_def by (meson rtranclp.rtrancl_into_rtrancl rtranclp.rtrancl_refl)
qed

lemma begun_phase: "yl_phase begun_life = YStopping" "cc_proc (yl_conc begun_life) 3 \<noteq> PIdle"
  by (simp_all add: begun_life_def)

section \<open>The service can return\<close>

definition active :: "conc \<Rightarrow> nat set" where
  "active c = {p. cc_proc c p \<noteq> PIdle}"

lemma finite_active_step:
  assumes "sync_step E s c c'" and "finite (active c)"
  shows "finite (active c')"
proof -
  have "\<exists>p. active c' \<subseteq> insert p (active c)"
    using assms(1) by (cases rule: sync_step.cases) (auto simp: active_def end_tx_def)
  then show ?thesis using assms(2) finite_subset by blast
qed

lemma reachable_finite_active: "sync_reachable E s db0 c \<Longrightarrow> finite (active c)"
proof (induction rule: sync_reachable.induct)
  case start
  then show ?case by (simp add: active_def conc_idle_def)
next
  case (step c c')
  then show ?case by (blast intro: finite_active_step)
qed

text \<open>The closed world of an environment, and every active process ends in one step there.\<close>

definition closed :: "sync_env \<Rightarrow> sync_env" where
  "closed e = e\<lparr>se_begin := Some (ErrNew ''closed pool''), se_read := Some (ErrNew ''closed pool''),
     se_pg := (se_pg e)\<lparr>pg_fault := (\<lambda>_ _. Some (ErrNew ''closed pool'', False))\<rparr>,
     se_fetch := (\<lambda>_. ([], Some (ErrNew ''sql: database is closed'')))\<rparr>"

lemma closed_env: "E e \<Longrightarrow> phase_env YClosing E (closed e)"
  by (auto simp: disturbed_def pool_shut_def closed_def intro!: exI [of _ e])

lemma closing_progress:
  assumes "E e" and "p \<in> active c"
  shows "\<exists>db. sync_step (phase_env YClosing E) s c (end_tx p PIdle db c)"
proof -
  note shut = closing_shut [OF closed_env [where E = E, OF assms(1)]]
  show ?thesis
  proof (cases "cc_proc c p")
    case PIdle
    with assms(2) show ?thesis by (simp add: active_def)
  next
    case (PBegun run_id tx)
    obtain x where "read_watermark (closed e) (sy_resource s) (cc_db c) = Inl (ErrWrap ''read watermark'' x)"
      using closed_read [OF shut] by blast
    with sync_step.read_fails [where E = "phase_env YClosing E", OF closed_env [where E = E, OF assms(1)] PBegun] show ?thesis by blast
  next
    case (PRows run_id tx rows n m)
    show ?thesis
    proof (cases rows)
      case Nil
      from sync_step.finish [where E = "phase_env YClosing E", OF closed_env [where E = E, OF assms(1)] PRows [unfolded Nil]] show ?thesis by blast
    next
      case (Cons r rs)
      obtain cause where "sync_rows (closed e) [r] n m (db_kar (cc_db c)) = (Inl cause, db_kar (cc_db c))"
        using closed_row [OF shut] by blast
      from sync_step.row_fails [where E = "phase_env YClosing E", OF closed_env [where E = E, OF assms(1)] PRows [unfolded Cons] this] show ?thesis by blast
    qed
  qed
qed

lemma can_drain:
  assumes "E e" and "yl_phase l = YClosing" and "finite (active (yl_conc l))"
  shows "\<exists>l'. sync_life_reaches E s d l l' \<and> yl_phase l' = YClosing \<and> active (yl_conc l') = {}"
  using assms(2,3)
proof (induction "card (active (yl_conc l))" arbitrary: l)
  case 0
  then show ?case by auto
next
  case (Suc k)
  then obtain p where p: "p \<in> active (yl_conc l)" by (metis card_eq_0_iff ex_in_conv nat.distinct(1))
  then obtain db where "sync_step (phase_env YClosing E) s (yl_conc l) (end_tx p PIdle db (yl_conc l))"
    using closing_progress [where E = E, OF assms(1)] by blast
  then have step: "sync_life_step E s d l (l\<lparr>yl_conc := end_tx p PIdle db (yl_conc l)\<rparr>)"
    using Suc.prems(1) by (intro sync_life_step.run) simp_all
  let ?l = "l\<lparr>yl_conc := end_tx p PIdle db (yl_conc l)\<rparr>"
  have act: "active (yl_conc ?l) = active (yl_conc l) - {p}" by (auto simp: active_def end_tx_def)
  then have "k = card (active (yl_conc ?l))" using Suc.hyps(2) p Suc.prems(2) by simp
  from Suc.hyps(1) [OF this] Suc.prems act step show ?case
    by (auto intro: converse_rtranclp_into_rtranclp)
qed

lemma shutdown_fails_pass_witness:
  "\<forall>d. \<exists>l'. sync_life_reaches (\<lambda>e. True) kar_syncer d begun_life l' \<and> active (yl_conc l') = {} \<and> db_kar (cc_db (yl_conc l')) = []"
proof
  fix d :: deps
  let ?R = "sync_life_reaches (\<lambda>e. True) kar_syncer d"
  have "no_running (db_runs empty_db)" and "unfinished (yl_conc begun_life)"
    by (simp_all add: no_running_def empty_db_def unfinished_def begun_life_def conc_idle_def)
  from shutdown_fails_pass [OF begun_reached this(1) _ _ this(2)] begun_phase(1)
  obtain l1 where l1: "?R begun_life l1" "yl_phase l1 = YClosing"
    "\<And>l'. ?R l1 l' \<Longrightarrow> db_kar (cc_db (yl_conc l')) = db_kar (cc_db (yl_conc begun_life))"
    by (metis sync_phase.distinct(1) sync_phase.distinct(13))
  have "?R (sync_life_start empty_db \<lparr>rs_pools = 1, rs_redis = 1\<rparr> 1) l1"
    using begun_reached l1(1) by (rule rtranclp_trans)
  from can_drain [where E = "\<lambda>e. True", OF TrueI l1(2) reachable_finite_active [OF life_reachable [OF this]]]
  obtain l' where "?R l1 l'" "active (yl_conc l') = {}" by blast
  with l1(1,3) show "\<exists>l'. ?R begun_life l' \<and> active (yl_conc l') = {} \<and> db_kar (cc_db (yl_conc l')) = []"
    by (intro exI [of _ l']) (auto simp: begun_life_def conc_idle_def empty_db_def)
qed

text \<open>
  The service can always return: from every state of the shutdown, however many passes are in
  flight, the closes and one failing or finishing step of each pass lead to a state in which the
  service returns, with its handles closed and the advisory lock free.
\<close>

theorem sync_service_can_return:
  assumes "sync_life_reaches E s d (sync_life_start db rs n) l" and "yl_phase l \<noteq> YReturned" and "E e"
  shows "\<exists>l'. sync_life_reaches E s d l l' \<and> yl_phase l' = YReturned \<and> cc_lock (yl_conc l') = None
    \<and> active (yl_conc l') = {} \<and> yl_res l' = deps_close (Some d) rs"
proof -
  note now = closing_now_reached [where E = E and s = s and d = d, OF assms(2)]
  have phase: "yl_phase (closing_now l) = YClosing" by (simp add: closing_now_def)
  from can_drain [where E = E, OF assms(3) phase reachable_finite_active [OF life_reachable [OF rtranclp_trans [OF assms(1) now]]]]
  obtain l' where l': "sync_life_reaches E s d (closing_now l) l'" "yl_phase l' = YClosing" "active (yl_conc l') = {}" by blast
  have idle: "cc_proc (yl_conc l') p = PIdle" for p using l'(3) by (auto simp: active_def)
  let ?l = "l'\<lparr>yl_phase := YReturned, yl_res := deps_close (Some d) (yl_res l')\<rparr>"
  have r': "sync_life_reaches E s d (sync_life_start db rs n) l'"
    using assms(1) now l'(1) by (meson rtranclp_trans)
  have "sync_life_step E s d l' ?l" by (rule sync_life_step.return [OF l'(2) idle])
  moreover have "cc_lock (yl_conc l') = None"
    using reachable_lock_owned [OF life_reachable [OF r']] idle by (cases "cc_lock (yl_conc l')") (auto simp: lock_owned_def)
  moreover have "yl_res l' = rs" using life_handles [OF r'] l'(2) by simp
  moreover have "sync_life_reaches E s d l l'" using now l'(1) by (rule rtranclp_trans)
  ultimately show ?thesis using l' by (intro exI [of _ ?l]) (auto intro: rtranclp.rtrancl_into_rtrancl)
qed

lemma sync_service_can_return_witness:
  "\<forall>d. \<exists>l'. sync_life_reaches (\<lambda>e. True) kar_syncer d begun_life l' \<and> yl_phase l' = YReturned \<and> cc_lock (yl_conc l') = None"
proof
  fix d :: deps
  have "yl_phase begun_life \<noteq> YReturned" by (simp add: begun_phase(1))
  from sync_service_can_return [where E = "\<lambda>e. True", OF begun_reached this TrueI]
  show "\<exists>l'. sync_life_reaches (\<lambda>e. True) kar_syncer d begun_life l' \<and> yl_phase l' = YReturned \<and> cc_lock (yl_conc l') = None" by blast
qed

end
