(* ===== verification/ApiLife.thy ===== *)
theory ApiLife
  imports Gateway Services "HOL-Library.Multiset"
begin

text \<open>
  The API service while it runs and ends, \<open>cmd/api/main.go\<close> from the start of the listener on: the
  listener's goroutine and its error channel, the signal, \<open>Shutdown\<close> with its deadline of ten
  seconds, and the deferred close. The requests are those of \<^theory_text>\<open>Gateway\<close>. As its documentation says,
  \<open>http.Server.Shutdown\<close> closes the listener, closes the idle connections, then waits until no
  connection is in use or its context is done; it does not interrupt a request. So a request can be read after the
  listener has closed, on a connection that was accepted before. The close of the pool follows:
  requests that are in flight then go on without a database, until the process ends.
\<close>

datatype api_phase = AServing | ASignalled | ADraining | AShutdown | AClosing | AEnded service_end

text \<open>
  \<open>al_arrived\<close> holds the requests that were read, \<open>al_conns\<close> counts the accepted connections whose
  next request has not been read, and \<open>al_waited\<close> the milliseconds since the context of \<open>Shutdown\<close> was made.
\<close>

record api_life =
  al_gate :: gate
  al_phase :: api_phase
  al_res :: resources
  al_arrived :: "request list"
  al_conns :: nat
  al_waited :: nat

fun arrived :: "event \<Rightarrow> request list" where
  "arrived (EvArrive p rq) = [rq]"
| "arrived e = []"

text \<open>What takes place in the process itself; a restart is another life.\<close>

definition in_process :: "event \<Rightarrow> bool" where
  "in_process e \<longleftrightarrow> e \<noteq> EvRestart"

text \<open>The service's own statements once its pool is closed; the other processes have pools of their own.\<close>

definition pool_closed :: "api_env \<Rightarrow> bool" where
  "pool_closed env \<longleftrightarrow> (\<forall>q args. pg_fault (ae_pg env) q args = Some (ErrNew ''closed pool'', False))"

fun without_pool :: "event \<Rightarrow> bool" where
  "without_pool (EvAuth p env) = pool_closed env"
| "without_pool (EvHandle p env) = pool_closed env"
| "without_pool (EvAudit env n) = pool_closed env"
| "without_pool e = True"

fun alive :: "api_phase \<Rightarrow> bool" where
  "alive (AEnded e) = False"
| "alive ph = True"

definition api_life_start :: "gate \<Rightarrow> resources \<Rightarrow> api_life" where
  "api_life_start g rs =
     \<lparr>al_gate = g, al_phase = AServing, al_res = rs, al_arrived = [], al_conns = 0, al_waited = 0\<rparr>"

text \<open>
  \<open>close_pool\<close> is the moment at which the pool is closed and the statements that held a connection
  have ended; before it they are steps of \<open>AShutdown\<close>.
\<close>

inductive api_life_step ::
  "server_config \<Rightarrow> chi \<Rightarrow> (rl_metrics \<Rightarrow> response) \<Rightarrow> deps \<Rightarrow> api_life \<Rightarrow> api_life \<Rightarrow> bool"
  for cfg :: server_config and chi :: chi and prom :: "rl_metrics \<Rightarrow> response" and d :: deps where
  accept:
    "al_phase l = AServing \<or> al_phase l = ASignalled \<Longrightarrow>
     api_life_step cfg chi prom d l (l\<lparr>al_conns := al_conns l + 1\<rparr>)"
| hang_up:
    "alive (al_phase l) \<Longrightarrow> api_life_step cfg chi prom d l (l\<lparr>al_conns := al_conns l - 1\<rparr>)"
| serve:
    "alive (al_phase l) \<Longrightarrow> in_process e \<Longrightarrow> al_phase l = AClosing \<longrightarrow> without_pool e \<Longrightarrow>
     length (arrived e) \<le> al_conns l \<Longrightarrow> gate_step cfg chi prom (al_gate l) e g \<Longrightarrow>
     api_life_step cfg chi prom d l
       (l\<lparr>al_gate := g, al_arrived := al_arrived l @ arrived e, al_conns := al_conns l - length (arrived e)\<rparr>)"
| listener_fails:
    "al_phase l = AServing \<Longrightarrow> api_life_step cfg chi prom d l (l\<lparr>al_phase := AEnded (ServiceExits 1)\<rparr>)"
| signal:
    "al_phase l = AServing \<Longrightarrow> api_life_step cfg chi prom d l (l\<lparr>al_phase := ASignalled, al_waited := 0\<rparr>)"
| close_listener:
    "al_phase l = ASignalled \<Longrightarrow> api_life_step cfg chi prom d l (l\<lparr>al_phase := ADraining\<rparr>)"
| tick:
    "al_phase l = ASignalled \<or> al_phase l = ADraining \<Longrightarrow>
     api_life_step cfg chi prom d l (l\<lparr>al_waited := al_waited l + k\<rparr>)"
| drained:
    "al_phase l = ADraining \<Longrightarrow> gt_flight (al_gate l) = (\<lambda>_. None) \<Longrightarrow> al_conns l = 0 \<Longrightarrow>
     api_life_step cfg chi prom d l (l\<lparr>al_phase := AShutdown\<rparr>)"
| deadline:
    "al_phase l = ADraining \<Longrightarrow> 10000 \<le> al_waited l \<Longrightarrow>
     api_life_step cfg chi prom d l (l\<lparr>al_phase := AShutdown\<rparr>)"
| close_pool:
    "al_phase l = AShutdown \<Longrightarrow> api_life_step cfg chi prom d l (l\<lparr>al_phase := AClosing\<rparr>)"
| return:
    "al_phase l = AClosing \<Longrightarrow>
     api_life_step cfg chi prom d l (l\<lparr>al_phase := AEnded ServiceReturns, al_res := deps_close (Some d) (al_res l)\<rparr>)"

abbreviation api_life_reaches ::
  "server_config \<Rightarrow> chi \<Rightarrow> (rl_metrics \<Rightarrow> response) \<Rightarrow> deps \<Rightarrow> api_life \<Rightarrow> api_life \<Rightarrow> bool" where
  "api_life_reaches cfg chi prom d \<equiv> (api_life_step cfg chi prom d)\<^sup>*\<^sup>*"

section \<open>Every request is answered or in flight\<close>

text \<open>A request as it was read, before the router put its URL parameters in.\<close>

definition bare :: "request \<Rightarrow> request" where
  "bare rq = rq\<lparr>rq_params := []\<rparr>"

fun flight_request :: "flight \<Rightarrow> request" where
  "flight_request (FRouted r rq) = rq"
| "flight_request (FAuthed i r rq) = rq"
| "flight_request (FServing i r rq) = rq"
| "flight_request (FCounted i rq t0) = rq"

abbreviation in_flight :: "gate \<Rightarrow> nat set" where
  "in_flight g \<equiv> dom (gt_flight g)"

definition flying :: "(nat \<Rightarrow> flight option) \<Rightarrow> request multiset" where
  "flying F = image_mset (\<lambda>p. bare (flight_request (the (F p)))) (mset_set (dom F))"

definition answered :: "served list \<Rightarrow> request multiset" where
  "answered log = mset (map (\<lambda>x. bare (sd_request x)) log)"

definition accounted :: "request list \<Rightarrow> gate \<Rightarrow> bool" where
  "accounted rqs g \<longleftrightarrow> finite (in_flight g) \<and> mset (map bare rqs) = answered (gt_log g) + flying (gt_flight g)"

lemma bare_simps [simp]: "bare (rq\<lparr>rq_params := ps\<rparr>) = bare rq"
  by (simp add: bare_def)

lemma answered_simps [simp]: "answered [] = {#}" "answered (log @ [x]) = add_mset (bare (sd_request x)) (answered log)"
  by (simp_all add: answered_def)

lemma flying_none [simp]: "flying (\<lambda>_. None) = {#}"
  by (simp add: flying_def)

lemma flying_put:
  assumes "finite (dom F)" and "F p = None"
  shows "flying (F(p \<mapsto> f)) = add_mset (bare (flight_request f)) (flying F)"
proof -
  have "p \<notin> dom F" using assms(2) by auto
  moreover from this have "image_mset (\<lambda>q. bare (flight_request (the ((F(p \<mapsto> f)) q)))) (mset_set (dom F)) = flying F"
    unfolding flying_def using assms(1) by (intro image_mset_cong) auto
  ultimately show ?thesis using assms(1) by (simp add: flying_def)
qed

lemma flying_take:
  assumes "finite (dom F)" and "F p = Some f"
  shows "flying F = add_mset (bare (flight_request f)) (flying (F(p := None)))"
proof -
  have "F = (F(p := None))(p \<mapsto> f)" using assms(2) by auto
  with flying_put [of "F(p := None)" p f] assms(1) show ?thesis by simp
qed

lemma flying_advance:
  assumes "finite (dom F)" and "F p = Some f" and "flight_request f' = flight_request f"
  shows "flying (F(p \<mapsto> f')) = flying F"
  using flying_put [of "F(p := None)" p f'] flying_take [OF assms(1,2)] assms(1,3) by simp

lemma accounted_reply:
  "accounted rqs g \<Longrightarrow> gt_flight g p = Some f \<Longrightarrow> sd_request x = flight_request f \<Longrightarrow> accounted rqs (reply p x w g)"
  using flying_take [of "gt_flight g" p f] by (auto simp: accounted_def)

lemma accounted_advance:
  "accounted rqs g \<Longrightarrow> gt_flight g p = Some f \<Longrightarrow> flight_request f' = flight_request f \<Longrightarrow> accounted rqs (advance p f' w g)"
  using flying_advance [of "gt_flight g" p f f'] by (simp add: accounted_def)

lemma accounted_frame: "accounted rqs g \<Longrightarrow> gt_flight g' = gt_flight g \<Longrightarrow> gt_log g' = gt_log g \<Longrightarrow> accounted rqs g'"
  by (simp add: accounted_def)

lemma accounted_step:
  assumes "gate_step cfg chi prom g e g'" and "in_process e" and "accounted rqs g"
  shows "accounted (rqs @ arrived e) g'"
  using assms(1)
proof (cases rule: gate_step.cases)
  case (arrive_plain p rq resp)
  then have "(gt_flight g)(p := None) = gt_flight g" by auto
  with arrive_plain assms(3) show ?thesis by (simp add: accounted_def)
next
  case (arrive_api p rq r params)
  with flying_put [of "gt_flight g" p "FRouted r (rq\<lparr>rq_params := params\<rparr>)"] assms(3) show ?thesis
    by (simp add: accounted_def)
next
  case (limit_admits p i r rq env w)
  have "accounted rqs (advance p (FServing i r rq) w g)"
    by (rule accounted_advance [OF assms(3) limit_admits(3)]) simp
  with limit_admits show ?thesis by (simp add: accounted_def)
next
  case restart
  with assms(2) show ?thesis by (simp add: in_process_def)
next
  case (auth_fails p r rq env resp w)
  with accounted_reply [OF assms(3) auth_fails(3)] show ?thesis by simp
next
  case (auth_passes p r rq env i w)
  with accounted_advance [OF assms(3) auth_passes(3)] show ?thesis by simp
next
  case (count p i rq)
  with accounted_advance [OF assms(3) count(3)] show ?thesis by simp
next
  case (page p i rq t0 env resp w)
  with accounted_reply [OF assms(3) page(3)] show ?thesis by simp
next
  case (limit_denies p i r rq env resp w)
  with accounted_reply [OF assms(3) limit_denies(3)] show ?thesis by simp
next
  case (handle p i r rq env resp w)
  with accounted_reply [OF assms(3) handle(3)] show ?thesis by simp
qed (use accounted_frame [OF assms(3)] in simp_all)

lemma idle_step:
  "gate_step cfg chi prom g e g' \<Longrightarrow> gt_flight g = (\<lambda>_. None) \<Longrightarrow> arrived e = [] \<Longrightarrow> gt_flight g' = (\<lambda>_. None)"
  by (cases rule: gate_step.cases) auto

text \<open>The invariant of a life: the account, and what \<open>Shutdown\<close> has waited for when it is over.\<close>

definition over :: "api_phase \<Rightarrow> bool" where
  "over ph \<longleftrightarrow> ph \<in> {AShutdown, AClosing, AEnded ServiceReturns}"

definition life_inv :: "api_life \<Rightarrow> bool" where
  "life_inv l \<longleftrightarrow> accounted (al_arrived l) (al_gate l)
     \<and> (over (al_phase l) \<longrightarrow> 10000 \<le> al_waited l \<or> gt_flight (al_gate l) = (\<lambda>_. None) \<and> al_conns l = 0)"

lemma life_inv_step:
  assumes "api_life_step cfg chi prom d l l'" and "life_inv l"
  shows "life_inv l'"
  using assms(1)
proof (cases rule: api_life_step.cases)
  case (serve e g)
  have "accounted (al_arrived l @ arrived e) g"
    using accounted_step [OF serve(6,3)] assms(2) by (simp add: life_inv_def)
  moreover have "gt_flight g = (\<lambda>_. None)" if "gt_flight (al_gate l) = (\<lambda>_. None)" "al_conns l = 0"
    using idle_step [OF serve(6)] serve(5) that by simp
  ultimately show ?thesis using serve(1) assms(2) by (auto simp: life_inv_def)
qed (use assms(2) in \<open>auto simp: life_inv_def over_def\<close>)

lemma life_inv_reached:
  assumes "api_life_reaches cfg chi prom d (api_life_start g0 rs) l" and "gt_flight g0 = (\<lambda>_. None)" and "gt_log g0 = []"
  shows "life_inv l"
  using assms(1)
proof (induction rule: rtranclp_induct)
  case base
  then show ?case using assms(2,3) by (simp add: life_inv_def accounted_def api_life_start_def over_def)
qed (rule life_inv_step)

lemma life_resources:
  assumes "api_life_reaches cfg chi prom d (api_life_start g0 rs) l"
  shows "case al_phase l of
      AEnded e \<Rightarrow> e = ServiceReturns \<and> al_res l = deps_close (Some d) rs \<or> e = ServiceExits 1 \<and> al_res l = rs
    | _ \<Rightarrow> al_res l = rs"
  using assms
proof (induction rule: rtranclp_induct)
  case base
  then show ?case by (simp add: api_life_start_def)
next
  case (step l l')
  from step.hyps(2) step.IH show ?case by (cases rule: api_life_step.cases) (auto split: api_phase.splits)
qed

text \<open>Once the listener is closed, only connections accepted before bring requests.\<close>

lemma unlistening_step:
  assumes "api_life_step cfg chi prom d l l'" and "al_phase l \<notin> {AServing, ASignalled}"
  shows "al_phase l' \<notin> {AServing, ASignalled}
    \<and> length (al_arrived l') + al_conns l' \<le> length (al_arrived l) + al_conns l"
  using assms by (cases rule: api_life_step.cases) auto

lemma unlistening:
  assumes "api_life_reaches cfg chi prom d l l'" and "al_phase l \<notin> {AServing, ASignalled}"
  shows "al_phase l' \<notin> {AServing, ASignalled}
    \<and> length (al_arrived l') + al_conns l' \<le> length (al_arrived l) + al_conns l"
  using assms(1)
proof (induction rule: rtranclp_induct)
  case base
  with assms(2) show ?case by simp
next
  case (step l1 l2)
  then show ?case using unlistening_step [OF step.hyps(2)] by force
qed

section \<open>Every request in flight can end\<close>

definition winding_down :: "event \<Rightarrow> bool" where
  "winding_down e \<longleftrightarrow> in_process e \<and> arrived e = []"

lemma winding_events: "winding_down (EvAuth p env)" "winding_down (EvLimit p env)" "winding_down (EvHandle p env)"
  "winding_down (EvCount p)"
  by (simp_all add: winding_down_def in_process_def)

lemma serving_completes:
  assumes "gt_flight g p = Some (FServing i r rq)"
  shows "\<exists>g'. gate_reaches cfg chi prom winding_down g g' \<and> gt_flight g' = (gt_flight g)(p := None)"
proof -
  fix env :: api_env
  obtain resp w where "handle_stage r env (Some i) rq (gt_w g) = (resp, w)" by fastforce
  from serving_replies [where I = winding_down, OF winding_events(4,3) assms this] show ?thesis by blast
qed

lemma authed_completes:
  assumes "gt_flight g p = Some (FAuthed i r rq)"
  shows "\<exists>g'. gate_reaches cfg chi prom winding_down g g' \<and> gt_flight g' = (gt_flight g)(p := None)"
proof -
  fix env :: api_env
  obtain l w where l: "limit_stage cfg env i (gt_w g) = (l, w)" by fastforce
  show ?thesis
  proof (cases l)
    case (Some resp)
    from reaches_one [where I = winding_down, OF winding_events(2) gate_step.limit_denies [OF assms l [unfolded Some]]]
    show ?thesis by (rule_tac exI, rule_tac conjI) (assumption, simp)
  next
    case None
    let ?g = "(advance p (FServing i r rq) w g)\<lparr>gt_admits := gt_admits g @ [(i, ae_now env)]\<rparr>"
    have s: "gate_step cfg chi prom g (EvLimit p env) ?g" by (rule gate_step.limit_admits [OF assms l [unfolded None]])
    obtain g' where "gate_reaches cfg chi prom winding_down ?g g'" "gt_flight g' = (gt_flight ?g)(p := None)"
      using serving_completes [where g = ?g and cfg = cfg and chi = chi and prom = prom and p = p] by auto
    with reaches_next [where I = winding_down, OF winding_events(2) s] show ?thesis by auto
  qed
qed

lemma flight_completes:
  assumes "gt_flight g p = Some f"
  shows "\<exists>g'. gate_reaches cfg chi prom winding_down g g' \<and> gt_flight g' = (gt_flight g)(p := None)"
proof (cases f)
  case (FRouted r rq)
  fix env :: api_env
  obtain a w where a: "auth_stage env rq (gt_w g) = (a, w)" by fastforce
  note flight = assms [unfolded FRouted]
  show ?thesis
  proof (cases a)
    case (Inl resp)
    from reaches_one [where I = winding_down, OF winding_events(1) gate_step.auth_fails [OF flight a [unfolded Inl]]]
    show ?thesis by (rule_tac exI, rule_tac conjI) (assumption, simp)
  next
    case (Inr i)
    let ?g = "advance p (FAuthed i r rq) w g"
    have s: "gate_step cfg chi prom g (EvAuth p env) ?g" by (rule gate_step.auth_passes [OF flight a [unfolded Inr]])
    obtain g' where "gate_reaches cfg chi prom winding_down ?g g'" "gt_flight g' = (gt_flight ?g)(p := None)"
      using authed_completes [where g = ?g and cfg = cfg and chi = chi and prom = prom and p = p] by auto
    with reaches_next [where I = winding_down, OF winding_events(1) s] show ?thesis by auto
  qed
next
  case (FAuthed i r rq)
  with assms authed_completes show ?thesis by blast
next
  case (FServing i r rq)
  with assms serving_completes show ?thesis by blast
next
  case (FCounted i rq t0)
  fix env :: api_env
  obtain resp w where "handle_list_at t0 env (Some i) rq (gt_w g) = (resp, w)" by fastforce
  from reaches_one [where I = winding_down, OF winding_events(3) gate_step.page [OF assms [unfolded FCounted] this]]
  show ?thesis by (rule_tac exI, rule_tac conjI) (assumption, simp)
qed

lemma all_complete:
  assumes "finite (in_flight g)"
  shows "\<exists>g'. gate_reaches cfg chi prom winding_down g g' \<and> gt_flight g' = (\<lambda>_. None)"
  using assms
proof (induction "card (in_flight g)" arbitrary: g)
  case 0
  then have "gt_flight g = (\<lambda>_. None)" by simp
  then show ?case by (intro exI [of _ g] conjI here)
next
  case (Suc k)
  then obtain p f where p: "gt_flight g p = Some f" by (metis card.empty domIff equals0I nat.distinct(1) not_None_eq)
  then obtain g1 where g1: "gate_reaches cfg chi prom winding_down g g1" "gt_flight g1 = (gt_flight g)(p := None)"
    using flight_completes by blast
  then have "k = card (in_flight g1)" using Suc.hyps(2) Suc.prems p by (simp add: card_Diff_singleton domI)
  from Suc.hyps(1) [OF this] g1 Suc.prems obtain g' where "gate_reaches cfg chi prom winding_down g1 g'" "gt_flight g' = (\<lambda>_. None)"
    by auto
  then show ?case using reaches_trans [OF g1(1)] by blast
qed

lemma draining_lifts:
  assumes "gate_reaches cfg chi prom winding_down (al_gate l) g" and "al_phase l = ADraining"
  shows "api_life_reaches cfg chi prom d l (l\<lparr>al_gate := g\<rparr>)"
  using assms(1)
proof (induction rule: reaches.induct)
  case here
  then show ?case by simp
next
  case (further g e g')
  have e: "in_process e" "arrived e = []" using further.hyps by (simp_all add: winding_down_def)
  have "api_life_step cfg chi prom d (l\<lparr>al_gate := g\<rparr>)
      (l\<lparr>al_gate := g\<rparr>\<lparr>al_gate := g', al_arrived := al_arrived (l\<lparr>al_gate := g\<rparr>) @ arrived e,
         al_conns := al_conns (l\<lparr>al_gate := g\<rparr>) - length (arrived e)\<rparr>)"
    by (rule api_life_step.serve) (use further.hyps e assms(2) in simp_all)
  then have "api_life_step cfg chi prom d (l\<lparr>al_gate := g\<rparr>) (l\<lparr>al_gate := g'\<rparr>)" using e by simp
  with further.IH show ?case by (auto intro: rtranclp.rtrancl_into_rtrancl)
qed

lemma conns_hang_up:
  "alive (al_phase l) \<Longrightarrow> api_life_reaches cfg chi prom d l (l\<lparr>al_conns := al_conns l - n\<rparr>)"
proof (induction n)
  case (Suc n)
  have "api_life_step cfg chi prom d (l\<lparr>al_conns := al_conns l - n\<rparr>) (l\<lparr>al_conns := al_conns l - n\<rparr>\<lparr>al_conns := al_conns (l\<lparr>al_conns := al_conns l - n\<rparr>) - 1\<rparr>)"
    by (rule api_life_step.hang_up) (simp add: Suc.prems)
  with Suc show ?case by (auto intro: rtranclp.rtrancl_into_rtrancl)
qed simp

section \<open>Without a database\<close>









section \<open>Properties\<close>

text \<open>
  Property C18. What \<open>Shutdown\<close> waits for. In every state of the API's life the requests that were read are
  those answered together with those in flight, none lost, none answered twice or with another's
  reply. When the service returns although \<open>Shutdown\<close> has not waited ten seconds, each of
  them has its answer; and from the close of the listener on no more requests are read than
  there were connections accepted without one. A return has closed the pool and the Redis client, a failing
  listener ends the process with both open, and every end is one that the summary
  \<open>api_main\<close> of the command allows.
\<close>

theorem api_shutdown_waits:
  assumes "api_life_reaches (api_server_config d) chi prom d (api_life_start g0 rs1) l"
    and "gt_flight g0 = (\<lambda>_. None)" and "gt_log g0 = []" and "must_run benv rs = (Inr d, rs1)"
  shows "mset (map bare (al_arrived l)) = answered (gt_log (al_gate l)) + flying (gt_flight (al_gate l))
    \<and> (al_phase l = AEnded ServiceReturns \<and> al_waited l < 10000 \<longrightarrow>
         mset (map bare (al_arrived l)) = answered (gt_log (al_gate l)) \<and> in_flight (al_gate l) = {})
    \<and> (al_phase l \<notin> {AServing, ASignalled} \<longrightarrow>
         (\<forall>l'. api_life_reaches (api_server_config d) chi prom d l l' \<longrightarrow>
            length (al_arrived l') \<le> length (al_arrived l) + al_conns l))
    \<and> (\<forall>e. al_phase l = AEnded e \<longrightarrow>
         (\<exists>ev. api_main benv ev rs = (e, Some (api_server_config d), al_res l))
         \<and> (e = ServiceReturns \<and> al_res l = deps_close (Some d) rs1 \<or> e = ServiceExits 1 \<and> al_res l = rs1))"
proof (intro conjI)
  have inv: "life_inv l" by (rule life_inv_reached [OF assms(1-3)])
  then show "mset (map bare (al_arrived l)) = answered (gt_log (al_gate l)) + flying (gt_flight (al_gate l))"
    by (simp add: life_inv_def accounted_def)
  show "al_phase l = AEnded ServiceReturns \<and> al_waited l < 10000 \<longrightarrow>
      mset (map bare (al_arrived l)) = answered (gt_log (al_gate l)) \<and> in_flight (al_gate l) = {}"
    using inv by (auto simp: life_inv_def accounted_def over_def)
  show "al_phase l \<notin> {AServing, ASignalled} \<longrightarrow>
      (\<forall>l'. api_life_reaches (api_server_config d) chi prom d l l' \<longrightarrow> length (al_arrived l') \<le> length (al_arrived l) + al_conns l)"
    using unlistening by (meson add_leD1)
  have "\<exists>ev. api_main benv ev rs = (e, Some (api_server_config d), al_res l)"
    if "e = ServiceReturns \<and> al_res l = deps_close (Some d) rs1 \<or> e = ServiceExits 1 \<and> al_res l = rs1" for e
    using that assms(4) by (auto simp: api_main_def intro: exI [of _ "Signalled None"] exI [of _ "ListenFails (ErrNew [])"])
  with life_resources [OF assms(1)]
  show "\<forall>e. al_phase l = AEnded e \<longrightarrow>
      (\<exists>ev. api_main benv ev rs = (e, Some (api_server_config d), al_res l))
      \<and> (e = ServiceReturns \<and> al_res l = deps_close (Some d) rs1 \<or> e = ServiceExits 1 \<and> al_res l = rs1)"
    by fastforce
qed

lemma three_steps:
  "api_life_step cfg chi prom d a b \<Longrightarrow> api_life_step cfg chi prom d b c \<Longrightarrow> api_life_step cfg chi prom d c e \<Longrightarrow>
   api_life_reaches cfg chi prom d a e"
  by (meson rtranclp.rtrancl_into_rtrancl r_into_rtranclp)

text \<open>The gateway is told to stop while a request is in flight.\<close>

definition busy_life :: api_life where
  "busy_life =
     \<lparr>al_gate = advance 0 (FRouted RList (sample_request ''secret'' [])) (gt_w (sample_gate False)) (sample_gate False),
      al_phase = ADraining, al_res = \<lparr>rs_pools = 1, rs_redis = 1\<rparr>, al_arrived = [sample_request ''secret'' []],
      al_conns = 0, al_waited = 0\<rparr>"

abbreviation sample_life :: api_life where
  "sample_life \<equiv> api_life_start (sample_gate False) \<lparr>rs_pools = 1, rs_redis = 1\<rparr>"

lemma busy_reached:
  assumes "server_routes cfg = server_routes server_ref"
  shows "api_life_reaches cfg sample_chi sample_prom d sample_life busy_life"
proof -
  let ?rq = "sample_request ''secret'' []"
  let ?g = "advance 0 (FRouted RList (?rq\<lparr>rq_params := []\<rparr>)) (gt_w (sample_gate False)) (sample_gate False)"
  let ?l1 = "sample_life\<lparr>al_conns := al_conns sample_life + 1\<rparr>"
  let ?l2 = "?l1\<lparr>al_phase := ASignalled, al_waited := 0\<rparr>"
  let ?l3 = "?l2\<lparr>al_phase := ADraining\<rparr>"
  let ?l4 = "?l3\<lparr>al_gate := ?g, al_arrived := al_arrived ?l3 @ arrived (EvArrive 0 ?rq),
      al_conns := al_conns ?l3 - length (arrived (EvArrive 0 ?rq))\<rparr>"
  have g: "gate_step cfg sample_chi sample_prom (sample_gate False) (EvArrive 0 ?rq) ?g"
    by (rule gate_step.arrive_api) (simp_all add: assms sample_gate_def sample_chi_def sample_request_def)
  have s1: "api_life_step cfg sample_chi sample_prom d sample_life ?l1"
    by (rule api_life_step.accept) (simp add: api_life_start_def)
  have s2: "api_life_step cfg sample_chi sample_prom d ?l1 ?l2"
    by (rule api_life_step.signal) (simp add: api_life_start_def)
  have s3: "api_life_step cfg sample_chi sample_prom d ?l2 ?l3"
    by (rule api_life_step.close_listener) simp
  have "api_life_step cfg sample_chi sample_prom d ?l3 ?l4"
    using g by (intro api_life_step.serve) (simp_all add: api_life_start_def in_process_def)
  with three_steps [OF s1 s2 s3] have r: "api_life_reaches cfg sample_chi sample_prom d sample_life ?l4"
    by (rule rtranclp.rtrancl_into_rtrancl)
  have "?rq\<lparr>rq_params := []\<rparr> = ?rq" by (simp add: sample_request_def)
  then have "?l4 = busy_life" by (simp add: busy_life_def api_life_start_def)
  with r show ?thesis by simp
qed

text \<open>The same ten seconds later, with the pool closed over the request.\<close>

definition cut_life :: api_life where
  "cut_life = busy_life\<lparr>al_waited := al_waited busy_life + 10000, al_phase := AClosing\<rparr>"

lemma busy_cut: "api_life_reaches cfg sample_chi sample_prom d busy_life cut_life"
proof -
  let ?l1 = "busy_life\<lparr>al_waited := al_waited busy_life + 10000\<rparr>"
  let ?l2 = "?l1\<lparr>al_phase := AShutdown\<rparr>"
  have s1: "api_life_step cfg sample_chi sample_prom d busy_life ?l1"
    by (rule api_life_step.tick) (simp add: busy_life_def)
  have s2: "api_life_step cfg sample_chi sample_prom d ?l1 ?l2"
    by (rule api_life_step.deadline) (simp_all add: busy_life_def)
  have s3: "api_life_step cfg sample_chi sample_prom d ?l2 (?l2\<lparr>al_phase := AClosing\<rparr>)"
    by (rule api_life_step.close_pool) simp
  have "?l2\<lparr>al_phase := AClosing\<rparr> = cut_life" by (simp add: cut_life_def)
  with three_steps [OF s1 s2 s3] show ?thesis by simp
qed

lemma sample_gate_start: "gt_flight (sample_gate r) = (\<lambda>_. None)" "gt_log (sample_gate r) = []"
  by (simp_all add: sample_gate_def)

lemma sample_boot: "\<exists>d. must_run (boot_ref ''m'') (yw_res sync_world_ref) = (Inr d, \<lparr>rs_pools = 1, rs_redis = 1\<rparr>)"
proof -
  obtain d rs where boot: "must_run (boot_ref ''m'') (yw_res sync_world_ref) = (Inr d, rs)"
    using boot_ref_runs [of "''m''"] by auto
  then have "rs = \<lparr>rs_pools = 1, rs_redis = 1\<rparr>"
    using bootstrap_cases [where env = "boot_ref ''m''" and rs = "yw_res sync_world_ref"]
    by (auto simp: must_run_def sync_world_ref_def split: prod.splits sum.splits)
  with boot show ?thesis by blast
qed

lemma api_shutdown_waits_witness:
  "\<exists>d l. api_life_reaches (api_server_config d) sample_chi sample_prom d sample_life l
     \<and> al_phase l = AEnded ServiceReturns \<and> flying (gt_flight (al_gate l)) = {#bare (sample_request ''secret'' [])#}"
proof -
  obtain d where boot: "must_run (boot_ref ''m'') (yw_res sync_world_ref) = (Inr d, \<lparr>rs_pools = 1, rs_redis = 1\<rparr>)"
    using sample_boot by blast
  let ?cfg = "api_server_config d"
  let ?l = "cut_life\<lparr>al_phase := AEnded ServiceReturns, al_res := deps_close (Some d) (al_res cut_life)\<rparr>"
  have "server_routes ?cfg = server_routes server_ref" by (simp add: server_routes_def api_server_config_def)
  note cut = rtranclp_trans [OF busy_reached [OF this] busy_cut]
  have "api_life_step ?cfg sample_chi sample_prom d cut_life ?l"
    by (rule api_life_step.return) (simp add: cut_life_def)
  with cut have r: "api_life_reaches ?cfg sample_chi sample_prom d sample_life ?l" by (rule rtranclp.rtrancl_into_rtrancl)
  have "mset (map bare (al_arrived ?l)) = answered (gt_log (al_gate ?l)) + flying (gt_flight (al_gate ?l))"
    using api_shutdown_waits [OF r sample_gate_start boot] by (rule conjunct1)
  with r show ?thesis by (intro exI [of _ d] exI [of _ ?l]) (simp add: cut_life_def busy_life_def sample_gate_def)
qed




text \<open>
  Shutdown can always complete without cutting a request: from every state in which the listener
  is closed, whatever is in flight, the remaining steps of these requests lead to a return with every
  request answered and all handles closed; the deadline is needed for stuck services only.
\<close>

theorem api_can_drain:
  assumes "api_life_reaches cfg chi prom d (api_life_start g0 rs) l"
    and "gt_flight g0 = (\<lambda>_. None)" and "gt_log g0 = []" and "al_phase l = ADraining"
  shows "\<exists>l'. api_life_reaches cfg chi prom d l l' \<and> al_phase l' = AEnded ServiceReturns
    \<and> al_arrived l' = al_arrived l \<and> answered (gt_log (al_gate l')) = mset (map bare (al_arrived l))
    \<and> al_res l' = deps_close (Some d) rs"
proof -
  have "finite (in_flight (al_gate l))" using life_inv_reached [OF assms(1-3)] by (simp add: life_inv_def accounted_def)
  then obtain g where g: "gate_reaches cfg chi prom winding_down (al_gate l) g" "gt_flight g = (\<lambda>_. None)"
    using all_complete by blast
  let ?l1 = "l\<lparr>al_gate := g\<rparr>"
  let ?l2 = "?l1\<lparr>al_conns := al_conns ?l1 - al_conns l\<rparr>"
  let ?l3 = "?l2\<lparr>al_phase := AShutdown\<rparr>" let ?l4 = "?l3\<lparr>al_phase := AClosing\<rparr>"
  let ?l5 = "?l4\<lparr>al_phase := AEnded ServiceReturns, al_res := deps_close (Some d) (al_res ?l4)\<rparr>"
  have "api_life_step cfg chi prom d ?l2 ?l3" by (rule api_life_step.drained) (simp_all add: assms(4) g(2))
  moreover have "api_life_step cfg chi prom d ?l3 ?l4" by (rule api_life_step.close_pool) simp
  moreover have "api_life_step cfg chi prom d ?l4 ?l5" by (rule api_life_step.return) simp
  moreover have "api_life_reaches cfg chi prom d ?l1 ?l2" by (rule conns_hang_up) (simp add: assms(4))
  ultimately have r: "api_life_reaches cfg chi prom d l ?l5"
    using draining_lifts [OF g(1) assms(4)] by (meson rtranclp.rtrancl_into_rtrancl rtranclp_trans)
  with assms(1) have "api_life_reaches cfg chi prom d (api_life_start g0 rs) ?l5" by (rule rtranclp_trans)
  from life_inv_reached [OF this assms(2,3)] g(2) have "answered (gt_log g) = mset (map bare (al_arrived l))"
    by (simp add: life_inv_def accounted_def)
  moreover have "al_res l = rs" using life_resources [OF assms(1)] assms(4) by simp
  ultimately show ?thesis using r by (intro exI [of _ ?l5]) simp
qed

lemma api_can_drain_witness:
  "\<forall>d. \<exists>l'. api_life_reaches server_ref sample_chi sample_prom d busy_life l' \<and> al_phase l' = AEnded ServiceReturns
     \<and> length (al_arrived l') = 1"
proof
  fix d :: deps
  have "al_phase busy_life = ADraining" and a: "length (al_arrived busy_life) = 1" by (simp_all add: busy_life_def)
  from api_can_drain [OF busy_reached [OF refl, of d] sample_gate_start this(1)] a
  show "\<exists>l'. api_life_reaches server_ref sample_chi sample_prom d busy_life l' \<and> al_phase l' = AEnded ServiceReturns
     \<and> length (al_arrived l') = 1" by metis
qed

end
