(* ===== verification/Schema.thy ===== *)
theory Schema
  imports Gateway SyncProps
begin

text \<open>
  The four tables of \<open>internal/db/migrations/0001_init.up.sql\<close>, as the gateway's state holds them. NOT
  NULL and the column types are in the records; here are the primary keys, and what the columns
  of \<open>sync_runs\<close> and \<open>sync_state\<close> say about each other, over everything that writes to them.
\<close>

definition gate_db :: "gate \<Rightarrow> syncdb" where
  "gate_db g = \<lparr>db_kar = gw_kar (gt_w g), db_state = gt_state g, db_runs = gt_runs g\<rparr>"

definition schema_ok :: "gate \<Rightarrow> bool" where
  "schema_ok g \<longleftrightarrow> db_wf (gate_db g) \<and> keyed kk_id (gw_keys (gt_w g))"

text \<open>The tables after the migration, before anything is written.\<close>

definition migrated :: "gate \<Rightarrow> bool" where
  "migrated g \<longleftrightarrow> gw_kar (gt_w g) = [] \<and> gt_state g = [] \<and> gt_runs g = [] \<and> gw_keys (gt_w g) = []"

lemma migrated_ok: "migrated g \<Longrightarrow> schema_ok g"
  by (simp add: migrated_def schema_ok_def gate_db_def db_wf_def keyed_def)

lemma keyed_mark_used: "keyed kk_id t \<Longrightarrow> keyed kk_id (snd (mark_used pg now i t))"
  by (simp add: mark_used_def Let_def keyed_sql_update split: option.split)

lemma keyed_insert_api_key: "keyed kk_id t \<Longrightarrow> keyed kk_id (snd (insert_api_key pg now eo t))"
  using insert_api_key_cases [of pg now eo t] key_table.keyed_upsert by metis

lemma schema_frame:
  "gw_kar (gt_w g') = gw_kar (gt_w g) \<Longrightarrow> gw_keys (gt_w g') = gw_keys (gt_w g) \<Longrightarrow> gt_state g' = gt_state g \<Longrightarrow>
   gt_runs g' = gt_runs g \<Longrightarrow> schema_ok g \<Longrightarrow> schema_ok g'"
  by (simp add: schema_ok_def gate_db_def)

lemma schema_step:
  assumes "gate_step cfg chi prom g e g'" and "schema_ok g"
  shows "schema_ok g'"
  using assms(1)
proof (cases rule: gate_step.cases)
  case (auth_fails p r rq env resp w)
  with auth_stage_err [OF auth_fails(4)] show ?thesis by (intro schema_frame [OF _ _ _ _ assms(2)]) auto
next
  case (auth_passes p r rq env i w)
  with auth_stage_ok [OF auth_passes(4)] show ?thesis by (intro schema_frame [OF _ _ _ _ assms(2)]) auto
next
  case (limit_denies p i r rq env resp w)
  with limit_stage_frame [OF limit_denies(4)] show ?thesis by (intro schema_frame [OF _ _ _ _ assms(2)]) auto
next
  case (limit_admits p i r rq env w)
  with limit_stage_frame [OF limit_admits(4)] show ?thesis by (intro schema_frame [OF _ _ _ _ assms(2)]) auto
next
  case (handle p i r rq env resp w)
  then have "w = gt_w g" using handle_stage_frame(3) by (metis snd_conv)
  with handle show ?thesis by (intro schema_frame [OF _ _ _ _ assms(2)]) auto
next
  case (page p i rq t0 env resp w)
  then have "w = gt_w g" using handle_stage_frame(2) by (metis snd_conv)
  with page show ?thesis by (intro schema_frame [OF _ _ _ _ assms(2)]) auto
next
  case (audit env n)
  with assms(2) show ?thesis by (simp add: schema_ok_def gate_db_def run_pending_def keyed_mark_used)
next
  case (sync_pass env s run_id res db)
  have "db_wf (snd (sync_karyawan env s run_id (gate_db g)))"
    by (rule pass_wf [OF sync_karyawan_spec]) (use assms(2) in \<open>simp add: schema_ok_def\<close>)
  then have "db_wf \<lparr>db_kar = db_kar db, db_state = db_state db, db_runs = db_runs db\<rparr>"
    using sync_pass(3) by (simp add: gate_db_def db_wf_def)
  then show ?thesis using sync_pass assms(2) by (simp add: schema_ok_def gate_db_def)
next
  case (setup_key pg now eo)
  with assms(2) show ?thesis by (simp add: schema_ok_def gate_db_def keyed_insert_api_key)
next
  case (revoke i)
  with assms(2) show ?thesis by (simp add: schema_ok_def gate_db_def revoke_keys_def keyed_sql_update)
qed (use assms(2) in \<open>simp_all add: schema_ok_def gate_db_def\<close>)

interpretation schema: machine_invariant "gate_step cfg chi prom" "\<lambda>e. True" schema_ok for cfg chi prom
  by unfold_locales (rule schema_step)

section \<open>Properties\<close>

text \<open>
  Property C28. The data keep their shape. From the freshly migrated database, or any well-formed one, whatever
  requests, last-use writes, synchronisation passes, key upserts, revocations and restarts follow
  in whatever order, and whatever fails in them: the primary keys of the four tables stay unique;
  a run is "running" and unfinished, or "success", finished and without an error, or "failed",
  finished and with one; a state row that says "success" has a watermark and no error, and one
  that says "failed" has an error.
\<close>

theorem gateway_keeps_schema:
  assumes "gate_reaches cfg chi prom (\<lambda>e. True) g g'" and "migrated g \<or> schema_ok g"
  shows "schema_ok g'"
  using schema.reached [OF assms(1)] assms(2) migrated_ok by blast

lemma gateway_keeps_schema_witness:
  "\<exists>g'. gate_reaches server_ref sample_chi sample_prom (\<lambda>e. True)
       ((sample_gate False)\<lparr>gt_w := (sample_gateway False)\<lparr>gw_kar := [], gw_keys := []\<rparr>\<rparr>) g'
     \<and> length (gt_runs g') = 1 \<and> schema_ok g'"
proof -
  let ?g = "(sample_gate False)\<lparr>gt_w := (sample_gateway False)\<lparr>gw_kar := [], gw_keys := []\<rparr>\<rparr>"
  let ?env = "sync_ref (\<lambda>_. ([], None))"
  obtain res db where pass: "sync_karyawan ?env kar_syncer ''r1'' empty_db = (res, db)" by fastforce
  have "se_fetch ?env (wm_of (sy_resource kar_syncer) empty_db) = ([], None)" by simp
  from sync_healthy_ok [OF sync_ref_healthy _ this, of "''r1''"] pass
  have runs: "length (db_runs db) = 1" by (auto simp: empty_db_def)
  have start: "\<lparr>db_kar = gw_kar (gt_w ?g), db_state = gt_state ?g, db_runs = gt_runs ?g\<rparr> = empty_db"
    by (simp add: sample_gate_def empty_db_def)
  let ?g1 = "?g\<lparr>gt_w := (gt_w ?g)\<lparr>gw_kar := db_kar db\<rparr>, gt_state := db_state db, gt_runs := db_runs db\<rparr>"
  have "gate_step server_ref sample_chi sample_prom ?g (EvSync ?env kar_syncer ''r1'') ?g1"
    by (rule gate_step.sync_pass) (simp only: start pass)
  then have r: "gate_reaches server_ref sample_chi sample_prom (\<lambda>e. True) ?g ?g1" by (rule reaches_one [OF TrueI])
  have "migrated ?g" by (simp add: migrated_def sample_gate_def)
  with gateway_keeps_schema [OF r] r runs show ?thesis by (intro exI [of _ ?g1]) simp
qed

end
