(* ===== verification/Paging.thy ===== *)
theory Paging
  imports Schema EndToEnd
begin

text \<open>
  Paging through the listing of \<open>internal/karyawan/repo.go\<close> while the gateway runs: between the two
  statements of a page, and between two pages, everything else can take place, in particular
  synchronisation passes that write employees into the table that is being read.
\<close>

section \<open>The mirror loses no employee\<close>

definition niks :: "kar_row list \<Rightarrow> string set" where
  "niks t = kr_nik_hris ` set t"

lemma niks_upserts: "niks t \<subseteq> niks (fold (sql_upsert kr_nik_hris kar_merge) rs t)"
proof (induction rs arbitrary: t)
  case (Cons r rs)
  have "niks t \<subseteq> niks (sql_upsert kr_nik_hris kar_merge r t)"
    by (auto simp: niks_def kar_table.keys_upsert)
  with Cons show ?case by (metis fold_simps(2) order_trans)
qed simp

lemma sync_keeps_niks: "niks (db_kar db) \<subseteq> niks (db_kar (snd (sync_karyawan env s run_id db)))"
  using sync_karyawan_spec [of env s run_id db] by (cases rule: pass_spec.cases) (simp_all add: niks_upserts)

definition keeps_employees :: "gate \<Rightarrow> gate \<Rightarrow> bool" where
  "keeps_employees g g' \<longleftrightarrow> niks (gw_kar (gt_w g)) \<subseteq> niks (gw_kar (gt_w g'))"

lemma employees_frame: "gw_kar (gt_w g') = gw_kar (gt_w g) \<Longrightarrow> keeps_employees g g'"
  by (simp add: keeps_employees_def)

lemma employees_step:
  assumes "gate_step cfg chi prom g e g'"
  shows "keeps_employees g g'"
  using assms
proof (cases rule: gate_step.cases)
  case (auth_fails p r rq env resp w)
  with auth_stage_err [OF auth_fails(4)] show ?thesis by (intro employees_frame) auto
next
  case (auth_passes p r rq env i w)
  with auth_stage_ok [OF auth_passes(4)] show ?thesis by (intro employees_frame) auto
next
  case (limit_denies p i r rq env resp w)
  with limit_stage_frame [OF limit_denies(4)] show ?thesis by (intro employees_frame) auto
next
  case (limit_admits p i r rq env w)
  with limit_stage_frame [OF limit_admits(4)] show ?thesis by (intro employees_frame) auto
next
  case (handle p i r rq env resp w)
  then have "w = gt_w g" using handle_stage_frame(3) by (metis snd_conv)
  with handle show ?thesis by (intro employees_frame) auto
next
  case (page p i rq t0 env resp w)
  then have "w = gt_w g" using handle_stage_frame(2) by (metis snd_conv)
  with page show ?thesis by (intro employees_frame) auto
next
  case (sync_pass env s run_id res db)
  with sync_keeps_niks [of "gate_db g" env s run_id] show ?thesis by (simp add: keeps_employees_def gate_db_def)
qed (auto intro: employees_frame simp: run_pending_frame)

interpretation growth: machine_progress "gate_step cfg chi prom" "\<lambda>e. True" schema_ok keeps_employees for cfg chi prom
  by unfold_locales (auto simp: keeps_employees_def intro: schema_step dest: employees_step [unfolded keeps_employees_def])

text \<open>
  A pass is one step here, although its upserts are visible one by one. What a reader can see in the
  middle of one is what a pass leaves that has read only so far and whose commit is then lost, so
  that every such state is among those that the gateway reaches.
\<close>

definition cut_short :: "sync_env \<Rightarrow> vps_row list \<Rightarrow> sync_env" where
  "cut_short env rows =
     env\<lparr>se_begin := None, se_fault := (\<lambda>_. None), se_read := None, se_fetch := (\<lambda>_. (rows, None)),
       se_commit := Some (ErrNew ''connection lost'', False)\<rparr>"

lemma cut_short_pass:
  assumes "pg_healthy (se_pg env)" and "list_all row_ok rows" and "run_id \<notin> rr_id ` set (db_runs db)"
  shows "snd (sync_karyawan (cut_short env rows) s run_id db) = db\<lparr>db_kar := upsert_all env rows (db_kar db)\<rparr>"
proof -
  let ?env = "cut_short env rows"
  have env: "se_begin ?env = None" "se_fault ?env st = None" "se_read ?env = None" "se_fetch ?env wm = (rows, None)"
    "se_commit ?env = Some (ErrNew ''connection lost'', False)" "pg_healthy (se_pg ?env)" "mirror_row ?env = mirror_row env" for st wm
    using assms(1) by (simp_all add: cut_short_def mirror_row_def fun_eq_iff)
  have fin: "update_run run_id (finish_run_row (se_now ?env TxFinishRun) n)
      ((running_tx ?env s run_id db)\<lparr>tx_state := st\<rparr>) =
    Inr ((running_tx ?env s run_id db)\<lparr>tx_state := st, tx_runs := db_runs db @
      [finish_run_row (se_now ?env TxFinishRun) n (new_run ?env s run_id)]\<rparr>)" for n st
    by (simp add: update_run_def running_tx_def update_new_run [OF assms(3)])
  have open_tx: "\<not> tx_aborted (running_tx ?env s run_id db)" by (simp add: running_tx_def)
  show ?thesis
    using assms(3) sync_rows_healthy [OF env(6) assms(2)] open_tx
    by (simp add: sync_karyawan_def env tx_exec_def insert_run_begin sync_body_def
        read_watermark_ok [OF env(3)] sync_finish_def put_success_def fin tx_commit_def)
qed

lemma middle_of_pass_reached:
  assumes "pg_healthy (se_pg env)" and "list_all row_ok rows" and "run_id \<notin> rr_id ` set (gt_runs g)"
  shows "gate_step cfg chi prom g (EvSync (cut_short env (take k rows)) s run_id)
    (g\<lparr>gt_w := (gt_w g)\<lparr>gw_kar := upsert_all env (take k rows) (gw_kar (gt_w g))\<rparr>\<rparr>)"
proof -
  have "list_all row_ok (take k rows)" using assms(2) by (auto simp: list_all_iff dest: in_set_takeD)
  from cut_short_pass [OF assms(1) this, of run_id "gate_db g" s] assms(3)
  obtain res where "sync_karyawan (cut_short env (take k rows)) s run_id (gate_db g) =
      (res, (gate_db g)\<lparr>db_kar := upsert_all env (take k rows) (gw_kar (gt_w g))\<rparr>)"
    by (cases "sync_karyawan (cut_short env (take k rows)) s run_id (gate_db g)") (auto simp: gate_db_def)
  from gate_step.sync_pass [OF this [unfolded gate_db_def]] show ?thesis by simp
qed

section \<open>Where an employee stands in the listing\<close>

text \<open>A deterministic collation does not take two texts for equal.\<close>

definition deterministic :: "pgenv \<Rightarrow> bool" where
  "deterministic env \<longleftrightarrow> collation env \<and> (\<forall>x y. pg_le env x y \<and> pg_le env y x \<longrightarrow> x = y)"

lemma deterministic_pg_ref: "deterministic pg_ref"
proof -
  have "byte_le x y \<Longrightarrow> byte_le y x \<Longrightarrow> x = y" for x y
  proof (induction x y rule: byte_le.induct)
    case (1 ys)
    then show ?case by (cases ys) simp_all
  qed (auto split: if_splits)
  then show ?thesis using collation_pg_ref by (auto simp: deterministic_def pg_ref_def)
qed

definition rank :: "pgenv \<Rightarrow> string \<Rightarrow> string set \<Rightarrow> nat" where
  "rank env n N = card {m \<in> N. pg_le env m n \<and> m \<noteq> n}"

lemma rank_mono: "finite M \<Longrightarrow> N \<subseteq> M \<Longrightarrow> rank env n N \<le> rank env n M"
  unfolding rank_def by (rule card_mono) auto

text \<open>In a sorted list without duplicates, the rank is the position.\<close>

lemma sorted_rank:
  assumes "deterministic env" and "nik_sorted env xs" and "distinct (map kr_nik_hris xs)" and "i < length xs"
  shows "rank env (kr_nik_hris (xs ! i)) (niks xs) = i"
proof -
  let ?n = "map kr_nik_hris xs"
  have diff: "kr_nik_hris (xs ! j) \<noteq> kr_nik_hris (xs ! i)" if "j < length xs" "j \<noteq> i" for j
    using nth_eq_iff_index_eq [OF assms(3), of j i] assms(4) that by simp
  have below: "pg_le env (?n ! j) (?n ! i) \<and> ?n ! j \<noteq> ?n ! i \<longleftrightarrow> j < i" if "j < length xs" for j
  proof (cases j i rule: linorder_cases)
    case less
    then show ?thesis using assms diff [OF that] by (simp add: sorted_wrt_iff_nth_less)
  next
    case greater
    then have "pg_le env (?n ! i) (?n ! j)" using assms that by (simp add: sorted_wrt_iff_nth_less)
    then show ?thesis using greater assms(1) unfolding deterministic_def by auto
  qed simp
  have "{m \<in> niks xs. pg_le env m (?n ! i) \<and> m \<noteq> ?n ! i} = (\<lambda>j. ?n ! j) ` {..<i}"
  proof
    show "{m \<in> niks xs. pg_le env m (?n ! i) \<and> m \<noteq> ?n ! i} \<subseteq> (\<lambda>j. ?n ! j) ` {..<i}"
    proof
      fix m assume m: "m \<in> {m \<in> niks xs. pg_le env m (?n ! i) \<and> m \<noteq> ?n ! i}"
      then have "m \<in> set ?n" by (simp add: niks_def)
      then obtain j where j: "j < length xs" "m = ?n ! j" by (metis in_set_conv_nth length_map)
      with m below [OF j(1)] have "j < i" by blast
      with j show "m \<in> (\<lambda>j. ?n ! j) ` {..<i}" by blast
    qed
    show "(\<lambda>j. ?n ! j) ` {..<i} \<subseteq> {m \<in> niks xs. pg_le env m (?n ! i) \<and> m \<noteq> ?n ! i}"
    proof
      fix m assume "m \<in> (\<lambda>j. ?n ! j) ` {..<i}"
      then obtain j where j: "j < i" "m = ?n ! j" by blast
      with assms(4) have "j < length xs" by simp
      with below [OF this] j show "m \<in> {m \<in> niks xs. pg_le env m (?n ! i) \<and> m \<noteq> ?n ! i}"
        by (simp add: niks_def)
    qed
  qed
  moreover have "inj_on (\<lambda>j. ?n ! j) {..<i}"
  proof (rule inj_onI)
    fix x y assume "x \<in> {..<i}" and "y \<in> {..<i}" and eq: "?n ! x = ?n ! y"
    then have "x < length ?n" and "y < length ?n" using assms(4) by simp_all
    with eq show "x = y" using nth_eq_iff_index_eq [OF assms(3)] by blast
  qed
  ultimately have "rank env (?n ! i) (niks xs) = i" unfolding rank_def by (metis card_image card_lessThan)
  with assms(4) show ?thesis by simp
qed

lemma set_order_by_nik: "set (order_by_nik env t) = set t"
  by (metis mset_order_by_nik set_mset_mset)

lemma listed_at_rank:
  assumes "deterministic env" and "keyed kr_nik_hris t" and "n \<in> niks t"
  shows "rank env n (niks t) < length t \<and> kr_nik_hris (order_by_nik env t ! rank env n (niks t)) = n"
proof -
  let ?xs = "order_by_nik env t"
  have same: "niks ?xs = niks t" by (simp add: niks_def set_order_by_nik)
  have "mset (map kr_nik_hris ?xs) = mset (map kr_nik_hris t)" by (simp add: mset_order_by_nik)
  then have d: "distinct (map kr_nik_hris ?xs)" using assms(2) unfolding keyed_def by (metis mset_eq_imp_distinct_iff)
  obtain i where i: "i < length ?xs" "kr_nik_hris (?xs ! i) = n"
  proof -
    have "n \<in> set (map kr_nik_hris ?xs)" using assms(3) same by (simp add: niks_def)
    then show thesis using that unfolding in_set_conv_nth by auto
  qed
  have "nik_sorted env ?xs" using assms(1) by (simp add: deterministic_def sorted_order_by_nik)
  from sorted_rank [OF assms(1) this d i(1)] i same show ?thesis by simp
qed

lemma on_page_rank:
  assumes "deterministic env" and "keyed kr_nik_hris t" and "n \<in> niks (take L (drop (i * L) (order_by_nik env t)))"
  shows "rank env n (niks t) < Suc i * L"
proof -
  let ?xs = "order_by_nik env t"
  have "mset (map kr_nik_hris ?xs) = mset (map kr_nik_hris t)" by (simp add: mset_order_by_nik)
  then have d: "distinct (map kr_nik_hris ?xs)" using assms(2) unfolding keyed_def by (metis mset_eq_imp_distinct_iff)
  obtain r where "r \<in> set (take L (drop (i * L) ?xs))" "n = kr_nik_hris r"
    using assms(3) by (auto simp: niks_def)
  then obtain j where j: "j < L" "i * L + j < length ?xs" "n = kr_nik_hris (?xs ! (i * L + j))"
    by (auto simp: in_set_conv_nth)
  have "rank env n (niks ?xs) = i * L + j"
    using sorted_rank [OF assms(1) _ d j(2)] assms(1) j(3) by (simp add: deterministic_def sorted_order_by_nik)
  with j(1) show ?thesis by (simp add: niks_def set_order_by_nik)
qed

section \<open>Pages over a growing table\<close>

abbreviation page_filter :: "int \<Rightarrow> nat \<Rightarrow> kar_filter" where
  "page_filter L i \<equiv> any_filter\<lparr>f_limit := L, f_offset := int i * L\<rparr>"

lemma any_filter_page:
  assumes "pg_healthy env" and "1 \<le> L" and "L \<le> 500"
  shows "repo_list_at env (page_filter L i) t0 t =
    (map scan_row (take (nat L) (drop (i * nat L) (order_by_nik env t))), int (length t0), None)"
proof -
  have "matches env (page_filter L i) r" for r
    by (simp add: matches_def matches_text_def matches_status_def opt_eq_def opt_like_def any_filter_def)
  moreover have "eff_offset (int i * L) = int i * L" "nat (int i * L) = i * nat L" "eff_limit L = L"
    using assms(2,3) by (simp_all add: eff_offset_def eff_limit_def nat_mult_distrib mult_less_0_iff)
  ultimately show ?thesis
    by (simp add: repo_list_at_healthy [OF assms(1)] any_filter_def selected_def)
qed

lemma set_slice: "l \<le> j \<Longrightarrow> j < l + k \<Longrightarrow> j < length xs \<Longrightarrow> xs ! j \<in> set (take k (drop l xs))"
  by (subst in_set_conv_nth) (auto intro!: exI [of _ "j - l"])

text \<open>
  An employee who is in every table moves only down the listing, so that no page passes by without
  the employee being on it or further down, and behind a short page there is nothing.
\<close>

lemma growing_pages:
  assumes det: "deterministic env" and n: "n \<in> niks (t 0)"
    and grow: "\<And>i. i < k \<Longrightarrow> niks (t i) \<subseteq> niks (t (Suc i))" and keyed: "\<And>i. i \<le> k \<Longrightarrow> keyed kr_nik_hris (t i)"
    and short: "length (take L (drop (k * L) (order_by_nik env (t k)))) < L"
  shows "\<exists>i\<le>k. n \<in> niks (take L (drop (i * L) (order_by_nik env (t i))))"
proof (rule ccontr)
  assume miss: "\<not> ?thesis"
  have stays: "i \<le> k \<Longrightarrow> n \<in> niks (t i)" for i
  proof (induction i)
    case (Suc i)
    then show ?case using grow [of i] by auto
  qed (rule n)
  note at = listed_at_rank [OF det keyed stays]
  have past: "i \<le> k \<Longrightarrow> rank env n (niks (t i)) < i * L + L \<Longrightarrow> rank env n (niks (t i)) < i * L" for i
  proof (rule ccontr)
    assume i: "i \<le> k" and up: "rank env n (niks (t i)) < i * L + L" and "\<not> rank env n (niks (t i)) < i * L"
    then have "order_by_nik env (t i) ! rank env n (niks (t i)) \<in> set (take L (drop (i * L) (order_by_nik env (t i))))"
      using at [OF i i] by (intro set_slice) simp_all
    with at [OF i i] have "n \<in> niks (take L (drop (i * L) (order_by_nik env (t i))))" unfolding niks_def by force
    with i miss show False by blast
  qed
  have down: "i \<le> k \<Longrightarrow> i * L \<le> rank env n (niks (t i))" for i
  proof (induction i)
    case (Suc i)
    then have "i * L + L \<le> rank env n (niks (t i))" using past [of i] by (meson Suc_leD not_less)
    also have "\<dots> \<le> rank env n (niks (t (Suc i)))"
      using grow Suc.prems by (intro rank_mono) (simp_all add: niks_def)
    finally show ?case by simp
  qed simp
  have "rank env n (niks (t k)) < k * L + L" using short at [of k] by (auto simp: min_less_iff_disj)
  with past down show False by (meson not_less order_refl)
qed

section \<open>Properties\<close>

text \<open>
  Property C15. Paging misses nobody. A reader pages through the unfiltered listing with limit \<open>L\<close> at the offsets
  \<open>0, L, 2L, ...\<close> and stops at the first page with fewer than \<open>L\<close> rows. Whatever takes place
  between the pages, and between the count and the page of one reply, synchronisation passes
  included: everyone who was in the mirror at the start is on one of the pages, and no total
  overstates the table. Passes only insert and update, so that a row only moves to later pages.
\<close>

theorem paging_misses_nobody:
  assumes "pg_healthy pg" and "deterministic pg" and "1 \<le> L" and "L \<le> 500" and "schema_ok (g 0)"
    and "\<And>i. i \<le> k \<Longrightarrow> gate_reaches cfg chi prom (\<lambda>e. True) (g i) (h i)"
    and "\<And>i. i < k \<Longrightarrow> gate_reaches cfg chi prom (\<lambda>e. True) (h i) (g (Suc i))"
    and "\<And>i. i \<le> k \<Longrightarrow>
      repo_list_at pg (page_filter L i) (gw_kar (gt_w (g i))) (gw_kar (gt_w (h i))) = (rows i, cnt i, err i)"
    and "int (length (rows k)) < L"
  shows "niks (gw_kar (gt_w (g 0))) \<subseteq> (\<Union>i\<le>k. k_nik_hris ` set (rows i))
    \<and> (\<forall>i\<le>k. err i = None \<and> cnt i \<le> int (length (gw_kar (gt_w (h i)))))"
proof -
  let ?t = "\<lambda>i. gw_kar (gt_w (h i))"
  have ok: "i \<le> k \<Longrightarrow> schema_ok (g i) \<and> schema_ok (h i)" for i
    by (induction i) (use assms(5) schema.reached [OF assms(6)] schema.reached [OF assms(7)] in auto)
  have at: "keeps_employees (g i) (h i)" if "i \<le> k" for i
    using growth.progress [OF assms(6) [OF that]] ok [OF that] by blast
  have next_h: "niks (?t i) \<subseteq> niks (?t (Suc i))" if "i < k" for i
    using growth.progress [OF assms(7) [OF that]] at [of "Suc i"] ok [of i] that by (auto simp: keeps_employees_def)
  have keyed: "keyed kr_nik_hris (?t i)" "keyed kr_nik_hris (gw_kar (gt_w (g i)))" if "i \<le> k" for i
    using ok [OF that] by (simp_all add: schema_ok_def gate_db_def db_wf_def)
  have rows: "rows i = map scan_row (take (nat L) (drop (i * nat L) (order_by_nik pg (?t i))))"
    and rest: "err i = None" "cnt i = int (length (gw_kar (gt_w (g i))))" if "i \<le> k" for i
    using assms(8) [OF that] any_filter_page [OF assms(1,3,4)] by simp_all
  have "n \<in> (\<Union>i\<le>k. k_nik_hris ` set (rows i))" if "n \<in> niks (gw_kar (gt_w (g 0)))" for n
  proof -
    have "n \<in> niks (?t 0)" using at [of 0] that by (auto simp: keeps_employees_def)
    moreover have "length (take (nat L) (drop (k * nat L) (order_by_nik pg (?t k)))) < nat L"
      using assms(9) rows [of k] by (metis length_map nat_int order_refl zless_nat_conj zless_nat_eq_int_zless)
    ultimately obtain i where "i \<le> k" "n \<in> niks (take (nat L) (drop (i * nat L) (order_by_nik pg (?t i))))"
      using growing_pages [where t = ?t and k = k and L = "nat L", OF assms(2) _ next_h keyed(1)] by blast
    then obtain r where "r \<in> set (take (nat L) (drop (i * nat L) (order_by_nik pg (?t i))))" "n = kr_nik_hris r"
      unfolding niks_def by blast
    then have "scan_row r \<in> set (rows i)" "n = k_nik_hris (scan_row r)"
      using rows [OF \<open>i \<le> k\<close>] by (simp_all add: scan_row_def)
    with \<open>i \<le> k\<close> show ?thesis by blast
  qed
  moreover have "cnt i \<le> int (length (?t i))" if "i \<le> k" for i
  proof -
    have "card (niks (gw_kar (gt_w (g i)))) \<le> card (niks (?t i))"
      using at [OF that] by (intro card_mono) (auto simp: keeps_employees_def niks_def)
    then show ?thesis
      using keyed [OF that] rest(2) [OF that] by (metis distinct_card keyed_def length_map niks_def of_nat_mono set_map)
  qed
  ultimately show ?thesis using rest(1) by blast
qed


text \<open>A pass that brings an employee in front of the three that are there.\<close>

definition new_hire :: vps_row where
  "new_hire = \<lparr>vr_nik_hris = ''A0'', vr_nik_santos = None, vr_nama_karyawan = ''Siti'',
     vr_nama_departemen = Some ''HR'', vr_nama_jabatan = None, vr_tgl_bergabung = Some 1600000000000000,
     vr_tgl_keluar = None, vr_lokasi = Some ''JKT'', vr_gender = Some ''P'', vr_updated_at = 1000000\<rparr>"

lemma hire_step:
  "\<exists>g. gate_reaches server_ref sample_chi sample_prom (\<lambda>e. True) (sample_gate False) g
     \<and> map kr_nik_hris (gw_kar (gt_w g)) = [''C3'', ''A1'', ''B2'', ''A0'']"
proof -
  let ?env = "sync_ref (\<lambda>_. ([new_hire], None))" and ?g = "sample_gate False"
  have "year_ok 1000000" "year_ok 1600000000000000" by code_simp+
  then have "row_ok new_hire" by (simp add: row_ok_def new_hire_def)
  then have pass: "db_kar (snd (sync_karyawan ?env kar_syncer ''r1'' (gate_db ?g))) = upsert_all ?env [new_hire] sample_table"
    by (subst sync_healthy_ok [OF sync_ref_healthy, where rows = "[new_hire]"])
      (simp_all add: gate_db_def sample_gate_def sample_gateway_def)
  obtain res db where db: "sync_karyawan ?env kar_syncer ''r1'' (gate_db ?g) = (res, db)" by fastforce
  let ?g1 = "?g\<lparr>gt_w := (gt_w ?g)\<lparr>gw_kar := db_kar db\<rparr>, gt_state := db_state db, gt_runs := db_runs db\<rparr>"
  have "gate_step server_ref sample_chi sample_prom ?g (EvSync ?env kar_syncer ''r1'') ?g1"
    using gate_step.sync_pass [OF db [unfolded gate_db_def]] .
  moreover have "map kr_nik_hris (db_kar db) = [''C3'', ''A1'', ''B2'', ''A0'']"
    using pass db sample_table_rows(1) kar_table.keys_upsert_list [of "mirror_row ?env new_hire" sample_table]
    by (simp add: new_hire_def image_set)
  ultimately show ?thesis by (intro exI [of _ ?g1] conjI reaches_one) simp_all
qed

lemma sample_gate_schema: "schema_ok (sample_gate False)"
  by (simp add: schema_ok_def gate_db_def sample_gate_def sample_gateway_def db_wf_def keyed_def sample_table_rows)

text \<open>Two pages of at most three, the new employee arriving between them.\<close>

lemma paging_misses_nobody_witness:
  "\<exists>g rows. gate_reaches server_ref sample_chi sample_prom (\<lambda>e. True) (sample_gate False) g
     \<and> rows 0 = fst (repo_list_at pg_ref (page_filter 3 0) sample_table sample_table)
     \<and> rows 1 = fst (repo_list_at pg_ref (page_filter 3 1) (gw_kar (gt_w g)) (gw_kar (gt_w g)))
     \<and> length (rows 1) = 1 \<and> {''A1'', ''B2'', ''C3''} \<subseteq> (\<Union>i\<le>1::nat. k_nik_hris ` set (rows i))"
proof -
  obtain g where g: "gate_reaches server_ref sample_chi sample_prom (\<lambda>e. True) (sample_gate False) g"
    "map kr_nik_hris (gw_kar (gt_w g)) = [''C3'', ''A1'', ''B2'', ''A0'']"
    using hire_step by (elim exE conjE)
  have four: "length (gw_kar (gt_w g)) = 4" using arg_cong [where f = length, OF g(2)] by simp
  let ?s = "\<lambda>i::nat. if i = 0 then sample_gate False else g"
  let ?p = "\<lambda>i. repo_list_at pg_ref (page_filter 3 i) (gw_kar (gt_w (?s i))) (gw_kar (gt_w (?s i)))"
  have start: "gw_kar (gt_w (sample_gate False)) = sample_table" by (simp add: sample_gate_def sample_gateway_def)
  have len: "length (fst (?p 1)) = 1" using any_filter_page [OF pg_ref_healthy, of 3 1] four by simp
  have "niks (gw_kar (gt_w (?s 0))) \<subseteq> (\<Union>i\<le>1. k_nik_hris ` set (fst (?p i)))
    \<and> (\<forall>i\<le>1. snd (snd (?p i)) = None \<and> fst (snd (?p i)) \<le> int (length (gw_kar (gt_w (?s i)))))"
  proof (rule paging_misses_nobody [where L = 3 and k = 1 and g = ?s and h = ?s and rows = "\<lambda>i. fst (?p i)"
        and cnt = "\<lambda>i. fst (snd (?p i))" and err = "\<lambda>i. snd (snd (?p i))", OF pg_ref_healthy deterministic_pg_ref])
    show "schema_ok (?s 0)" using sample_gate_schema by simp
    show "gate_reaches server_ref sample_chi sample_prom (\<lambda>e. True) (?s i) (?s i)" for i by (rule here)
    show "gate_reaches server_ref sample_chi sample_prom (\<lambda>e. True) (?s i) (?s (Suc i))" if "i < 1" for i
      using g(1) that by simp
    show "int (length (fst (?p 1))) < 3" unfolding len by simp
  qed (simp_all del: One_nat_def add: any_filter_page [OF pg_ref_healthy])
  moreover have "niks sample_table = {''A1'', ''B2'', ''C3''}"
    unfolding niks_def set_map [symmetric] sample_table_rows by auto
  ultimately show ?thesis using g(1) len start
    by (intro exI [of _ g] exI [of _ "\<lambda>i. fst (?p i)"]) simp
qed

lemma finite_niks: "finite (niks t)"
  by (simp add: niks_def)

text \<open>
  Property C29. A stale total hides an employee. The API documentation lets a reader compute the number of pages
  from the total. The total is counted by a statement of its own, before the page is read. Whenever
  the table counted fills its \<open>P\<close> pages of \<open>L\<close> rows exactly, and an employee with a smaller NIK
  than its last one is written before the first page is read, then the total says \<open>P\<close> pages and the
  last employee, who is in the table throughout, is on none of them, whatever else takes place.
\<close>

theorem stale_total_hides_employee:
  assumes "pg_healthy pg" and "deterministic pg" and "1 \<le> L" and "L \<le> 500" and "schema_ok g"
    and "int (length (gw_kar (gt_w g))) = int P * L"
    and "n \<in> niks (gw_kar (gt_w g))" and "\<And>m. m \<in> niks (gw_kar (gt_w g)) \<Longrightarrow> pg_le pg m n"
    and "a \<notin> niks (gw_kar (gt_w g))" and "pg_le pg a n"
    and "\<And>i. i < P \<Longrightarrow> gate_reaches cfg chi prom (\<lambda>e. True) g (h i) \<and> a \<in> niks (gw_kar (gt_w (h i)))"
    and "\<And>i. i < P \<Longrightarrow> repo_list_at pg (page_filter L i) (t0 i) (gw_kar (gt_w (h i))) = (rows i, cnt i, err i)"
    and "t0 0 = gw_kar (gt_w g)"
  shows "(0 < P \<longrightarrow> cnt 0 = int P * L)
    \<and> (\<forall>i<P. err i = None \<and> n \<in> niks (gw_kar (gt_w (h i))) \<and> n \<notin> k_nik_hris ` set (rows i))"
proof -
  let ?t = "gw_kar (gt_w g)" and ?t' = "\<lambda>i. gw_kar (gt_w (h i))"
  have page: "rows i = map scan_row (take (nat L) (drop (i * nat L) (order_by_nik pg (?t' i))))" "err i = None"
    "cnt i = int (length (t0 i))" if "i < P" for i
    using assms(12) [OF that] any_filter_page [OF assms(1,3,4)] by simp_all
  have "n \<in> niks (?t' i) \<and> n \<notin> k_nik_hris ` set (rows i)" if i: "i < P" for i
  proof -
    have g: "schema_ok (h i)" "niks ?t \<subseteq> niks (?t' i)"
      using growth.progress [OF conjunct1 [OF assms(11) [OF i]]] assms(5) by (simp_all add: keeps_employees_def)
    then have keyed: "keyed kr_nik_hris (?t' i)" by (simp add: schema_ok_def gate_db_def db_wf_def)
    have "P * nat L \<le> rank pg n (niks (?t' i))"
    proof -
      have an: "a \<noteq> n" using assms(7,9) by blast
      have "insert a (niks ?t - {n}) \<subseteq> {m \<in> niks (?t' i). pg_le pg m n \<and> m \<noteq> n}"
        using g(2) assms(8,10) conjunct2 [OF assms(11) [OF i]] an by auto
      then have "card (insert a (niks ?t - {n})) \<le> rank pg n (niks (?t' i))"
        unfolding rank_def by (rule card_mono [rotated]) (simp add: niks_def)
      moreover have "card (insert a (niks ?t - {n})) = card (niks ?t)"
        using assms(7,9) card_Suc_Diff1 [of "niks ?t" n] by (simp add: finite_niks)
      moreover have "card (niks ?t) = length ?t"
        using assms(5) by (simp add: schema_ok_def gate_db_def db_wf_def keyed_def niks_def distinct_card flip: set_map)
      moreover have "length ?t = P * nat L"
      proof -
        have "int (length ?t) = int (P * nat L)" using assms(3,6) by simp
        then show ?thesis by (simp only: of_nat_eq_iff)
      qed
      ultimately show ?thesis by simp
    qed
    moreover have "n \<notin> k_nik_hris ` set (rows i)" if "P * nat L \<le> rank pg n (niks (?t' i))"
    proof
      assume "n \<in> k_nik_hris ` set (rows i)"
      then have "n \<in> niks (take (nat L) (drop (i * nat L) (order_by_nik pg (?t' i))))"
        using page(1) [OF i] by (auto simp: niks_def scan_row_def)
      then have "rank pg n (niks (?t' i)) < Suc i * nat L" by (rule on_page_rank [OF assms(2) keyed])
      also have "\<dots> \<le> P * nat L" using i by (intro mult_le_mono) simp_all
      finally show False using that by simp
    qed
    ultimately show ?thesis using g(2) assms(7) by blast
  qed
  with page assms(6,13) show ?thesis by simp
qed

lemma stale_total_hides_employee_witness:
  "\<exists>g. gate_reaches server_ref sample_chi sample_prom (\<lambda>e. True) (sample_gate False) g
     \<and> (case repo_list_at pg_ref (page_filter 3 0) sample_table (gw_kar (gt_w g)) of
          (rows, cnt, err) \<Rightarrow> err = None \<and> cnt = 3 \<and> ''C3'' \<notin> k_nik_hris ` set rows)
     \<and> ''C3'' \<in> niks (gw_kar (gt_w g))"
proof -
  obtain g where g: "gate_reaches server_ref sample_chi sample_prom (\<lambda>e. True) (sample_gate False) g"
    "map kr_nik_hris (gw_kar (gt_w g)) = [''C3'', ''A1'', ''B2'', ''A0'']"
    using hire_step by (elim exE conjE)
  obtain rows cnt err where page: "repo_list_at pg_ref (page_filter 3 0) sample_table (gw_kar (gt_w g)) = (rows, cnt, err)"
    by (metis prod_cases3)
  have start: "gw_kar (gt_w (sample_gate False)) = sample_table" by (simp add: sample_gate_def sample_gateway_def)
  have nik: "niks sample_table = {''A1'', ''B2'', ''C3''}" "''A0'' \<in> niks (gw_kar (gt_w g))"
    unfolding niks_def set_map [symmetric] sample_table_rows g(2) by auto
  have "(0 < (1::nat) \<longrightarrow> cnt = int 1 * 3) \<and> (\<forall>i<1::nat. err = None \<and> ''C3'' \<in> niks (gw_kar (gt_w g)) \<and> ''C3'' \<notin> k_nik_hris ` set rows)"
  proof (rule stale_total_hides_employee [where L = 3 and P = 1 and g = "sample_gate False" and h = "\<lambda>i. g"
        and ?t0.0 = "\<lambda>i. sample_table" and a = "''A0''" and rows = "\<lambda>i. rows" and cnt = "\<lambda>i. cnt" and err = "\<lambda>i. err",
        OF pg_ref_healthy deterministic_pg_ref])
    show "schema_ok (sample_gate False)" by (rule sample_gate_schema)
    show "int (length (gw_kar (gt_w (sample_gate False)))) = int 1 * 3" unfolding start by (simp add: sample_table_def)
    show "gate_reaches server_ref sample_chi sample_prom (\<lambda>e. True) (sample_gate False) g \<and> ''A0'' \<in> niks (gw_kar (gt_w g))"
      using g(1) nik(2) by (rule conjI)
    show "repo_list_at pg_ref (page_filter 3 i) sample_table (gw_kar (gt_w g)) = (rows, cnt, err)" if "i < 1" for i
      using page that by simp
    show "pg_le pg_ref m ''C3''" if "m \<in> niks (gw_kar (gt_w (sample_gate False)))" for m
      using that unfolding start nik by (auto simp: pg_ref_def)
  qed (simp_all add: start nik pg_ref_def)
  with g(1) page show ?thesis by (intro exI [of _ g]) simp
qed

end
