(* ===== verification/Migration.thy ===== *)
theory Migration
  imports Sync KarList ApiKey
begin

text \<open>
  The migration \<open>internal/db/migrations/0001_init\<close>, up and down, as data definition statements on a
  catalogue of extensions, tables and indexes, and the statements of the Go code checked against the
  tables that it creates. A primary key's own index is not in the catalogue.
\<close>

section \<open>The statements\<close>

datatype col_type = TyText | TyDate | TyTimestamptz | TyJsonb | TyUuid | TyInt | TyBoolean

record column_def =
  cd_name :: string
  cd_type :: col_type
  cd_not_null :: bool
  cd_primary :: bool
  cd_default :: "string option"


record catalog =
  ca_extensions :: "string list"
  ca_tables :: "(string \<times> column_def list) list"
  ca_indexes :: "(string \<times> string) list"





section \<open>The migration\<close>











section \<open>Running it again, and back\<close>



















text \<open>The down migration drops its tables one by one, those that are there.\<close>

definition orphan_free :: "catalog \<Rightarrow> bool" where
  "orphan_free c \<longleftrightarrow> (\<forall>x\<in>set (ca_indexes c). snd x \<in> fst ` set (ca_tables c))"




lemma orphan_free_ext [simp]: "orphan_free (c\<lparr>ca_extensions := es\<rparr>) = orphan_free c"
  by (simp add: orphan_free_def)



section \<open>The statements of the program\<close>






















section \<open>Properties\<close>



end
