(* ===== verification/Spec2Isabelle.thy ===== *)
theory Spec2Isabelle
  imports Prelude Machine SqlTable GoStrconv GoTime GoEncoding GoSha256 GoGcm Crypto GoOs Store
    Karyawan KarList Json VpsMysql Sync SyncMirror SyncProps
    SourceLoops SyncConc ApiKey RateLimit Api Setup GoDuration Bootstrap CmdSetup Services
    Logger Gateway EndToEnd SyncSource SyncLife ApiLife Schema Paging Migration
begin

text \<open>
  A verification library for the SSO gateway, a Go program that mirrors the employee table of a
  MySQL server into Postgres and serves it over HTTP to holders of an API key.

  \<^bold>\<open>The program.\<close> Three commands share the packages under \<open>internal/\<close>. \<open>cmd/setup\<close> asks for the
  credentials of the source, checks them, encrypts the password under a master key, writes a
  dotenv file (the key) and a YAML file (the rest), and then migrates the database, inserts an
  API key and runs a first synchronisation. \<open>cmd/sync\<close> reads both and runs \<open>SyncKaryawan\<close> on a
  schedule: rows with \<open>updated_at\<close> after the watermark are read in batches and upserted, with a
  run log, under an advisory lock. \<open>cmd/api\<close> answers two GET endpoints from the mirror behind key
  authentication and a rate limiter in Redis.

  \<^bold>\<open>Theories and the code they model.\<close>
  \<^item> \<^theory_text>\<open>Prelude\<close>: Go errors as values (wrapping, sentinels, \<open>errors.Is\<close>), 64-bit wrap-around, lists;
    \<^theory_text>\<open>SqlTable\<close>: tables as lists of rows with a key, insert, update, upsert, and the locale
    \<open>keyed_table\<close> with the laws of an upsert. \<^theory_text>\<open>Machine\<close>: what a step relation reaches, and the
    locales by which its invariants are proved.
  \<^item> \<^theory_text>\<open>GoStrconv\<close>, \<^theory_text>\<open>GoTime\<close>, \<^theory_text>\<open>GoDuration\<close>, \<^theory_text>\<open>GoEncoding\<close>, \<^theory_text>\<open>GoSha256\<close>, \<^theory_text>\<open>GoGcm\<close>, \<^theory_text>\<open>Json\<close>, \<^theory_text>\<open>GoOs\<close>:
    what the code uses of Go's standard library, and \<open>itoa\<close> and \<open>splitLines\<close> of the repository
    as list functions; \<^theory_text>\<open>SourceLoops\<close>: these two as the source writes them, by index on a
    buffer. \<^theory_text>\<open>GoOs\<close> holds the locale \<open>atomic_file\<close>.
  \<^item> \<^theory_text>\<open>Crypto\<close>: \<open>internal/crypto/aes.go\<close>. \<^theory_text>\<open>Store\<close>: \<open>internal/store/config.go\<close>.
  \<^item> \<^theory_text>\<open>Karyawan\<close>, \<^theory_text>\<open>KarList\<close>: \<open>internal/karyawan\<close>, the repository of the mirror table: \<open>Upsert\<close>,
    \<open>GetByNIK\<close>, and \<open>List\<close> with the SQL text and arguments that it builds.
  \<^item> \<^theory_text>\<open>VpsMysql\<close>: \<open>internal/vpsmysql/client.go\<close>, and the locale \<open>source\<close>, what the synchronisation
    relies on. \<^theory_text>\<open>Sync\<close>: \<open>internal/sync/sync.go\<close> with its transaction; \<open>sync_karyawan\<close> is one pass,
    \<open>pass_spec\<close> its contract. \<^theory_text>\<open>SyncMirror\<close> and \<^theory_text>\<open>SyncProps\<close>: what a pass and a series of passes
    guarantee. \<^theory_text>\<open>SyncConc\<close>: any number of processes, their steps interleaved.
    \<^theory_text>\<open>SyncSource\<close>: passes over a source that changes between them.
  \<^item> \<^theory_text>\<open>ApiKey\<close>: \<open>internal/apikey/store.go\<close>, the key functions of \<open>internal/setup/setup.go\<close> and
    \<open>cmd/setup/apikey_insert.go\<close>. \<^theory_text>\<open>RateLimit\<close>: \<open>internal/redisx\<close>, and the locale \<open>limiter\<close>.
    \<^theory_text>\<open>Api\<close>: \<open>internal/api\<close> and \<open>internal/server/server.go\<close>, handlers and middlewares as functions on
    the gateway's state.
  \<^item> \<^theory_text>\<open>Setup\<close>: \<open>internal/setup/setup.go\<close>. \<^theory_text>\<open>CmdSetup\<close>: \<open>cmd/setup\<close>. \<^theory_text>\<open>Bootstrap\<close>:
    \<open>internal/config\<close>, \<open>internal/db\<close>, \<open>internal/bootstrap\<close>. \<^theory_text>\<open>Logger\<close>: \<open>internal/logger\<close>.
    \<^theory_text>\<open>Services\<close>: \<open>cmd/api\<close> and \<open>cmd/sync\<close> as functions from what happens to how they end;
    \<^theory_text>\<open>ApiLife\<close>, \<^theory_text>\<open>SyncLife\<close>: the same two while they run and shut down, as step relations whose
    phases follow the signal, \<open>Shutdown\<close> or \<open>c.Stop\<close>, and the deferred closes in their order. The
    documented \<open>http.Server.Shutdown\<close>, \<open>sql.DB.Close\<close> and \<open>pgxpool.Pool.Close\<close> are in these relations:
    a closed pool lets no new statement through and waits for the connections in use.
  \<^item> \<^theory_text>\<open>Gateway\<close>: the running gateway, with the stages of many requests interleaved with each other,
    the detached last-use writes, synchronisation passes, key upserts, revocations and restarts
    (\<open>gate_step\<close>, over the event type \<open>event\<close>). \<^theory_text>\<open>EndToEnd\<close>: from a source row to the reply, and from
    the terminal of the setup command to the middleware. \<^theory_text>\<open>Schema\<close>: the primary keys of the four
    tables of the migration, over every step of the gateway. \<^theory_text>\<open>Paging\<close>: reading the listing page
    by page while all this goes on.
  \<^item> \<^theory_text>\<open>Migration\<close>: \<open>internal/db/migrations\<close>, up and down, as statements on a catalogue, and the SQL of
    the Go code against its tables.

  A definition carries the name of its Go function in snake case. State that the code mutates is
  passed and returned: the database (\<open>syncdb\<close>, \<open>key_row list\<close>, \<open>keyspace\<close>), the file system
  (\<open>fs\<close>), counters of open handles. An error is \<^const>\<open>Inl\<close> or \<^const>\<open>Some\<close> of a \<open>goerr\<close>, as the
  function returns a value beside it or not.

  \<^bold>\<open>Parameters.\<close> Code outside the repository is an argument. Postgres, MySQL and Redis execute
  the statements of the code as written out in the model, and fail when and how the parameter
  says (\<open>pgenv\<close>, \<open>myenv\<close>, \<open>sync_env\<close>, \<open>redis_env\<close>): before the effect or after it. A failed statement
  aborts its transaction and the commit is then a rollback. \<open>pgx\<close> refuses a statement whose
  arguments do not match its placeholders (\<open>pgx_arity\<close>, a hypothesis where it matters). \<open>AES\<close>
  itself, collations, \<open>chi\<close>, \<open>viper\<close>, the YAML and survey libraries, the migration library, cron,
  the random source and floating point in \<open>time.ParseDuration\<close> are functions about which a
  theorem assumes at most what is documented, by a named hypothesis.

  \<^bold>\<open>What the lemmas show.\<close>
  \<^item> Synchronisation: every pass meets its contract whatever fails in it; the mirror is complete
    up to the watermark and stays so, under concurrency and crashes; enough passes read
    everything; the tables stay well-formed and fit the program's statements. The exception is proved too: rows whose timestamp
    ties with the end of a cut batch are lost.
  \<^item> HTTP: without a live key nothing is learnt; a failing database is not taken for a bad key;
    the replies of both endpoints; the limiter's count is exact per key and window, and Redis
    errors let requests pass. Every listing with \<open>status_aktif\<close> fails. With requests in flight: a
    revoked key is refused from its next lookup on, and no interleaving exceeds the limit; paging
    misses nobody, if it goes on to a short page, but a total can be stale and then hides someone.
  \<^item> End to end: after enough passes a source row is what a reader gets; a source whose changes are
    stamped upwards is followed, deletions and late stamps are not; the printed key opens the API.
  \<^item> Secrets: decryption inverts encryption and refuses a forged tag; files are replaced as a
    whole; a successful setup leaves key, configuration and database consistent, a failed one
    keeps the old key, but for a key overridden by the environment; the printed key
    authenticates, and an upsert un-revokes nothing, but can replace another key. Interactive
    setup always fails.
  \<^item> Processes: what each command has open at each of its ends, and the schedule that is used; a
    shutdown of the API leaves no request unanswered but at its deadline, and once its pool is
    closed gives no wrong answer; a shutdown of the synchronisation is safe at any moment, but does
    not wait for the pass in flight, which fails unless its batch is upserted when the pool closes.
  \<^item> Database: the migration makes tables that every statement of the program fits, and can be
    repeated and undone.

  \<^bold>\<open>Locales.\<close> \<open>keyed_table\<close> is interpreted on the mirror, the state and the key tables,
  \<open>atomic_file\<close> on \<open>store_save\<close> and \<open>write_dotenv\<close>, \<open>source\<close> on the MySQL client and \<open>limiter\<close> on the
  Redis limiter; \<open>machine_invariant\<close> and its extension \<open>machine_progress\<close> on the steps of the gateway,
  once for each invariant: the lockout of a key, the limit, the schema and the employees that stay.

  \<^bold>\<open>Bounds and termination.\<close> Recursions are structural or have a measure; no fuel is used. The
  loop of \<open>itoa\<close> is a partial function, proved to return within its 20 bytes on every 64-bit
  integer. Timestamps are microseconds, the resolution of both databases, durations
  nanoseconds; \<open>int\<close> values of Go are integers, with the wrap-around written out where they can
  leave 64 bits, and the lock key is a 32-bit word.

  \<^bold>\<open>Not modelled, and why.\<close> What is logged; contexts and their deadlines, except as faults that
  may occur anywhere and as the ten seconds of \<open>Shutdown\<close>; \<open>chi\<close>'s request-id, real-ip, recoverer and timeout middlewares and Prometheus
  beyond its counters; network, TLS and HTTP parsing; the deployment scripts. A pass is one step of
  \<^theory_text>\<open>Gateway\<close>: what is visible in the middle of one is what a pass leaves whose commit is lost
  (\<open>middle_of_pass_reached\<close>), and \<^theory_text>\<open>SyncConc\<close> has its single steps. The answers of
  \<open>FetchKaryawanByNIK\<close> and \<open>MaxUpdatedAt\<close>, which no command calls, are defined but not used.
\<close>

end
